(* ===== verification/Streamfs_Prelude.thy ===== *)
theory Streamfs_Prelude
  imports Main "HOL-Library.Word" "HOL-Library.Sublist"
begin

text \<open>
  Shared vocabulary of the development: machine integers at the widths the C++ code uses,
  faults (undefined behaviour and library preconditions made explicit as values), the
  sequencing of fallible steps, the model of memcpy, and the generic facts on lists and
  words that the component theories share.
\<close>

section \<open>Machine integers\<close>

type_synonym u8 = "8 word"
type_synonym u16 = "16 word"
type_synonym u32 = "32 word"
type_synonym u64 = "64 word"

text \<open>A C++ \<open>int\<close> is kept as the 32-bit word that represents it; \<open>sint\<close> reads it.\<close>

type_synonym c_int = "32 word"

section \<open>Faults and sequencing\<close>

text \<open>
  A fault is a point where the C++ standard or the documentation of a library leaves the
  program without a meaning: an index outside a ring buffer, the front of an empty one,
  more elements erased than there are, a memcpy that leaves its source or its destination,
  an element of a path behind its last one.
\<close>

datatype fault =
    RingIndexOutOfRange
  | RingFrontOfEmpty
  | RingEraseTooMany
  | SourceOverrun
  | DestinationOverrun
  | PathPastEnd
  | ThreadNotJoinable
  | DescriptorOutsideSet
  | BoolOutOfRange
  | InvalidFree

type_synonym 'a outcome = "fault + 'a"

fun andthen :: "'a outcome \<Rightarrow> ('a \<Rightarrow> 'b outcome) \<Rightarrow> 'b outcome" where
  "andthen (Inl e) f = Inl e"
| "andthen (Inr x) f = f x"

lemma andthen_Inr_iff: "andthen m f = Inr y \<longleftrightarrow> (\<exists>x. m = Inr x \<and> f x = Inr y)"
  by (cases m) auto

lemma andthen_cong [fundef_cong]:
  "m = m' \<Longrightarrow> (\<And>x. m' = Inr x \<Longrightarrow> f x = f' x) \<Longrightarrow> andthen m f = andthen m' f'"
  by (cases m') auto

section \<open>memcpy\<close>

text \<open>
  \<open>memcpy_at dst pos src n\<close> copies the first \<open>n\<close> bytes of \<open>src\<close> to
  position \<open>pos\<close> of the caller's buffer \<open>dst\<close>. It faults when \<open>n\<close> runs past
  the source object or the written range is not inside the destination object.
\<close>

definition memcpy_at :: "u8 list \<Rightarrow> int \<Rightarrow> u8 list \<Rightarrow> u64 \<Rightarrow> u8 list outcome" where
  "memcpy_at dst pos src n =
     (if n = 0 then Inr dst
      else if length src < unat n then Inl SourceOverrun
      else if pos < 0 \<or> length dst < nat pos + unat n then Inl DestinationOverrun
      else Inr (take (nat pos) dst @ take (unat n) src @ drop (nat pos + unat n) dst))"

lemma memcpy_at_ok:
  assumes "unat n \<le> length src" and "k + unat n \<le> length dst"
  shows "memcpy_at dst (int k) src n =
           Inr (take k dst @ take (unat n) src @ drop (k + unat n) dst)"
  using assms by (auto simp: memcpy_at_def unat_eq_zero)

lemma memcpy_at_length: "memcpy_at dst pos src n = Inr dst' \<Longrightarrow> length dst' = length dst"
  by (auto simp: memcpy_at_def split: if_splits)

section \<open>Lists cut into blocks of one size\<close>

lemma length_concat_blocks:
  "(\<And>x. x \<in> set xs \<Longrightarrow> length (f x) = c) \<Longrightarrow> length (concat (map f xs)) = length xs * c"
  by (induction xs) auto

lemma drop_concat_blocks:
  assumes "\<And>x. x \<in> set xs \<Longrightarrow> length (f x) = c"
  shows "drop (k * c) (concat (map f xs)) = concat (map f (drop k xs))"
  using assms
proof (induction xs arbitrary: k)
  case Nil
  then show ?case by simp
next
  case (Cons x xs)
  then show ?case by (cases k) auto
qed

lemma take_concat_blocks:
  assumes "\<And>x. x \<in> set xs \<Longrightarrow> length (f x) = c"
  shows "take (k * c) (concat (map f xs)) = concat (map f (take k xs))"
  using assms
proof (induction xs arbitrary: k)
  case Nil
  then show ?case by simp
next
  case (Cons x xs)
  then show ?case by (cases k) auto
qed

text \<open>
  Blocks copied one by one, the first without its first \<open>l\<close> and the last without its
  last \<open>r\<close> elements, are a slice of the concatenation.
\<close>

definition block_slice :: "nat \<Rightarrow> nat \<Rightarrow> nat \<Rightarrow> 'a list list \<Rightarrow> nat \<Rightarrow> 'a list" where
  "block_slice c l r xs k =
     (let skip = (if k = 0 then l else 0)
      in take (c - skip - (if k = length xs - 1 then r else 0)) (drop skip (xs ! k)))"

lemma block_slice_middle:
  assumes "\<And>x. x \<in> set ys \<Longrightarrow> length x = c"
  shows "map (block_slice c l r (y # ys @ [z])) [1..<Suc (length ys)] = ys"
proof (rule nth_equalityI)
  fix k
  assume "k < length (map (block_slice c l r (y # ys @ [z])) [1..<Suc (length ys)])"
  then have k: "k < length ys" by (simp del: upt_Suc)
  with assms have "length (ys ! k) = c" by simp
  with k show "map (block_slice c l r (y # ys @ [z])) [1..<Suc (length ys)] ! k = ys ! k"
    by (simp add: block_slice_def nth_append del: upt_Suc)
qed (simp del: upt_Suc)

lemma concat_block_slices:
  assumes "xs \<noteq> []" and len: "\<And>x. x \<in> set xs \<Longrightarrow> length x = c" and "l \<le> c" and "r \<le> c"
    and "length xs = 1 \<Longrightarrow> l + r \<le> c"
  shows "concat (map (block_slice c l r xs) [0..<length xs]) =
           take (length xs * c - l - r) (drop l (concat xs))"
proof (cases xs rule: rev_cases)
  case Nil
  with assms(1) show ?thesis by simp
next
  case (snoc ws z)
  show ?thesis
  proof (cases ws)
    case Nil
    with snoc show ?thesis by (simp add: block_slice_def)
  next
    case (Cons y ys)
    with snoc have xs: "xs = y # ys @ [z]" by simp
    have range: "[0..<length xs] = 0 # [1..<Suc (length ys)] @ [Suc (length ys)]"
      using upt_conv_Cons [of 0 "Suc (length ys)"] upt_Suc [of 0 "Suc (length ys)"]
      by (simp add: xs del: upt_Suc)
    have ys: "\<And>x. x \<in> set ys \<Longrightarrow> length x = c" and "length y = c" "length z = c"
      using len xs by auto
    moreover from ys have "length (concat ys) = length ys * c"
      using length_concat_blocks [of ys "\<lambda>x. x" c] by simp
    moreover have "concat (map (block_slice c l r xs) [0..<length xs]) =
        block_slice c l r xs 0 @ concat ys @ block_slice c l r xs (Suc (length ys))"
      using block_slice_middle [OF ys, where l = l and r = r and y = y and z = z]
      unfolding range by (simp add: xs del: upt_Suc)
    ultimately show ?thesis
      using assms(3,4) by (simp only:) (simp add: block_slice_def xs)
  qed
qed

lemma slice_of_slice:
  "l + n \<le> m \<Longrightarrow> take n (drop l (take m (drop k xs))) = take n (drop (k + l) xs)"
  by (simp add: drop_take min_def add.commute)

lemma nth_suffix:
  assumes "suffix xs ys" and "i < length xs"
  shows "xs ! i = ys ! (length ys - length xs + i)"
  using assms by (auto simp: suffix_def nth_append)

lemma suffix_drop_both:
  assumes "suffix xs ys" and "n \<le> length xs"
  shows "suffix (take (length xs - n) xs) (take (length ys - n) ys)"
  using assms by (auto simp: suffix_def)

lemma replicate_few:
  "replicate 2 x = [x, x]" "replicate 3 x = [x, x, x]" "replicate 4 x = [x, x, x, x]"
  "replicate 5 x = [x, x, x, x, x]" "replicate 6 x = [x, x, x, x, x, x]"
  by (simp_all add: numeral_eq_Suc)

lemma last_drop_snoc: "drop k (xs @ [x]) \<noteq> [] \<Longrightarrow> last (drop k (xs @ [x])) = x"
  by (metis drop_eq_Nil last_drop last_snoc not_le)

section \<open>Unsigned arithmetic\<close>

named_theorems word_nat "unsigned 64-bit arithmetic read as natural numbers"

lemma unat_sub_le [word_nat]: "b \<le> a \<Longrightarrow> unat (a - b) = unat a - unat b" for a b :: u64
  by (simp add: unat_sub)

lemma unat_add_bounded [word_nat]:
  "unat a + unat b < 2 ^ 64 \<Longrightarrow> unat (a + b) = unat a + unat b" for a b :: u64
  by (simp add: unat_word_ariths)

lemma unat_less_u64 [simp]: "unat (a :: u64) < 18446744073709551616"
proof -
  have "unat a < 2 ^ LENGTH(64)" by (rule unsigned_less)
  then show ?thesis by simp
qed

lemma unat_inc [word_nat]:
  fixes a b :: u64
  assumes "a < b"
  shows "unat (a + 1) = unat a + 1"
proof -
  have "unat a < unat b" using assms by (simp add: word_less_nat_alt)
  then have "unat a + 1 < 18446744073709551616" using unat_less_u64 [of b] by linarith
  then show ?thesis by (simp add: unat_word_ariths)
qed

lemma unat_sub_sub_one [word_nat]:
  fixes a n :: u64
  assumes "a < n"
  shows "unat (n - a - 1) = unat n - unat a - 1"
proof -
  have lt: "unat a < unat n" using assms by (simp add: word_less_nat_alt)
  then have d: "unat (n - a) = unat n - unat a" by (intro unat_sub_le) (simp add: word_le_nat_alt)
  with lt have "1 \<le> n - a" by (simp add: word_le_nat_alt)
  then have "unat (n - a - 1) = unat (n - a) - unat (1 :: u64)" by (rule unat_sub_le)
  with d show ?thesis by simp
qed

text \<open>A small count keeps its value as an \<open>int\<close> and back as a \<open>size_t\<close>.\<close>

lemma sint_small: "k < 2 ^ 31 \<Longrightarrow> sint (of_nat k :: c_int) = int k"
  by (simp add: signed_of_nat signed_take_bit_int_eq_self)

lemma scast_small: "k < 2 ^ 31 \<Longrightarrow> (scast (of_nat k :: c_int) :: u64) = of_nat k"
  by (simp add: signed_of_nat signed_take_bit_int_eq_self)

lemma unat_of_nat_u64: "n < 2 ^ 64 \<Longrightarrow> unat (of_nat n :: u64) = n"
  by (simp add: unat_of_nat)

end
