(* ===== verification/Stream_Config.thy ===== *)
theory Stream_Config
  imports Streamfs_Prelude
begin

text \<open>
  The constants of export/streamfs/config.h and the element type of the buffer pool:
  \<open>buffer_chunk\<close> is a \<open>std::array\<close> of \<open>BUFFER_CHUNK_SIZE\<close> unsigned
  chars, a type whose every value has that many bytes.
\<close>

section \<open>Sizes\<close>

definition TS_PACKAGE_SIZE :: u64 where
  "TS_PACKAGE_SIZE = 188"

definition BUFFER_CHUNK_SIZE :: u64 where
  "BUFFER_CHUNK_SIZE = 8 * 6 * TS_PACKAGE_SIZE"

abbreviation chunk_bytes :: nat where
  "chunk_bytes \<equiv> unat BUFFER_CHUNK_SIZE"

lemma BUFFER_CHUNK_SIZE_eq: "BUFFER_CHUNK_SIZE = 9024"
  by (simp add: BUFFER_CHUNK_SIZE_def TS_PACKAGE_SIZE_def)

lemma chunk_bytes_eq [simp]: "chunk_bytes = 9024"
  by (simp add: BUFFER_CHUNK_SIZE_eq)

lemma chunk_holds_whole_packages: "BUFFER_CHUNK_SIZE mod TS_PACKAGE_SIZE = 0"
  by (simp add: BUFFER_CHUNK_SIZE_eq TS_PACKAGE_SIZE_def)

section \<open>Buffer chunks\<close>

typedef buffer_chunk = "{bs :: u8 list. length bs = chunk_bytes}"
  morphisms chunk_data Abs_chunk
  by (rule exI [of _ "replicate chunk_bytes 0"]) simp

lemma Abs_chunk_data [code abstype]: "Abs_chunk (chunk_data c) = c"
  by (rule chunk_data_inverse)

text \<open>Chunks are compared byte by byte.\<close>

instantiation buffer_chunk :: equal
begin

definition "HOL.equal c d \<longleftrightarrow> chunk_data c = chunk_data d" for c d :: buffer_chunk

instance
  by standard (simp add: equal_buffer_chunk_def chunk_data_inject)

end

lemma length_chunk_data [simp]: "length (chunk_data c) = 9024"
  using chunk_data [of c] by simp

lemma chunk_data_nonempty [simp]: "chunk_data c \<noteq> []"
  by (metis length_chunk_data list.size(3) zero_neq_numeral)

text \<open>\<open>memset(chunk.data(), b, chunk.size())\<close>, and the general constructor.\<close>

definition chunk_fill :: "u8 \<Rightarrow> buffer_chunk" where
  "chunk_fill b = Abs_chunk (replicate chunk_bytes b)"

definition chunk_of :: "u8 list \<Rightarrow> buffer_chunk" where
  "chunk_of bs = Abs_chunk (take chunk_bytes (bs @ replicate chunk_bytes 0))"

lemma chunk_data_fill [simp, code abstract]: "chunk_data (chunk_fill b) = replicate 9024 b"
  by (simp add: chunk_fill_def Abs_chunk_inverse)

lemma chunk_data_chunk_of [code abstract]:
  "chunk_data (chunk_of bs) = take 9024 (bs @ replicate 9024 0)"
  by (simp add: chunk_of_def Abs_chunk_inverse)

lemma chunk_data_of [simp]: "length bs = 9024 \<Longrightarrow> chunk_data (chunk_of bs) = bs"
  by (simp add: chunk_data_chunk_of)

lemma chunk_of_data [simp]: "chunk_of (chunk_data c) = c"
  by (simp add: chunk_data_inject [symmetric])

lemma chunk_fill_inject [simp]: "chunk_fill a = chunk_fill b \<longleftrightarrow> a = b"
  by (simp add: chunk_data_inject [symmetric] replicate_eq_replicate)

text \<open>The bytes of a stream of chunks.\<close>

definition stream_bytes :: "buffer_chunk list \<Rightarrow> u8 list" where
  "stream_bytes cs = concat (map chunk_data cs)"

lemma length_stream_bytes [simp]: "length (stream_bytes cs) = length cs * 9024"
  by (simp add: stream_bytes_def length_concat_blocks)

lemma stream_bytes_append [simp]: "stream_bytes (cs @ ds) = stream_bytes cs @ stream_bytes ds"
  by (simp add: stream_bytes_def)

lemma stream_bytes_Nil [simp]: "stream_bytes [] = []"
  by (simp add: stream_bytes_def)

lemma stream_bytes_Cons [simp]: "stream_bytes (c # cs) = chunk_data c @ stream_bytes cs"
  by (simp add: stream_bytes_def)

lemma drop_stream_bytes: "drop (k * 9024) (stream_bytes cs) = stream_bytes (drop k cs)"
  by (simp add: stream_bytes_def drop_concat_blocks)

lemma take_stream_bytes: "take (k * 9024) (stream_bytes cs) = stream_bytes (take k cs)"
  by (simp add: stream_bytes_def take_concat_blocks)

end
