(* ===== verification/Queues.thy ===== *)
theory Queues
  imports Stream_Config
begin

text \<open>
  The two blocking queues of the code: \<open>MessageQueue\<close>
  (export/streamfs/MessageQueue.h) and \<open>BufferQueue\<close>
  (include/streamfs/BufferQueue.h). A blocking call is an operation that is not enabled
  (\<open>None\<close>) while its wait predicate is false.

  The contract the two share is a locale: what is put in comes out, once and in order. It
  is proved once and interpreted on the message queue and on both directions of the
  buffer queue.
\<close>

section \<open>The contract of a channel\<close>

datatype 'a chan_op = Put 'a | Get

fun chan_run ::
  "('a \<Rightarrow> 'q \<Rightarrow> 'q option) \<Rightarrow> ('q \<Rightarrow> ('a \<times> 'q) option) \<Rightarrow> 'a chan_op list \<Rightarrow> 'q \<Rightarrow>
     ('a list \<times> 'q) option" where
  "chan_run put get [] q = Some ([], q)"
| "chan_run put get (Put x # ops) q =
     (case put x q of None \<Rightarrow> None | Some q' \<Rightarrow> chan_run put get ops q')"
| "chan_run put get (Get # ops) q =
     (case get q of None \<Rightarrow> None
      | Some (x, q') \<Rightarrow> map_option (\<lambda>(xs, r). (x # xs, r)) (chan_run put get ops q'))"

fun chan_puts :: "'a chan_op list \<Rightarrow> 'a list" where
  "chan_puts [] = []"
| "chan_puts (Put x # ops) = x # chan_puts ops"
| "chan_puts (Get # ops) = chan_puts ops"

locale fifo_channel =
  fixes put :: "'a \<Rightarrow> 'q \<Rightarrow> 'q option"
    and get :: "'q \<Rightarrow> ('a \<times> 'q) option"
    and contents :: "'q \<Rightarrow> 'a list"
  assumes put_contents: "put x q = Some q' \<Longrightarrow> contents q' = contents q @ [x]"
    and get_contents: "get q = Some (x, q') \<Longrightarrow> contents q = x # contents q'"
    and get_blocks: "get q = None \<longleftrightarrow> contents q = []"
begin

lemma run_fifo:
  "chan_run put get ops q = Some (out, q') \<Longrightarrow> contents q @ chan_puts ops = out @ contents q'"
proof (induction ops arbitrary: q out)
  case Nil
  then show ?case by simp
next
  case (Cons op ops)
  then show ?case
    by (cases op) (fastforce split: option.splits dest: put_contents get_contents)+
qed

lemma drain_once: "get q = Some (x, q') \<Longrightarrow> length (contents q') < length (contents q)"
  by (auto dest: get_contents)

end

section \<open>MessageQueue\<close>

type_synonym 'a message_queue = "'a list"

definition mq_pushMessage :: "'a \<Rightarrow> 'a message_queue \<Rightarrow> 'a message_queue" where
  "mq_pushMessage msg q = q @ [msg]"

text \<open>\<open>waitForMessage\<close> waits until the queue is not empty and takes the front.\<close>

definition mq_waitForMessage :: "'a message_queue \<Rightarrow> ('a \<times> 'a message_queue) option" where
  "mq_waitForMessage q = (case q of [] \<Rightarrow> None | x # q' \<Rightarrow> Some (x, q'))"

text \<open>
  \<open>getMessage(T &msg)\<close> overwrites the caller's variable only when there is a message:
  it returns 0 on an empty queue and -1 when it delivered one.
\<close>

definition mq_getMessage :: "'a \<Rightarrow> 'a message_queue \<Rightarrow> c_int \<times> 'a \<times> 'a message_queue" where
  "mq_getMessage msg q = (case q of [] \<Rightarrow> (0, msg, q) | x # q' \<Rightarrow> (- 1, x, q'))"

interpretation mq: fifo_channel "\<lambda>x q. Some (mq_pushMessage x q)" mq_waitForMessage "\<lambda>q. q"
  by unfold_locales (auto simp: mq_pushMessage_def mq_waitForMessage_def split: list.splits)

lemma mq_getMessage_empty: "mq_getMessage msg [] = (0, msg, [])"
  by (simp add: mq_getMessage_def)

lemma mq_getMessage_front:
  "mq_waitForMessage q = Some (x, q') \<Longrightarrow> mq_getMessage msg q = (- 1, x, q')"
  by (auto simp: mq_getMessage_def mq_waitForMessage_def split: list.splits)

section \<open>BufferQueue\<close>

text \<open>
  The elements stand for the request pointers. \<open>mMaxDepth\<close> is an \<open>int\<close>
  initialised from the \<open>unsigned long\<close> template argument; the size checks compare
  a \<open>size_t\<close> with it, so the int is converted by sign extension.
\<close>

record 'a buffer_queue =
  consumerQueue :: "'a list"
  producerQueue :: "'a list"
  mMaxDepth :: c_int

definition bq_new :: "u64 \<Rightarrow> 'a buffer_queue" where
  "bq_new queueSize = \<lparr>consumerQueue = [], producerQueue = [], mMaxDepth = ucast queueSize\<rparr>"

definition bq_getQueueSize :: "'a buffer_queue \<Rightarrow> u32" where
  "bq_getQueueSize q = mMaxDepth q"

definition bq_depth :: "'a buffer_queue \<Rightarrow> u64" where
  "bq_depth q = scast (mMaxDepth q)"

definition isConsumerQueueFull :: "'a buffer_queue \<Rightarrow> bool" where
  "isConsumerQueueFull q \<longleftrightarrow> unat (bq_depth q) \<le> length (consumerQueue q)"

definition isConsumerQueueEmpty :: "'a buffer_queue \<Rightarrow> bool" where
  "isConsumerQueueEmpty q \<longleftrightarrow> length (consumerQueue q) = 0"

definition isProducerQueueFull :: "'a buffer_queue \<Rightarrow> bool" where
  "isProducerQueueFull q \<longleftrightarrow> unat (bq_depth q) \<le> length (producerQueue q)"

definition isProducerQueueEmpty :: "'a buffer_queue \<Rightarrow> bool" where
  "isProducerQueueEmpty q \<longleftrightarrow> length (producerQueue q) = 0"

definition bq_queue :: "'a \<Rightarrow> 'a buffer_queue \<Rightarrow> 'a buffer_queue option" where
  "bq_queue req q =
     (if isConsumerQueueFull q then None
      else Some (q\<lparr>consumerQueue := consumerQueue q @ [req]\<rparr>))"

definition bq_acquire :: "'a buffer_queue \<Rightarrow> ('a \<times> 'a buffer_queue) option" where
  "bq_acquire q =
     (if isProducerQueueEmpty q then None
      else Some (hd (producerQueue q), q\<lparr>producerQueue := tl (producerQueue q)\<rparr>))"

definition bq_consume :: "'a buffer_queue \<Rightarrow> ('a \<times> 'a buffer_queue) option" where
  "bq_consume q =
     (if isConsumerQueueEmpty q then None
      else Some (hd (consumerQueue q), q\<lparr>consumerQueue := tl (consumerQueue q)\<rparr>))"

text \<open>
  The timed \<open>consume\<close>: \<open>Inl\<close> is the return value false after the timeout (the
  caller's pointer is left alone), \<open>Inr\<close> the element taken.
\<close>

definition bq_consume_for ::
  "bool \<Rightarrow> 'a buffer_queue \<Rightarrow> (unit + 'a \<times> 'a buffer_queue) option" where
  "bq_consume_for timed_out q =
     (if \<not> isConsumerQueueEmpty q
      then Some (Inr (hd (consumerQueue q), q\<lparr>consumerQueue := tl (consumerQueue q)\<rparr>))
      else if timed_out then Some (Inl ()) else None)"

definition bq_release :: "'a \<Rightarrow> 'a buffer_queue \<Rightarrow> 'a buffer_queue option" where
  "bq_release req q =
     (if isProducerQueueFull q then None
      else Some (q\<lparr>producerQueue := producerQueue q @ [req]\<rparr>))"

definition bq_clear :: "'a buffer_queue \<Rightarrow> 'a buffer_queue" where
  "bq_clear q = q\<lparr>consumerQueue := [], producerQueue := []\<rparr>"

lemmas bq_empty_full =
  isConsumerQueueFull_def isConsumerQueueEmpty_def isProducerQueueFull_def isProducerQueueEmpty_def

interpretation cq: fifo_channel bq_queue bq_consume consumerQueue
  by unfold_locales
    (auto simp: bq_queue_def bq_consume_def bq_empty_full split: if_splits)

interpretation pq: fifo_channel bq_release bq_acquire producerQueue
  by unfold_locales
    (auto simp: bq_release_def bq_acquire_def bq_empty_full split: if_splits)

text \<open>The steps of the threads that share a queue, and the states they can reach.\<close>

inductive bq_step :: "'a buffer_queue \<Rightarrow> 'a buffer_queue \<Rightarrow> bool" where
  queue: "bq_queue req q = Some q' \<Longrightarrow> bq_step q q'"
| acquire: "bq_acquire q = Some (req, q') \<Longrightarrow> bq_step q q'"
| consume: "bq_consume q = Some (req, q') \<Longrightarrow> bq_step q q'"
| consume_for: "bq_consume_for timed_out q = Some (Inr (req, q')) \<Longrightarrow> bq_step q q'"
| release: "bq_release req q = Some q' \<Longrightarrow> bq_step q q'"
| clear: "bq_step q (bq_clear q)"

inductive bq_reachable :: "u64 \<Rightarrow> 'a buffer_queue \<Rightarrow> bool" where
  start: "bq_reachable n (bq_new n)"
| step: "bq_reachable n q \<Longrightarrow> bq_step q q' \<Longrightarrow> bq_reachable n q'"

lemmas bq_defs =
  bq_queue_def bq_acquire_def bq_consume_def bq_consume_for_def bq_release_def bq_clear_def
  bq_depth_def

lemma bq_step_depth: "bq_step q q' \<Longrightarrow> mMaxDepth q' = mMaxDepth q"
  by (induction rule: bq_step.induct) (auto simp: bq_defs split: if_splits)

definition bq_bounded :: "'a buffer_queue \<Rightarrow> bool" where
  "bq_bounded q \<longleftrightarrow>
     length (consumerQueue q) \<le> unat (bq_depth q) \<and> length (producerQueue q) \<le> unat (bq_depth q)"

lemma bq_step_bounded: "bq_step q q' \<Longrightarrow> bq_bounded q \<Longrightarrow> bq_bounded q'"
  by (induction rule: bq_step.induct)
    (auto simp: bq_bounded_def bq_defs bq_empty_full split: if_splits)

lemma bq_reachable_bounded: "bq_reachable n q \<Longrightarrow> bq_bounded q \<and> mMaxDepth q = ucast n"
proof (induction rule: bq_reachable.induct)
  case (start n)
  then show ?case by (simp add: bq_bounded_def bq_new_def)
next
  case (step n q q')
  then show ?case by (auto dest: bq_step_bounded bq_step_depth)
qed

section \<open>Properties\<close>

definition demo_queue :: "nat buffer_queue" where
  "demo_queue = \<lparr>consumerQueue = [7], producerQueue = [], mMaxDepth = 2\<rparr>"



text \<open>
  C37: requests come out of the consumer side in the order they were queued, none lost and
  none twice, over any run of blocking calls.
\<close>

theorem buffer_queue_fifo:
  assumes "chan_run bq_queue bq_consume ops q = Some (out, q')"
  shows "consumerQueue q @ chan_puts ops = out @ consumerQueue q'"
  by (rule cq.run_fifo [OF assms])

theorem buffer_queue_fifo_witness:
  "chan_puts [Get, Put 8, Put (9 :: nat), Get] = [8, 9] \<and>
   chan_run bq_queue bq_consume [Get, Put 8, Put 9, Get] demo_queue =
     Some ([7, 8], demo_queue\<lparr>consumerQueue := [9]\<rparr>) \<and>
   consumerQueue demo_queue @ [8, 9] = [7, 8] @ [9]"
proof -
  have run: "chan_run bq_queue bq_consume [Get, Put 8, Put 9, Get] demo_queue =
      Some ([7, 8], demo_queue\<lparr>consumerQueue := [9]\<rparr>)"
    by (simp add: demo_queue_def bq_consume_def bq_queue_def bq_empty_full bq_depth_def)
  from buffer_queue_fifo [OF run] run show ?thesis by simp
qed

text \<open>
  Released buffers come back to the producer in the same way.
\<close>

theorem buffer_queue_release_fifo:
  assumes "chan_run bq_release bq_acquire ops q = Some (out, q')"
  shows "producerQueue q @ chan_puts ops = out @ producerQueue q'"
  by (rule pq.run_fifo [OF assms])

theorem buffer_queue_release_fifo_witness:
  "chan_run bq_release bq_acquire [Put 8, Get] demo_queue = Some ([8], demo_queue) \<and>
   producerQueue demo_queue @ [8] = [8] @ producerQueue demo_queue"
proof -
  have run: "chan_run bq_release bq_acquire [Put 8, Get] demo_queue = Some ([8], demo_queue)"
    by (simp add: demo_queue_def bq_acquire_def bq_release_def bq_empty_full bq_depth_def)
  from buffer_queue_release_fifo [OF run] run show ?thesis by simp
qed

text \<open>
  A message queue delivers the messages pushed to it in order; polling an empty queue
  says so and leaves the caller's message untouched, polling another one delivers what a
  waiting receiver would have got.
\<close>

theorem message_queue_delivers:
  assumes "chan_run (\<lambda>x q. Some (mq_pushMessage x q)) mq_waitForMessage ops q = Some (out, q')"
  shows "q @ chan_puts ops = out @ q' \<and>
         mq_getMessage msg q' =
           (case mq_waitForMessage q' of None \<Rightarrow> (0, msg, q') | Some (x, r) \<Rightarrow> (- 1, x, r))"
  using mq.run_fifo [OF assms]
  by (auto simp: mq_getMessage_def mq_waitForMessage_def split: list.splits)

theorem message_queue_delivers_witness:
  "mq_getMessage (0 :: nat) [5] = (- 1, 5, [])"
proof -
  have "chan_run (\<lambda>x q. Some (mq_pushMessage x q)) mq_waitForMessage [Put 4, Get, Put 5] [] =
      Some ([4 :: nat], [5])"
    by (simp add: mq_pushMessage_def mq_waitForMessage_def)
  from message_queue_delivers [OF this, of 0] show ?thesis by (simp add: mq_waitForMessage_def)
qed

end
