(* ===== verification/Ring_Interface.thy ===== *)
theory Ring_Interface
  imports Stream_Config
begin

text \<open>
  Boost's circular buffer, which the buffer pool and its throttle are built on, is library
  code outside the repository. It is a parameter of the model: a record of the operations
  the code calls, with the documented behaviour of \<open>boost::circular_buffer\<close> as the
  assumptions of a locale. The theory also shows that the assumptions can hold, on bounded
  lists, and defines the checked element accesses that the component theories use.
\<close>

section \<open>The operations\<close>

record ('c, 'a) circ_ops =
  cb_new :: "u64 \<Rightarrow> 'c"
  cb_elems :: "'c \<Rightarrow> 'a list"
  cb_capacity :: "'c \<Rightarrow> u64"
  cb_size :: "'c \<Rightarrow> u64"
  cb_empty :: "'c \<Rightarrow> bool"
  cb_index :: "'c \<Rightarrow> u64 \<Rightarrow> 'a"
  cb_front :: "'c \<Rightarrow> 'a"
  cb_push_back :: "'a \<Rightarrow> 'c \<Rightarrow> 'c"
  cb_erase_end :: "u64 \<Rightarrow> 'c \<Rightarrow> 'c"
  cb_clear :: "'c \<Rightarrow> 'c"

text \<open>
  Three operations have a documented precondition: the subscript must be below the size,
  the front of an empty buffer does not exist, and no more elements may be erased than
  there are. The code calls them unchecked, so a violated precondition is a fault.
\<close>

definition ring_at :: "('c, 'a) circ_ops \<Rightarrow> 'c \<Rightarrow> u64 \<Rightarrow> 'a outcome" where
  "ring_at R c i = (if i < cb_size R c then Inr (cb_index R c i) else Inl RingIndexOutOfRange)"

definition ring_front :: "('c, 'a) circ_ops \<Rightarrow> 'c \<Rightarrow> 'a outcome" where
  "ring_front R c = (if cb_empty R c then Inl RingFrontOfEmpty else Inr (cb_front R c))"

definition ring_erase_end :: "('c, 'a) circ_ops \<Rightarrow> u64 \<Rightarrow> 'c \<Rightarrow> 'c outcome" where
  "ring_erase_end R n c =
     (if n \<le> cb_size R c then Inr (cb_erase_end R n c) else Inl RingEraseTooMany)"

section \<open>The documented behaviour\<close>

locale circular_buffer =
  fixes R :: "('c, 'a) circ_ops"
  assumes elems_new: "cb_elems R (cb_new R n) = []"
    and capacity_new: "cb_capacity R (cb_new R n) = n"
    and size_elems: "unat (cb_size R c) = length (cb_elems R c)"
    and elems_bounded: "length (cb_elems R c) \<le> unat (cb_capacity R c)"
    and empty_elems: "cb_empty R c \<longleftrightarrow> cb_elems R c = []"
    and index_elems: "unat i < length (cb_elems R c) \<Longrightarrow> cb_index R c i = cb_elems R c ! unat i"
    and front_elems: "cb_elems R c \<noteq> [] \<Longrightarrow> cb_front R c = hd (cb_elems R c)"
    and elems_push_back:
      "cb_elems R (cb_push_back R x c) =
         drop (length (cb_elems R c) + 1 - unat (cb_capacity R c)) (cb_elems R c @ [x])"
    and capacity_push_back: "cb_capacity R (cb_push_back R x c) = cb_capacity R c"
    and elems_erase_end:
      "unat n \<le> length (cb_elems R c) \<Longrightarrow>
         cb_elems R (cb_erase_end R n c) = take (length (cb_elems R c) - unat n) (cb_elems R c)"
    and capacity_erase_end:
      "unat n \<le> length (cb_elems R c) \<Longrightarrow> cb_capacity R (cb_erase_end R n c) = cb_capacity R c"
    and elems_clear: "cb_elems R (cb_clear R c) = []"
    and capacity_clear: "cb_capacity R (cb_clear R c) = cb_capacity R c"
begin

lemmas ring_simps [simp] =
  elems_new capacity_new size_elems empty_elems elems_push_back capacity_push_back
  elems_clear capacity_clear

lemma size_le_capacity: "cb_size R c \<le> cb_capacity R c"
  using elems_bounded [of c] by (simp add: word_le_nat_alt)

lemma less_size_iff: "i < cb_size R c \<longleftrightarrow> unat i < length (cb_elems R c)"
  by (simp add: word_less_nat_alt)

lemma le_size_iff: "i \<le> cb_size R c \<longleftrightarrow> unat i \<le> length (cb_elems R c)"
  by (simp add: word_le_nat_alt)

lemma size_zero_iff: "cb_size R c = 0 \<longleftrightarrow> cb_elems R c = []"
  by (metis length_0_conv size_elems unat_eq_zero)

lemma ring_at_in: "unat i < length (cb_elems R c) \<Longrightarrow> ring_at R c i = Inr (cb_elems R c ! unat i)"
  by (simp add: ring_at_def less_size_iff index_elems)

lemma ring_at_out:
  "length (cb_elems R c) \<le> unat i \<Longrightarrow> ring_at R c i = Inl RingIndexOutOfRange"
  by (simp add: ring_at_def less_size_iff)

lemma ring_front_in: "cb_elems R c \<noteq> [] \<Longrightarrow> ring_front R c = Inr (hd (cb_elems R c))"
  by (simp add: ring_front_def front_elems)

lemma ring_front_empty: "cb_elems R c = [] \<Longrightarrow> ring_front R c = Inl RingFrontOfEmpty"
  by (simp add: ring_front_def)

lemma ring_erase_end_in:
  "unat n \<le> length (cb_elems R c) \<Longrightarrow> ring_erase_end R n c = Inr (cb_erase_end R n c)"
  by (simp add: ring_erase_end_def le_size_iff)

text \<open>A push into a ring with room appends; into a full one it also drops the oldest.\<close>

lemma push_room:
  "length (cb_elems R c) < unat (cb_capacity R c) \<Longrightarrow>
     cb_elems R (cb_push_back R x c) = cb_elems R c @ [x]"
  by simp

lemma push_full:
  "length (cb_elems R c) = unat (cb_capacity R c) \<Longrightarrow>
     cb_elems R (cb_push_back R x c) = tl (cb_elems R c @ [x])"
  by (cases "cb_elems R c") simp_all

lemma length_push:
  "length (cb_elems R (cb_push_back R x c)) =
     min (length (cb_elems R c) + 1) (unat (cb_capacity R c))"
  using elems_bounded [of c] by simp

lemma push_suffix:
  assumes "suffix (cb_elems R c) s"
  shows "suffix (cb_elems R (cb_push_back R x c)) (s @ [x])"
proof -
  have "suffix (cb_elems R (cb_push_back R x c)) (cb_elems R c @ [x])"
    by (simp only: elems_push_back suffix_drop)
  moreover have "suffix (cb_elems R c @ [x]) (s @ [x])"
    using assms by (auto simp: suffix_def)
  ultimately show ?thesis by (rule suffix_order.trans)
qed

lemma push_nonempty:
  "0 < cb_capacity R c \<Longrightarrow> cb_elems R (cb_push_back R x c) \<noteq> []"
  using length_push [of x c] by (auto simp: word_less_nat_alt min_def split: if_splits)

end

section \<open>The documented behaviour is consistent: bounded lists\<close>

typedef 'a bounded_list = "{c :: u64 \<times> 'a list. length (snd c) \<le> unat (fst c)}"
  morphisms bl_rep Abs_bl
  by (rule exI [of _ "(0, [])"]) simp

lemma Abs_bl_rep [code abstype]: "Abs_bl (bl_rep c) = c"
  by (rule bl_rep_inverse)

definition bl_capacity :: "'a bounded_list \<Rightarrow> u64" where
  "bl_capacity c = fst (bl_rep c)"

definition bl_elems :: "'a bounded_list \<Rightarrow> 'a list" where
  "bl_elems c = snd (bl_rep c)"

definition bl_new :: "u64 \<Rightarrow> 'a bounded_list" where
  "bl_new n = Abs_bl (n, [])"

definition bl_push :: "'a \<Rightarrow> 'a bounded_list \<Rightarrow> 'a bounded_list" where
  "bl_push x c =
     Abs_bl (bl_capacity c, drop (length (bl_elems c) + 1 - unat (bl_capacity c)) (bl_elems c @ [x]))"

definition bl_erase_end :: "u64 \<Rightarrow> 'a bounded_list \<Rightarrow> 'a bounded_list" where
  "bl_erase_end n c = Abs_bl (bl_capacity c, take (length (bl_elems c) - unat n) (bl_elems c))"

definition bl_clear :: "'a bounded_list \<Rightarrow> 'a bounded_list" where
  "bl_clear c = Abs_bl (bl_capacity c, [])"

lemma bl_bounded: "length (bl_elems c) \<le> unat (bl_capacity c)"
  using bl_rep [of c] by (simp add: bl_elems_def bl_capacity_def)

lemma bl_new_rep [code abstract]: "bl_rep (bl_new n) = (n, [])"
  by (simp add: bl_new_def Abs_bl_inverse)

lemma bl_push_rep [code abstract]:
  "bl_rep (bl_push x c) =
     (bl_capacity c, drop (length (bl_elems c) + 1 - unat (bl_capacity c)) (bl_elems c @ [x]))"
  by (simp add: bl_push_def Abs_bl_inverse)

lemma bl_erase_end_rep [code abstract]:
  "bl_rep (bl_erase_end n c) =
     (bl_capacity c, take (length (bl_elems c) - unat n) (bl_elems c))"
  using bl_bounded [of c] by (simp add: bl_erase_end_def Abs_bl_inverse)

lemma bl_clear_rep [code abstract]: "bl_rep (bl_clear c) = (bl_capacity c, [])"
  by (simp add: bl_clear_def Abs_bl_inverse)

lemma bl_capacity_simps [simp]:
  "bl_capacity (bl_new n) = n"
  "bl_capacity (bl_push x c) = bl_capacity c"
  "bl_capacity (bl_erase_end n c) = bl_capacity c"
  "bl_capacity (bl_clear c) = bl_capacity c"
  by (simp_all add: bl_capacity_def [of "bl_new n"] bl_capacity_def [of "bl_push x c"]
    bl_capacity_def [of "bl_erase_end n c"] bl_capacity_def [of "bl_clear c"]
    bl_new_rep bl_push_rep bl_erase_end_rep bl_clear_rep)

lemma bl_elems_simps [simp]:
  "bl_elems (bl_new n) = []"
  "bl_elems (bl_push x c) =
     drop (length (bl_elems c) + 1 - unat (bl_capacity c)) (bl_elems c @ [x])"
  "bl_elems (bl_erase_end n c) = take (length (bl_elems c) - unat n) (bl_elems c)"
  "bl_elems (bl_clear c) = []"
  by (simp_all add: bl_elems_def [of "bl_new n"] bl_elems_def [of "bl_push x c"]
    bl_elems_def [of "bl_erase_end n c"] bl_elems_def [of "bl_clear c"]
    bl_new_rep bl_push_rep bl_erase_end_rep bl_clear_rep)

definition list_ring :: "('a bounded_list, 'a) circ_ops" where
  "list_ring =
     \<lparr>cb_new = bl_new, cb_elems = bl_elems, cb_capacity = bl_capacity,
      cb_size = (\<lambda>c. of_nat (length (bl_elems c))),
      cb_empty = (\<lambda>c. bl_elems c = []),
      cb_index = (\<lambda>c i. bl_elems c ! unat i),
      cb_front = (\<lambda>c. hd (bl_elems c)),
      cb_push_back = bl_push, cb_erase_end = bl_erase_end, cb_clear = bl_clear\<rparr>"

lemma bl_size: "unat (of_nat (length (bl_elems c)) :: u64) = length (bl_elems c)"
proof (rule unat_of_nat_u64)
  have "length (bl_elems c) \<le> unat (bl_capacity c)" by (rule bl_bounded)
  also have "unat (bl_capacity c) < 2 ^ 64" by simp
  finally show "length (bl_elems c) < 2 ^ 64" .
qed

interpretation lr: circular_buffer "list_ring :: ('a bounded_list, 'a) circ_ops"
  by unfold_locales (simp_all add: list_ring_def bl_size bl_bounded)

end
