(* ===== verification/Sync_Primitives.thy ===== *)
theory Sync_Primitives
  imports Stream_Config "HOL-Library.Signed_Division"
begin

text \<open>
  The small synchronisation and timing classes: \<open>ConditionVariableHelper\<close> and
  \<open>StopWatchTimer\<close>, which the throttle is built from. A mutex makes the code it
  guards one atomic step; a condition wait is a step that is enabled when its predicate
  holds and that otherwise leaves the thread where it is.
\<close>

section \<open>ConditionVariableHelper (include/streamfs/ConditionVariableHelper.h)\<close>

record cv_helper =
  mNotified :: bool

definition cv_helper_new :: cv_helper where
  "cv_helper_new = \<lparr>mNotified = False\<rparr>"

definition cv_notifyOne :: "cv_helper \<Rightarrow> cv_helper" where
  "cv_notifyOne h = h\<lparr>mNotified := True\<rparr>"

text \<open>
  One evaluation of \<open>wait(pred)\<close> by the waiting thread, \<open>pred\<close> being the value
  the predicate has at that moment: \<open>None\<close> when the thread goes on sleeping,
  \<open>Some h'\<close> when the wait returns. The overload without a predicate waits for the
  notification alone.
\<close>

definition cv_wait_pred :: "bool \<Rightarrow> cv_helper \<Rightarrow> cv_helper option" where
  "cv_wait_pred pred h = (if mNotified h \<or> pred then Some (h\<lparr>mNotified := False\<rparr>) else None)"

definition cv_wait :: "cv_helper \<Rightarrow> cv_helper option" where
  "cv_wait h = (if mNotified h then Some (h\<lparr>mNotified := False\<rparr>) else None)"

text \<open>
  One evaluation of \<open>wait_for\<close>: the timed wait returns the value of the predicate, at
  the latest when the time is over. The flag is cleared on every return.
\<close>

definition cv_wait_for :: "bool \<Rightarrow> bool \<Rightarrow> cv_helper \<Rightarrow> (bool \<times> cv_helper) option" where
  "cv_wait_for timed_out pred h =
     (if mNotified h \<or> pred then Some (True, h\<lparr>mNotified := False\<rparr>)
      else if timed_out then Some (False, h\<lparr>mNotified := False\<rparr>)
      else None)"

lemma cv_no_lost_wakeup: "cv_wait (cv_notifyOne h) = Some (h\<lparr>mNotified := False\<rparr>)"
  by (simp add: cv_wait_def cv_notifyOne_def)

lemma cv_wait_blocks_again: "cv_wait h = Some h' \<Longrightarrow> cv_wait h' = None"
  by (auto simp: cv_wait_def split: if_splits)

lemma cv_wait_for_returns: "cv_wait_for True pred h = Some (mNotified h \<or> pred, h\<lparr>mNotified := False\<rparr>)"
  by (auto simp: cv_wait_for_def)

section \<open>StopWatchTimer (include/streamfs/StopWatchTimer.h)\<close>

text \<open>
  The clock is an argument: \<open>now\<close> is the time point that
  \<open>high_resolution_clock::now()\<close> returns, in nanoseconds. \<open>duration_cast\<close>
  truncates towards zero, and the 64-bit count is cut down to \<open>uint32_t\<close>.
\<close>

record stopwatch =
  mResetTimer :: bool
  mLastTime :: int

definition stopwatch_new :: stopwatch where
  "stopwatch_new = \<lparr>mResetTimer = True, mLastTime = 0\<rparr>"

definition resetTimer :: "stopwatch \<Rightarrow> stopwatch" where
  "resetTimer w = w\<lparr>mResetTimer := True\<rparr>"

definition getLapTime :: "int \<Rightarrow> stopwatch \<Rightarrow> u32 \<times> stopwatch" where
  "getLapTime now w =
     (let lapTime = (if mResetTimer w then 0 else word_of_int ((now - mLastTime w) sdiv 1000))
      in (lapTime, w\<lparr>mResetTimer := False, mLastTime := now\<rparr>))"

lemma getLapTime_first: "mResetTimer w \<Longrightarrow> fst (getLapTime now w) = 0"
  by (simp add: getLapTime_def)

lemma getLapTime_next:
  assumes "mLastTime w \<le> now" and "(now - mLastTime w) div 1000 < 2 ^ 32" and "\<not> mResetTimer w"
  shows "uint (fst (getLapTime now w)) = (now - mLastTime w) div 1000"
proof -
  have "(now - mLastTime w) sdiv 1000 = (now - mLastTime w) div 1000"
    using assms(1) by (cases "now = mLastTime w") (simp_all add: signed_divide_int_def)
  then show ?thesis
    using assms by (simp add: getLapTime_def uint_word_of_int pos_imp_zdiv_nonneg_iff)
qed

end
