(* ===== verification/Throttle.thy ===== *)
theory Throttle
  imports Ring_Interface Sync_Primitives
begin

text \<open>
  \<open>BufferPoolThrottle\<close> (include/streamfs/BufferPoolThrottle.h,
  src/BufferPoolThrottle.cpp): the ring of chunk arrival periods, the reader's side
  (\<open>setReadPosition\<close>, \<open>wait\<close>), the producer's side
  (\<open>registerTimePeriod\<close>) and the throttle thread, whose loop is a state machine
  with one step per section of the code between two blocking or locking points.

  \<open>T\<close> is the circular buffer library at the element type \<open>uint32_t\<close>.
\<close>

section \<open>Constants and state\<close>

definition IDLE_LIMIT_COUNT :: u16 where
  "IDLE_LIMIT_COUNT = 100"

definition READ_AHEAD_COUNT :: u64 where
  "READ_AHEAD_COUNT = 30"

definition TIME_PERIOD_TRUNCATION_THRESHOLD_US :: u32 where
  "TIME_PERIOD_TRUNCATION_THRESHOLD_US = 500"

definition LIVE_POSITION_THRESHOLD_INDEX :: u64 where
  "LIVE_POSITION_THRESHOLD_INDEX = 10"

lemmas throttle_constants =
  IDLE_LIMIT_COUNT_def READ_AHEAD_COUNT_def TIME_PERIOD_TRUNCATION_THRESHOLD_US_def
  LIVE_POSITION_THRESHOLD_INDEX_def

text \<open>Where the throttle thread is: the sections of \<open>throttleLoop\<close>.\<close>

datatype loop_pc =
    LoopTop
  | LoopAwaitStart
  | LoopHead
  | LoopNoData
  | LoopSleep u32
  | LoopAccount
  | LoopExited

record 't throttle =
  mTimePeriodBuffer :: 't
  mStopWatchTimer :: stopwatch
  mIdleCount :: u16
  mLastPosIdle :: u64
  mPos :: u64
  mLastPos :: u64
  mEnableThrottling :: bool
  mExitRequested :: bool
  mThrottleRunning :: bool
  mThrottleIndex :: u64
  mReadAheadCount :: u64
  mCvStartThrottle :: cv_helper
  mCvThrottleChanged :: cv_helper
  mCvTimePeriodRegistered :: cv_helper
  loopPc :: loop_pc

definition throttle_new :: "('t, u32) circ_ops \<Rightarrow> u64 \<Rightarrow> 't throttle" where
  "throttle_new T preAllocBufSize =
     \<lparr>mTimePeriodBuffer = cb_new T preAllocBufSize,
      mStopWatchTimer = stopwatch_new,
      mIdleCount = 0, mLastPosIdle = 0, mPos = 0, mLastPos = 0,
      mEnableThrottling = True, mExitRequested = False, mThrottleRunning = False,
      mThrottleIndex = 0, mReadAheadCount = 0,
      mCvStartThrottle = cv_helper_new, mCvThrottleChanged = cv_helper_new,
      mCvTimePeriodRegistered = cv_helper_new, loopPc = LoopTop\<rparr>"

text \<open>The destructor, up to the join of the throttle thread.\<close>

definition throttle_destroy :: "'t throttle \<Rightarrow> 't throttle" where
  "throttle_destroy t =
     t\<lparr>mExitRequested := True, mThrottleRunning := False,
       mCvTimePeriodRegistered := cv_notifyOne (mCvTimePeriodRegistered t),
       mCvStartThrottle := cv_notifyOne (mCvStartThrottle t),
       mCvThrottleChanged := cv_notifyOne (mCvThrottleChanged t)\<rparr>"

section \<open>The producer's side\<close>

definition truncate_period :: "u32 \<Rightarrow> u32" where
  "truncate_period time =
     (if time < TIME_PERIOD_TRUNCATION_THRESHOLD_US then 0
      else time - TIME_PERIOD_TRUNCATION_THRESHOLD_US)"

definition registerTimePeriod ::
  "('t, u32) circ_ops \<Rightarrow> int \<Rightarrow> 't throttle \<Rightarrow> 't throttle" where
  "registerTimePeriod T now t =
     (let (lap, w) = getLapTime now (mStopWatchTimer t);
          time = truncate_period lap;
          buf = mTimePeriodBuffer t;
          t1 = t\<lparr>mStopWatchTimer := w\<rparr>;
          t2 = (if cb_size T buf = cb_capacity T buf
                then t1\<lparr>mThrottleIndex :=
                          (if 0 < mThrottleIndex t then mThrottleIndex t - 1 else mThrottleIndex t),
                        mPos := (if 0 < mPos t then mPos t - 1 else mPos t)\<rparr>
                else t1)
      in t2\<lparr>mTimePeriodBuffer := cb_push_back T time buf,
            mCvTimePeriodRegistered := cv_notifyOne (mCvTimePeriodRegistered t)\<rparr>)"

section \<open>The reader's side\<close>

definition setReadPosition :: "u64 \<Rightarrow> 't throttle \<Rightarrow> 't throttle" where
  "setReadPosition pos t = t\<lparr>mPos := pos\<rparr>"

text \<open>
  \<open>abs(mPos - mLastPos)\<close>: the unsigned 64-bit difference is converted to the
  \<open>int\<close> argument of \<open>abs\<close>.
\<close>

definition abs_int :: "c_int \<Rightarrow> c_int" where
  "abs_int x = (if x <s 0 then - x else x)"

definition position_jumped :: "'t throttle \<Rightarrow> bool" where
  "position_jumped t \<longleftrightarrow> 10 <s abs_int (ucast (mPos t - mLastPos t))"

text \<open>The condition of the reader's while loop, negated by the wait predicate.\<close>

definition wait_blocked :: "'t throttle \<Rightarrow> bool" where
  "wait_blocked t \<longleftrightarrow> mThrottleIndex t \<le> mPos t \<and> mThrottleRunning t"

text \<open>
  \<open>wait\<close> up to its while loop. The flag says whether the call goes into the loop;
  otherwise it has returned and the state is the final one.
\<close>

definition wait_enter :: "('t, u32) circ_ops \<Rightarrow> 't throttle \<Rightarrow> bool \<times> 't throttle" where
  "wait_enter T t =
     (if \<not> mEnableThrottling t \<or>
         cb_size T (mTimePeriodBuffer t) - mPos t \<le> LIVE_POSITION_THRESHOLD_INDEX
      then (False, t\<lparr>mLastPos := mPos t, mThrottleRunning := False\<rparr>)
      else
        let t1 = (if mReadAheadCount t < READ_AHEAD_COUNT
                  then t\<lparr>mReadAheadCount := mReadAheadCount t + 1\<rparr> else t)
        in if READ_AHEAD_COUNT < mReadAheadCount t1
           then let t2 = (if \<not> mThrottleRunning t1
                          then t1\<lparr>mThrottleIndex := mPos t1, mThrottleRunning := True,
                                  mCvStartThrottle := cv_notifyOne (mCvStartThrottle t1)\<rparr>
                          else if position_jumped t1
                          then t1\<lparr>mReadAheadCount := 0, mThrottleIndex := mPos t1\<rparr>
                          else t1)
                in if wait_blocked t2 then (True, t2)
                   else (False, t2\<lparr>mLastPos := mPos t2\<rparr>)
           else if mReadAheadCount t1 = READ_AHEAD_COUNT
           then (False, t1\<lparr>mReadAheadCount := mReadAheadCount t1 + 1,
                           mThrottleIndex := mPos t1, mLastPos := mPos t1\<rparr>)
           else (False, t1\<lparr>mLastPos := mPos t1\<rparr>))"

text \<open>
  One evaluation by the reader inside the while loop: it leaves the loop when the condition
  is false, otherwise it waits, and a pending notification is consumed by the wait. The
  flag says whether the call has returned.
\<close>

definition wait_poll :: "'t throttle \<Rightarrow> bool \<times> 't throttle" where
  "wait_poll t =
     (if \<not> wait_blocked t then (True, t\<lparr>mLastPos := mPos t\<rparr>)
      else case cv_wait_pred (mPos t < mThrottleIndex t \<or> \<not> mThrottleRunning t)
                  (mCvThrottleChanged t) of
             None \<Rightarrow> (False, t)
           | Some h \<Rightarrow> (False, t\<lparr>mCvThrottleChanged := h\<rparr>))"

definition throttle_clear :: "('t, u32) circ_ops \<Rightarrow> 't throttle \<Rightarrow> 't throttle" where
  "throttle_clear T t =
     t\<lparr>mTimePeriodBuffer := cb_clear T (mTimePeriodBuffer t),
       mStopWatchTimer := resetTimer (mStopWatchTimer t),
       mReadAheadCount := 0, mThrottleIndex := 0, mPos := 0, mLastPos := 0,
       mThrottleRunning := False\<rparr>"

definition throttle_clearToLastRead ::
  "('t, u32) circ_ops \<Rightarrow> 't throttle \<Rightarrow> 't throttle outcome" where
  "throttle_clearToLastRead T t =
     (if cb_empty T (mTimePeriodBuffer t) then Inr t
      else
        let numElements = cb_size T (mTimePeriodBuffer t)
        in andthen
             (if mLastPos t < numElements
              then ring_erase_end T (numElements - mLastPos t - 1) (mTimePeriodBuffer t)
              else Inr (mTimePeriodBuffer t))
             (\<lambda>buf. Inr (t\<lparr>mTimePeriodBuffer := buf,
                           mStopWatchTimer := resetTimer (mStopWatchTimer t),
                           mReadAheadCount := 0, mThrottleIndex := 0,
                           mThrottleRunning := False\<rparr>)))"

definition enableThrottling :: "bool \<Rightarrow> 't throttle \<Rightarrow> 't throttle" where
  "enableThrottling enable t = t\<lparr>mEnableThrottling := enable\<rparr>"

section \<open>The throttle thread\<close>

text \<open>
  One step of \<open>throttleLoop\<close>. \<open>timed_out\<close> says whether the time of the timed
  wait is over when the step looks at it. The sleep of a \<open>LoopSleep\<close> step lasts the
  period it carries; the rest of that section runs when the sleep is over.
\<close>

definition stop_throttle :: "'t throttle \<Rightarrow> 't throttle" where
  "stop_throttle t =
     t\<lparr>mThrottleRunning := False, mCvThrottleChanged := cv_notifyOne (mCvThrottleChanged t)\<rparr>"

definition loop_step :: "('t, u32) circ_ops \<Rightarrow> bool \<Rightarrow> 't throttle \<Rightarrow> 't throttle" where
  "loop_step T timed_out t =
     (case loopPc t of
        LoopTop \<Rightarrow>
          (if mExitRequested t then t\<lparr>loopPc := LoopExited\<rparr>
           else t\<lparr>mIdleCount := 0,
                  loopPc := (if \<not> mThrottleRunning t then LoopAwaitStart else LoopHead)\<rparr>)
      | LoopAwaitStart \<Rightarrow>
          (case cv_wait_pred (mExitRequested t) (mCvStartThrottle t) of
             None \<Rightarrow> t
           | Some h \<Rightarrow> t\<lparr>mCvStartThrottle := h, loopPc := LoopHead\<rparr>)
      | LoopHead \<Rightarrow>
          (if \<not> (mThrottleRunning t \<and> \<not> mExitRequested t) then t\<lparr>loopPc := LoopTop\<rparr>
           else if mThrottleIndex t < cb_size T (mTimePeriodBuffer t)
           then t\<lparr>loopPc := LoopSleep (cb_index T (mTimePeriodBuffer t) (mThrottleIndex t))\<rparr>
           else t\<lparr>loopPc := LoopNoData\<rparr>)
      | LoopNoData \<Rightarrow>
          (case cv_wait_for timed_out (mThrottleIndex t < cb_size T (mTimePeriodBuffer t))
                  (mCvTimePeriodRegistered t) of
             None \<Rightarrow> t
           | Some (status, h) \<Rightarrow>
               (let t1 = t\<lparr>mCvTimePeriodRegistered := h, loopPc := LoopAccount\<rparr>
                in if \<not> status then stop_throttle t1 else t1))
      | LoopSleep time \<Rightarrow>
          t\<lparr>mThrottleIndex := mThrottleIndex t + 1,
            mCvThrottleChanged := cv_notifyOne (mCvThrottleChanged t),
            mIdleCount := (if mLastPos t = mLastPosIdle t then mIdleCount t + 1 else 0),
            loopPc := LoopAccount\<rparr>
      | LoopAccount \<Rightarrow>
          (let t1 = t\<lparr>mLastPosIdle := mLastPos t, loopPc := LoopHead\<rparr>
           in if IDLE_LIMIT_COUNT < mIdleCount t then stop_throttle t1 else t1)
      | LoopExited \<Rightarrow> t)"

text \<open>Steps in a row, and the time the thread sleeps in them (microseconds).\<close>

fun loop_steps :: "('t, u32) circ_ops \<Rightarrow> nat \<Rightarrow> 't throttle \<Rightarrow> 't throttle" where
  "loop_steps T 0 t = t"
| "loop_steps T (Suc n) t = loop_steps T n (loop_step T True t)"

fun sleep_time :: "loop_pc \<Rightarrow> nat" where
  "sleep_time (LoopSleep d) = unat d"
| "sleep_time _ = 0"

fun loop_slept :: "('t, u32) circ_ops \<Rightarrow> nat \<Rightarrow> 't throttle \<Rightarrow> nat" where
  "loop_slept T 0 t = 0"
| "loop_slept T (Suc n) t = sleep_time (loopPc t) + loop_slept T n (loop_step T True t)"

section \<open>Facts that need no library law\<close>

text \<open>
  The throttle thread can only sleep through a start request that it will still see: when
  throttling runs while the thread waits to be started, the notification is pending.
\<close>

definition start_signalled :: "'t throttle \<Rightarrow> bool" where
  "start_signalled t \<longleftrightarrow>
     (mThrottleRunning t \<and> loopPc t = LoopAwaitStart \<longrightarrow> mNotified (mCvStartThrottle t))"

lemma start_signalled_new: "start_signalled (throttle_new T n)"
  by (simp add: start_signalled_def throttle_new_def)

lemma start_signalled_register: "start_signalled (registerTimePeriod T now t) = start_signalled t"
  by (simp add: start_signalled_def registerTimePeriod_def Let_def case_prod_beta)

lemma start_signalled_set: "start_signalled (setReadPosition pos t) = start_signalled t"
  by (simp add: start_signalled_def setReadPosition_def)

lemma start_signalled_enter: "start_signalled t \<Longrightarrow> start_signalled (snd (wait_enter T t))"
  by (auto simp: start_signalled_def wait_enter_def cv_notifyOne_def Let_def)

lemma start_signalled_poll: "start_signalled t \<Longrightarrow> start_signalled (snd (wait_poll t))"
  by (auto simp: start_signalled_def wait_poll_def split: option.splits)

lemma start_signalled_clear: "start_signalled (throttle_clear T t)"
  by (simp add: start_signalled_def throttle_clear_def)

lemma start_signalled_clearToLastRead:
  "start_signalled t \<Longrightarrow> throttle_clearToLastRead T t = Inr t' \<Longrightarrow> start_signalled t'"
  by (auto simp: start_signalled_def throttle_clearToLastRead_def Let_def andthen_Inr_iff
      split: if_splits)

lemma start_signalled_enable: "start_signalled (enableThrottling b t) = start_signalled t"
  by (simp add: start_signalled_def enableThrottling_def)

lemma start_signalled_loop: "start_signalled t \<Longrightarrow> start_signalled (loop_step T b t)"
  by (auto simp: start_signalled_def loop_step_def stop_throttle_def Let_def cv_wait_pred_def
      split: loop_pc.splits option.splits if_splits)

lemma start_signalled_destroy: "start_signalled (throttle_destroy t)"
  by (simp add: start_signalled_def throttle_destroy_def)

lemmas start_signalled_intros =
  start_signalled_enter start_signalled_poll start_signalled_clear
  start_signalled_clearToLastRead start_signalled_loop start_signalled_destroy

text \<open>The reader and the throttle thread never touch the ring of periods.\<close>

lemma wait_enter_buffer [simp]: "mTimePeriodBuffer (snd (wait_enter T t)) = mTimePeriodBuffer t"
  by (simp add: wait_enter_def Let_def)

lemma wait_poll_buffer [simp]: "mTimePeriodBuffer (snd (wait_poll t)) = mTimePeriodBuffer t"
  by (simp add: wait_poll_def split: option.splits)

lemma loop_step_buffer [simp]: "mTimePeriodBuffer (loop_step T b t) = mTimePeriodBuffer t"
  by (simp add: loop_step_def stop_throttle_def Let_def split: loop_pc.splits option.splits)

lemma loop_steps_buffer [simp]: "mTimePeriodBuffer (loop_steps T n t) = mTimePeriodBuffer t"
  by (induction n arbitrary: t) simp_all

lemma loop_step_positions [simp]:
  "mPos (loop_step T b t) = mPos t" "mLastPos (loop_step T b t) = mLastPos t"
  "mReadAheadCount (loop_step T b t) = mReadAheadCount t"
  "mEnableThrottling (loop_step T b t) = mEnableThrottling t"
  "mExitRequested (loop_step T b t) = mExitRequested t"
  by (simp_all add: loop_step_def stop_throttle_def Let_def split: loop_pc.splits option.splits)

text \<open>A wait that returns leaves the last position equal to the current one.\<close>

lemma wait_enter_lastPos: "\<not> fst (wait_enter T t) \<Longrightarrow> mLastPos (snd (wait_enter T t)) = mPos t"
  by (auto simp: wait_enter_def Let_def split: if_splits)

lemma wait_enter_pos [simp]: "mPos (snd (wait_enter T t)) = mPos t"
  by (simp add: wait_enter_def Let_def)

lemma wait_poll_lastPos: "fst (wait_poll t) \<Longrightarrow> mLastPos (snd (wait_poll t)) = mPos t"
  by (simp add: wait_poll_def split: option.splits if_splits)

lemma wait_poll_pos [simp]: "mPos (snd (wait_poll t)) = mPos t"
  by (simp add: wait_poll_def split: option.splits)

lemma wait_enter_blocked: "fst (wait_enter T t) \<Longrightarrow> wait_blocked (snd (wait_enter T t))"
  by (auto simp: wait_enter_def Let_def split: if_splits)

lemma wait_poll_iff: "fst (wait_poll t) \<longleftrightarrow> \<not> wait_blocked t"
  by (simp add: wait_poll_def split: option.splits)

subsection \<open>Read-ahead and the live window\<close>

lemma wait_read_ahead:
  assumes "mReadAheadCount t < READ_AHEAD_COUNT"
  shows "\<not> fst (wait_enter T t)"
proof -
  have "\<not> READ_AHEAD_COUNT < mReadAheadCount t + 1"
    using assms by (simp add: READ_AHEAD_COUNT_def word_less_nat_alt unat_word_ariths)
  with assms show ?thesis by (simp add: wait_enter_def Let_def)
qed

lemma wait_read_ahead_count:
  assumes "unat (mReadAheadCount t) + 1 < 30"
  shows "unat (mReadAheadCount (snd (wait_enter T t))) \<le> unat (mReadAheadCount t) + 1"
proof -
  have "mReadAheadCount t < READ_AHEAD_COUNT" "unat (mReadAheadCount t + 1) = unat (mReadAheadCount t) + 1"
    using assms by (simp_all add: READ_AHEAD_COUNT_def word_less_nat_alt unat_word_ariths)
  moreover from this assms have "mReadAheadCount t + 1 < READ_AHEAD_COUNT"
    by (simp add: READ_AHEAD_COUNT_def word_less_nat_alt)
  ultimately show ?thesis
    by (auto simp: wait_enter_def Let_def)
qed

text \<open>
  A reader that sets a position and waits, again and again, with nothing in between: the
  flags of the calls, and the state after them.
\<close>

fun reader_calls :: "('t, u32) circ_ops \<Rightarrow> u64 list \<Rightarrow> 't throttle \<Rightarrow> bool list \<times> 't throttle" where
  "reader_calls T [] t = ([], t)"
| "reader_calls T (pos # ps) t =
     (let (b, t1) = wait_enter T (setReadPosition pos t);
          (bs, t2) = reader_calls T ps t1
      in (b # bs, t2))"

lemma reader_calls_read_ahead:
  assumes "unat (mReadAheadCount t) + length ps \<le> 30"
  shows "fst (reader_calls T ps t) = replicate (length ps) False"
  using assms
proof (induction ps arbitrary: t)
  case Nil
  then show ?case by simp
next
  case (Cons pos ps)
  let ?t = "setReadPosition pos t"
  have count: "mReadAheadCount ?t = mReadAheadCount t" by (simp add: setReadPosition_def)
  with Cons.prems have "mReadAheadCount ?t < READ_AHEAD_COUNT"
    by (simp add: READ_AHEAD_COUNT_def word_less_nat_alt)
  then have free: "\<not> fst (wait_enter T ?t)" by (rule wait_read_ahead)
  have "fst (reader_calls T ps (snd (wait_enter T ?t))) = replicate (length ps) False"
  proof (cases "ps = []")
    case True
    then show ?thesis by simp
  next
    case False
    with Cons.prems have "unat (mReadAheadCount ?t) + 1 < 30"
      by (cases ps) (simp_all add: count)
    from wait_read_ahead_count [OF this, of T] Cons.prems show ?thesis
      by (intro Cons.IH) (simp add: count)
  qed
  with free show ?case by (simp add: case_prod_beta Let_def)
qed

subsection \<open>Runs of the throttle\<close>

text \<open>Every call that the pool, the reader and the throttle thread make on it.\<close>

datatype throttle_event =
    Register int
  | SetPosition u64
  | Enter
  | Poll
  | ClearThrottle
  | ClearThrottleToLastRead
  | Enable bool
  | ThreadStep bool
  | DestroyThrottle

fun throttle_do ::
  "('t, u32) circ_ops \<Rightarrow> throttle_event \<Rightarrow> 't throttle \<Rightarrow> 't throttle outcome" where
  "throttle_do T (Register now) t = Inr (registerTimePeriod T now t)"
| "throttle_do T (SetPosition pos) t = Inr (setReadPosition pos t)"
| "throttle_do T Enter t = Inr (snd (wait_enter T t))"
| "throttle_do T Poll t = Inr (snd (wait_poll t))"
| "throttle_do T ClearThrottle t = Inr (throttle_clear T t)"
| "throttle_do T ClearThrottleToLastRead t = throttle_clearToLastRead T t"
| "throttle_do T (Enable b) t = Inr (enableThrottling b t)"
| "throttle_do T (ThreadStep timed_out) t = Inr (loop_step T timed_out t)"
| "throttle_do T DestroyThrottle t = Inr (throttle_destroy t)"

inductive throttle_reachable :: "('t, u32) circ_ops \<Rightarrow> u64 \<Rightarrow> 't throttle \<Rightarrow> bool"
  for T n where
  new: "throttle_reachable T n (throttle_new T n)"
| event: "throttle_reachable T n t \<Longrightarrow> throttle_do T e t = Inr t' \<Longrightarrow> throttle_reachable T n t'"

lemma start_signalled_do: "start_signalled t \<Longrightarrow> throttle_do T e t = Inr t' \<Longrightarrow> start_signalled t'"
  by (cases e) (auto intro: start_signalled_intros
      simp: start_signalled_register start_signalled_set start_signalled_enable)

lemma start_signalled_reachable: "throttle_reachable T n t \<Longrightarrow> start_signalled t"
  by (induction rule: throttle_reachable.induct) (auto intro: start_signalled_new start_signalled_do)

end
