(* ===== verification/Throttle_Progress.thy ===== *)
theory Throttle_Progress
  imports Throttle
begin

text \<open>
  What the throttle promises its two users. For the producer: one period is recorded per
  chunk, in step with the pool's own ring. For the reader: a blocked \<open>wait\<close> is
  released, and it is released after exactly the recorded time.
\<close>

section \<open>A throttle thread that runs\<close>

definition thread_running :: "'t throttle \<Rightarrow> bool" where
  "thread_running t \<longleftrightarrow> start_signalled t \<and> \<not> mExitRequested t \<and> loopPc t \<noteq> LoopExited"

definition thread_live :: "'t throttle \<Rightarrow> bool" where
  "thread_live t \<longleftrightarrow> thread_running t \<and> mPos t + 1 \<noteq> 0"

lemma thread_running_new: "thread_running (throttle_new T n)"
  by (simp add: thread_running_def start_signalled_new) (simp add: throttle_new_def)

section \<open>The ring of periods\<close>

locale time_ring = circular_buffer T for T :: "('t, u32) circ_ops"
begin

abbreviation periods :: "'t throttle \<Rightarrow> u32 list" where
  "periods t \<equiv> cb_elems T (mTimePeriodBuffer t)"

abbreviation period_cap :: "'t throttle \<Rightarrow> u64" where
  "period_cap t \<equiv> cb_capacity T (mTimePeriodBuffer t)"

lemma throttle_new_periods [simp]:
  "periods (throttle_new T n) = []" "period_cap (throttle_new T n) = n"
  by (simp_all add: throttle_new_def)

lemma register_buffer:
  "mTimePeriodBuffer (registerTimePeriod T now t) =
     cb_push_back T (truncate_period (fst (getLapTime now (mStopWatchTimer t)))) (mTimePeriodBuffer t)"
  by (simp add: registerTimePeriod_def Let_def case_prod_beta)

lemma register_length:
  "length (periods (registerTimePeriod T now t)) = min (length (periods t) + 1) (unat (period_cap t))"
  by (simp only: register_buffer length_push)

lemma register_cap [simp]: "period_cap (registerTimePeriod T now t) = period_cap t"
  by (simp add: register_buffer)

lemma register_lastPos [simp]: "mLastPos (registerTimePeriod T now t) = mLastPos t"
  by (simp add: registerTimePeriod_def Let_def case_prod_beta)

lemma clear_periods [simp]:
  "periods (throttle_clear T t) = []" "period_cap (throttle_clear T t) = period_cap t"
  "mLastPos (throttle_clear T t) = 0"
  by (simp_all add: throttle_clear_def)

text \<open>
  \<open>clearToLastRead\<close> never erases too much: it keeps the periods up to the last read
  position, or all of them when that position is outside the ring.
\<close>

definition reset_pacing :: "'t \<Rightarrow> 't throttle \<Rightarrow> 't throttle" where
  "reset_pacing buf t =
     t\<lparr>mTimePeriodBuffer := buf, mStopWatchTimer := resetTimer (mStopWatchTimer t),
       mReadAheadCount := 0, mThrottleIndex := 0, mThrottleRunning := False\<rparr>"

lemma clearToLastRead_erases:
  assumes "unat (mLastPos t) < length (periods t)"
  shows "\<exists>buf. throttle_clearToLastRead T t = Inr (reset_pacing buf t) \<and>
           cb_elems T buf = take (unat (mLastPos t) + 1) (periods t) \<and>
           cb_capacity T buf = period_cap t"
proof -
  let ?n = "cb_size T (mTimePeriodBuffer t)" and ?buf = "cb_erase_end T (cb_size T (mTimePeriodBuffer t) - mLastPos t - 1) (mTimePeriodBuffer t)"
  have lt: "mLastPos t < ?n" and ne: "\<not> cb_empty T (mTimePeriodBuffer t)"
    using assms by (auto simp only: less_size_iff empty_elems list.size)
  have n: "unat (?n - mLastPos t - 1) = length (periods t) - unat (mLastPos t) - 1"
    using lt by (simp only: unat_sub_sub_one size_elems)
  then have e: "unat (?n - mLastPos t - 1) \<le> length (periods t)" by linarith
  have "length (periods t) - unat (?n - mLastPos t - 1) = unat (mLastPos t) + 1"
    using n assms by linarith
  with elems_erase_end [OF e] have "cb_elems T ?buf = take (unat (mLastPos t) + 1) (periods t)"
    by (simp only:)
  moreover have "throttle_clearToLastRead T t = Inr (reset_pacing ?buf t)"
    by (simp only: throttle_clearToLastRead_def Let_def lt ne if_True if_False
        ring_erase_end_in [OF e] andthen.simps reset_pacing_def)
  ultimately show ?thesis using capacity_erase_end [OF e] by blast
qed

lemma clearToLastRead_keeps:
  assumes "length (periods t) \<le> unat (mLastPos t)" and "periods t \<noteq> []"
  shows "throttle_clearToLastRead T t = Inr (reset_pacing (mTimePeriodBuffer t) t)"
  using assms by (simp add: throttle_clearToLastRead_def Let_def less_size_iff reset_pacing_def)

lemma clearToLastRead_empty: "periods t = [] \<Longrightarrow> throttle_clearToLastRead T t = Inr t"
  by (simp add: throttle_clearToLastRead_def)

lemma clearToLastRead_length:
  assumes "throttle_clearToLastRead T t = Inr t'"
  shows "length (periods t') = min (length (periods t)) (unat (mLastPos t) + 1)"
    and "period_cap t' = period_cap t" and "mLastPos t' = mLastPos t"
proof -
  consider "unat (mLastPos t) < length (periods t)" | "periods t = []"
    | "length (periods t) \<le> unat (mLastPos t)" "periods t \<noteq> []" by linarith
  then have "length (periods t') = min (length (periods t)) (unat (mLastPos t) + 1) \<and>
      period_cap t' = period_cap t \<and> mLastPos t' = mLastPos t"
  proof cases
    case 1
    from clearToLastRead_erases [OF 1] assms 1 show ?thesis by (auto simp: reset_pacing_def)
  next
    case 2
    with clearToLastRead_empty [OF 2] assms show ?thesis by simp
  next
    case 3
    with clearToLastRead_keeps [OF 3] assms show ?thesis by (auto simp: reset_pacing_def)
  qed
  then show "length (periods t') = min (length (periods t)) (unat (mLastPos t) + 1)"
    and "period_cap t' = period_cap t" and "mLastPos t' = mLastPos t" by simp_all
qed

lemma clearToLastRead_total: "\<exists>t'. throttle_clearToLastRead T t = Inr t'"
  by (metis clearToLastRead_erases clearToLastRead_keeps clearToLastRead_empty not_le)

section \<open>Release of a blocked reader\<close>

text \<open>
  How many more steps the throttle thread can take before the reader is released: three
  per position still to pass, three for a notification it may still consume, and the rest
  of the round it is in.
\<close>

definition pc_rank :: "'t throttle \<Rightarrow> nat" where
  "pc_rank t =
     (case loopPc t of
        LoopTop \<Rightarrow> 3 | LoopAwaitStart \<Rightarrow> 3 | LoopHead \<Rightarrow> 2
      | LoopNoData \<Rightarrow> (if mThrottleIndex t < cb_size T (mTimePeriodBuffer t) then 4 else 1)
      | LoopSleep _ \<Rightarrow> 1 | LoopAccount \<Rightarrow> 3 | LoopExited \<Rightarrow> 0)"

definition release_rank :: "'t throttle \<Rightarrow> nat" where
  "release_rank t =
     3 * (unat (mPos t) + 1 - unat (mThrottleIndex t)) +
     (if mNotified (mCvTimePeriodRegistered t) then 3 else 0) + pc_rank t"

lemma thread_live_enter:
  assumes "thread_running t" and "mPos t + 1 \<noteq> 0"
  shows "thread_live (snd (wait_enter T t))"
  using assms start_signalled_enter [of t T]
  by (auto simp: thread_live_def thread_running_def wait_enter_def Let_def)

lemma index_step:
  assumes "mThrottleIndex t \<le> mPos t" and "mPos t + 1 \<noteq> 0"
  shows "unat (mThrottleIndex t + 1) = unat (mThrottleIndex t) + 1"
proof -
  have "unat (mPos t) + 1 \<noteq> 18446744073709551616"
    using assms(2) by (auto simp: unat_eq_zero [symmetric] unat_word_ariths)
  then have "unat (mThrottleIndex t) + 1 < 18446744073709551616"
    using assms(1) unat_less_u64 [of "mPos t"] unfolding word_le_nat_alt by linarith
  then show ?thesis by (simp add: unat_word_ariths)
qed

lemma thread_live_step: "thread_live t \<Longrightarrow> thread_live (loop_step T True t)"
  by (auto simp: thread_live_def thread_running_def start_signalled_loop)
    (auto simp: loop_step_def stop_throttle_def Let_def split: loop_pc.splits option.splits if_splits)

text \<open>A step of the thread either releases the reader and notifies it, or it makes progress.\<close>

lemma release_step:
  assumes live: "thread_live t" and blocked: "wait_blocked t"
  shows "\<not> wait_blocked (loop_step T True t) \<and> mNotified (mCvThrottleChanged (loop_step T True t))
    \<or> wait_blocked (loop_step T True t) \<and> release_rank (loop_step T True t) < release_rank t"
proof (cases "loopPc t")
  case LoopTop
  with assms show ?thesis
    by (simp add: loop_step_def thread_live_def thread_running_def wait_blocked_def release_rank_def pc_rank_def)
next
  case LoopAwaitStart
  with assms show ?thesis
    by (simp add: loop_step_def thread_live_def thread_running_def start_signalled_def wait_blocked_def
        release_rank_def pc_rank_def cv_wait_pred_def)
next
  case LoopHead
  with assms show ?thesis
    by (simp add: loop_step_def thread_live_def thread_running_def wait_blocked_def release_rank_def pc_rank_def)
next
  case LoopNoData
  with assms show ?thesis
    by (simp add: loop_step_def stop_throttle_def cv_notifyOne_def Let_def wait_blocked_def
        release_rank_def pc_rank_def cv_wait_for_def)
next
  case (LoopSleep d)
  have le: "mThrottleIndex t \<le> mPos t" and no_wrap: "mPos t + 1 \<noteq> 0"
    using assms by (simp_all add: wait_blocked_def thread_live_def thread_running_def)
  note step = index_step [OF le no_wrap]
  have "unat (mThrottleIndex t) \<le> unat (mPos t)" using le by (simp add: word_le_nat_alt)
  with LoopSleep blocked step show ?thesis
    by (auto simp: loop_step_def cv_notifyOne_def wait_blocked_def release_rank_def pc_rank_def)
next
  case LoopAccount
  with assms show ?thesis
    by (simp add: loop_step_def stop_throttle_def cv_notifyOne_def Let_def wait_blocked_def
        release_rank_def pc_rank_def)
next
  case LoopExited
  with live show ?thesis by (simp add: thread_live_def thread_running_def)
qed

lemma reader_released:
  assumes "thread_live t" and "wait_blocked t"
  shows "\<exists>n \<le> release_rank t. \<not> wait_blocked (loop_steps T n t) \<and>
           mNotified (mCvThrottleChanged (loop_steps T n t))"
  using assms
proof (induction "release_rank t" arbitrary: t rule: less_induct)
  case less
  let ?t = "loop_step T True t"
  from release_step [OF less.prems] consider
      "\<not> wait_blocked ?t" "mNotified (mCvThrottleChanged ?t)"
    | "wait_blocked ?t" "release_rank ?t < release_rank t"
    by blast
  then show ?case
  proof cases
    case 1
    have "0 < release_rank t"
      using less.prems by (auto simp: release_rank_def wait_blocked_def word_le_nat_alt)
    with 1 show ?thesis by (intro exI [of _ "Suc 0"]) simp
  next
    case 2
    from less.hyps [OF 2(2) thread_live_step [OF less.prems(1)] 2(1)] obtain n
      where "n \<le> release_rank ?t" "\<not> wait_blocked (loop_steps T n ?t)"
        "mNotified (mCvThrottleChanged (loop_steps T n ?t))" by blast
    with 2(2) show ?thesis by (intro exI [of _ "Suc n"]) simp
  qed
qed

text \<open>The reader's own evaluations change none of this.\<close>

lemma wait_poll_same:
  assumes "wait_blocked t"
  shows "wait_blocked (snd (wait_poll t))" and "thread_live (snd (wait_poll t)) = thread_live t"
    and "release_rank (snd (wait_poll t)) = release_rank t"
  using assms
  by (auto simp: wait_poll_def wait_blocked_def thread_live_def thread_running_def start_signalled_def
      release_rank_def pc_rank_def split: option.splits loop_pc.splits)

lemma release_rank_bound:
  "release_rank t \<le> 3 * (unat (mPos t) + 1 - unat (mThrottleIndex t)) + 7"
  by (auto simp: release_rank_def pc_rank_def split: loop_pc.splits)

section \<open>Pacing\<close>

text \<open>One round of the inner loop on a position whose period is known.\<close>

lemma pacing_round:
  assumes "loopPc t = LoopHead" and "mThrottleRunning t" and "\<not> mExitRequested t"
    and "unat (mThrottleIndex t) < length (periods t)" and "unat (mIdleCount t) < 100"
  defines "t1 \<equiv> loop_step T True t" and "t2 \<equiv> loop_step T True (loop_step T True t)"
  shows "loopPc t1 = LoopSleep (periods t ! unat (mThrottleIndex t))"
    and "mThrottleIndex t1 = mThrottleIndex t" and "mThrottleRunning t1"
    and "loopPc t2 = LoopAccount" and "mThrottleIndex t2 = mThrottleIndex t + 1"
    and "mThrottleRunning t2"
    and "loopPc (loop_step T True t2) = LoopHead" and "mThrottleRunning (loop_step T True t2)"
    and "mThrottleIndex (loop_step T True t2) = mThrottleIndex t + 1"
    and "unat (mIdleCount (loop_step T True t2)) \<le> unat (mIdleCount t) + 1"
proof -
  have t1: "t1 = t\<lparr>loopPc := LoopSleep (periods t ! unat (mThrottleIndex t))\<rparr>"
    using assms by (simp add: loop_step_def less_size_iff index_elems)
  then show "loopPc t1 = LoopSleep (periods t ! unat (mThrottleIndex t))"
    and "mThrottleIndex t1 = mThrottleIndex t" and "mThrottleRunning t1"
    using assms by simp_all
  have t2: "t2 = t1\<lparr>mThrottleIndex := mThrottleIndex t + 1,
      mCvThrottleChanged := cv_notifyOne (mCvThrottleChanged t),
      mIdleCount := (if mLastPos t = mLastPosIdle t then mIdleCount t + 1 else 0),
      loopPc := LoopAccount\<rparr>"
    using t1 unfolding t2_def t1_def [symmetric] by (simp add: loop_step_def)
  then show "loopPc t2 = LoopAccount" and "mThrottleIndex t2 = mThrottleIndex t + 1"
    and "mThrottleRunning t2" using t1 assms by simp_all
  have inc: "unat (mIdleCount t + 1) = unat (mIdleCount t) + 1"
    using assms by (simp add: unat_word_ariths)
  then have idle: "unat (mIdleCount t2) \<le> unat (mIdleCount t) + 1" using t2 by simp
  then have "\<not> IDLE_LIMIT_COUNT < mIdleCount t2"
    using assms by (simp add: IDLE_LIMIT_COUNT_def word_less_nat_alt)
  then have "loop_step T True t2 = t2\<lparr>mLastPosIdle := mLastPos t2, loopPc := LoopHead\<rparr>"
    using t2 by (simp add: loop_step_def Let_def)
  then show "loopPc (loop_step T True t2) = LoopHead" and "mThrottleRunning (loop_step T True t2)"
    and "mThrottleIndex (loop_step T True t2) = mThrottleIndex t + 1"
    and "unat (mIdleCount (loop_step T True t2)) \<le> unat (mIdleCount t) + 1"
    using t2 t1 assms idle by simp_all
qed

lemma blocked_prefix:
  assumes "wait_blocked t" and "wait_blocked (loop_step T True t)"
    and "wait_blocked (loop_step T True (loop_step T True t))"
    and "\<And>m. m < n \<Longrightarrow>
      wait_blocked (loop_steps T m (loop_step T True (loop_step T True (loop_step T True t))))"
    and "m < Suc (Suc (Suc n))"
  shows "wait_blocked (loop_steps T m t)"
  using assms by (auto simp: less_Suc_eq_0_disj)

text \<open>Facts about a position whose period is known, in the form the induction uses.\<close>

lemma index_inc:
  assumes "unat (mThrottleIndex t) < length (periods t)"
  shows "unat (mThrottleIndex t + 1) = unat (mThrottleIndex t) + 1"
proof -
  have "length (periods t) < 18446744073709551616"
    using elems_bounded [of "mTimePeriodBuffer t"] unat_less_u64 [of "period_cap t"] by linarith
  with assms have "unat (mThrottleIndex t) + 1 < 18446744073709551616" by linarith
  then show ?thesis by (simp add: unat_word_ariths)
qed

definition pacing_from :: "nat \<Rightarrow> 't throttle \<Rightarrow> bool" where
  "pacing_from d t \<longleftrightarrow>
     loopPc t = LoopHead \<and> mThrottleRunning t \<and> \<not> mExitRequested t \<and>
     unat (mThrottleIndex t) + d = unat (mPos t) \<and> unat (mPos t) < length (periods t) \<and>
     unat (mIdleCount t) + d < 100"

lemma pacing_fromD:
  assumes "pacing_from d t"
  shows "loopPc t = LoopHead" and "mThrottleRunning t" and "\<not> mExitRequested t"
    and "unat (mThrottleIndex t) < length (periods t)" and "unat (mIdleCount t) < 100"
  using assms by (auto simp: pacing_from_def)

lemma pacing_from_blocked:
  assumes "pacing_from d t"
  shows "wait_blocked t" and "wait_blocked (loop_step T True t)"
proof -
  note h = pacing_fromD(1-3) [OF assms] and i = pacing_fromD(4) [OF assms] and idle = pacing_fromD(5) [OF assms]
  have le: "mThrottleIndex t \<le> mPos t"
    using assms unfolding pacing_from_def word_le_nat_alt by linarith
  then show "wait_blocked t" using h by (simp add: wait_blocked_def)
  show "wait_blocked (loop_step T True t)"
    using le pacing_round(2,3) [OF h i idle] by (simp add: wait_blocked_def)
qed

lemma pacing_from_step:
  assumes "pacing_from (Suc d) t"
  shows "pacing_from d (loop_step T True (loop_step T True (loop_step T True t)))"
    and "wait_blocked (loop_step T True (loop_step T True t))"
proof -
  note h = pacing_fromD(1-3) [OF assms] and i = pacing_fromD(4) [OF assms] and idle = pacing_fromD(5) [OF assms]
  note round = pacing_round [OF h i idle] and idx = index_inc [OF i]
  show "pacing_from d (loop_step T True (loop_step T True (loop_step T True t)))"
    unfolding pacing_from_def round(9) idx
    using assms round(7,8,10) h(3) unfolding pacing_from_def by (intro conjI) simp_all
  show "wait_blocked (loop_step T True (loop_step T True t))"
    using assms round(5,6) idx unfolding pacing_from_def wait_blocked_def word_le_nat_alt by simp
qed

lemma pacing_last:
  assumes "pacing_from 0 t"
  shows "loop_slept T 2 t = unat (periods t ! unat (mThrottleIndex t))"
    and "unat (mThrottleIndex (loop_steps T 2 t)) = unat (mPos t) + 1"
proof -
  note h = pacing_fromD(1-3) [OF assms] and i = pacing_fromD(4) [OF assms] and idle = pacing_fromD(5) [OF assms]
  note round = pacing_round [OF h i idle] and idx = index_inc [OF i]
  show "loop_slept T 2 t = unat (periods t ! unat (mThrottleIndex t))"
    by (simp add: numeral_2_eq_2 h(1) round(1))
  show "unat (mThrottleIndex (loop_steps T 2 t)) = unat (mPos t) + 1"
    using assms idx by (simp add: numeral_2_eq_2 round(5) pacing_from_def)
qed

lemma pacing_slept:
  assumes "pacing_from (Suc d) t"
  shows "loop_slept T (3 * Suc d + 2) t = unat (periods t ! unat (mThrottleIndex t)) +
           loop_slept T (3 * d + 2) (loop_step T True (loop_step T True (loop_step T True t)))"
proof -
  note h = pacing_fromD(1-3) [OF assms] and i = pacing_fromD(4) [OF assms] and idle = pacing_fromD(5) [OF assms]
  note round = pacing_round [OF h i idle]
  have "3 * Suc d + 2 = Suc (Suc (Suc (3 * d + 2)))" by simp
  then show ?thesis by (simp only: loop_slept.simps h(1) round(1,4) sleep_time.simps add_0)
qed

lemma pacing_sum:
  assumes "i < length xs"
  shows "sum_list (map unat (take (Suc n) (drop i xs))) =
           unat (xs ! i) + sum_list (map unat (take n (drop (i + 1) xs)))"
  using assms by (simp add: Cons_nth_drop_Suc [symmetric])

text \<open>
  From the head of the loop, with the reader \<open>d\<close> positions ahead and the idle limit
  out of reach: the thread sleeps the recorded periods of exactly these positions, and the
  reader stays blocked until the last of them is over.
\<close>

lemma pacing:
  assumes "pacing_from d t"
  shows "loop_slept T (3 * d + 2) t =
           sum_list (map unat (take (d + 1) (drop (unat (mThrottleIndex t)) (periods t))))
    \<and> unat (mThrottleIndex (loop_steps T (3 * d + 2) t)) = unat (mPos t) + 1
    \<and> (\<forall>m < 3 * d + 2. wait_blocked (loop_steps T m t))"
  using assms
proof (induction d arbitrary: t)
  case 0
  note i = pacing_fromD(4) [OF 0]
  have "\<forall>m < 2. wait_blocked (loop_steps T m t)"
    using pacing_from_blocked [OF 0] by (auto simp: numeral_2_eq_2 less_Suc_eq)
  with pacing_last [OF 0] pacing_sum [OF i, of 0] show ?case
    by (simp only: mult_0_right add_0 list.map take_0 sum_list.Nil add_0_right One_nat_def simp_thms)
next
  case (Suc d)
  let ?t2 = "loop_step T True (loop_step T True t)" let ?t3 = "loop_step T True ?t2"
  note h = pacing_fromD(1-3) [OF Suc.prems] and i = pacing_fromD(4) [OF Suc.prems] and idle = pacing_fromD(5) [OF Suc.prems]
  have "unat (mThrottleIndex ?t3) = unat (mThrottleIndex t) + 1"
    using pacing_round(9) [OF h i idle] index_inc [OF i] by simp
  with Suc.IH [OF pacing_from_step(1) [OF Suc.prems]]
  have IH: "loop_slept T (3 * d + 2) ?t3 =
      sum_list (map unat (take (d + 1) (drop (unat (mThrottleIndex t) + 1) (periods t))))"
    and idx: "unat (mThrottleIndex (loop_steps T (3 * d + 2) ?t3)) = unat (mPos t) + 1"
    and blocked: "\<And>m. m < 3 * d + 2 \<Longrightarrow> wait_blocked (loop_steps T m ?t3)" by simp_all
  have n: "3 * Suc d + 2 = Suc (Suc (Suc (3 * d + 2)))" by simp
  have "\<forall>m < 3 * Suc d + 2. wait_blocked (loop_steps T m t)"
    unfolding n
    using blocked_prefix [OF pacing_from_blocked [OF Suc.prems] pacing_from_step(2) [OF Suc.prems]
      blocked] by simp
  moreover have "loop_steps T (3 * Suc d + 2) t = loop_steps T (3 * d + 2) ?t3"
    unfolding n by (simp only: loop_steps.simps)
  moreover have "loop_slept T (3 * Suc d + 2) t =
      sum_list (map unat (take (Suc d + 1) (drop (unat (mThrottleIndex t)) (periods t))))"
    using pacing_slept [OF Suc.prems] IH pacing_sum [OF i, of "d + 1"] by (simp only: add_Suc)
  ultimately show ?case using idx by (simp only: simp_thms)
qed

end

interpretation ltr: time_ring "list_ring :: (u32 bounded_list, u32) circ_ops"
  by unfold_locales

section \<open>Properties\<close>

text \<open>A throttle for the witnesses: three recorded periods, throttling under way.\<close>

definition demo_periods :: "u32 bounded_list" where
  "demo_periods = bl_push 11 (bl_push 7 (bl_push 5 (bl_new 40)))"

definition demo_throttle :: "u32 bounded_list throttle" where
  "demo_throttle =
     (throttle_new list_ring 40)\<lparr>mTimePeriodBuffer := demo_periods, mPos := 2, mThrottleIndex := 1,
       mThrottleRunning := True, loopPc := LoopHead\<rparr>"

lemma demo_periods_elems: "cb_elems list_ring demo_periods = [5, 7, 11]"
  by (simp add: demo_periods_def list_ring_def)

lemma demo_throttle_fields [simp]:
  "mTimePeriodBuffer demo_throttle = demo_periods" "mPos demo_throttle = 2" "mLastPos demo_throttle = 0"
  "mThrottleIndex demo_throttle = 1" "mThrottleRunning demo_throttle" "loopPc demo_throttle = LoopHead"
  "\<not> mExitRequested demo_throttle" "mIdleCount demo_throttle = 0" "mStopWatchTimer demo_throttle = stopwatch_new"
  by (simp_all add: demo_throttle_def) (simp_all add: throttle_new_def)

text \<open>
  C12: a reader that the throttle holds back is always let go: while the throttle thread
  runs, after at most three of its steps per position still to pass and seven more, the
  reader's condition is false and its notification is pending.
\<close>

theorem throttle_releases_reader:
  assumes "time_ring T" and "thread_live t" and "wait_blocked t"
  shows "\<exists>n \<le> 3 * (unat (mPos t) + 1 - unat (mThrottleIndex t)) + 7.
           \<not> wait_blocked (loop_steps T n t) \<and> mNotified (mCvThrottleChanged (loop_steps T n t))"
  using time_ring.reader_released [OF assms] time_ring.release_rank_bound [OF assms(1), of t]
  by (meson le_trans)

theorem throttle_releases_reader_witness:
  "\<exists>n \<le> 13. \<not> wait_blocked (loop_steps list_ring n demo_throttle) \<and>
     mNotified (mCvThrottleChanged (loop_steps list_ring n demo_throttle))"
proof -
  have live: "thread_live demo_throttle"
    by (simp add: thread_live_def thread_running_def start_signalled_def)
  have blocked: "wait_blocked demo_throttle" by (simp add: wait_blocked_def)
  show ?thesis
    using throttle_releases_reader [OF ltr.time_ring_axioms live blocked] by simp
qed

text \<open>
  C28: pacing. With the reader \<open>d\<close> positions ahead of the throttle index, all periods
  recorded and the idle limit out of reach, the thread sleeps exactly the recorded periods
  of the positions in between, and the reader is held back until the last of them is over.
\<close>

theorem throttle_paces_reader:
  assumes "time_ring T" and "loopPc t = LoopHead" and "mThrottleRunning t" and "\<not> mExitRequested t"
    and "unat (mThrottleIndex t) + d = unat (mPos t)"
    and "unat (mPos t) < length (cb_elems T (mTimePeriodBuffer t))"
    and "unat (mIdleCount t) + d < 100"
  shows "loop_slept T (3 * d + 2) t =
           sum_list (map unat (take (d + 1) (drop (unat (mThrottleIndex t))
             (cb_elems T (mTimePeriodBuffer t)))))
    \<and> unat (mThrottleIndex (loop_steps T (3 * d + 2) t)) = unat (mPos t) + 1
    \<and> (\<forall>m. m < 3 * d + 2 \<longrightarrow> wait_blocked (loop_steps T m t))"
proof -
  have "time_ring.pacing_from T d t"
    using assms by (simp add: time_ring.pacing_from_def [OF assms(1)])
  from time_ring.pacing [OF assms(1) this] show ?thesis by blast
qed

theorem throttle_paces_reader_witness: "loop_slept list_ring 5 demo_throttle = 18"
  using throttle_paces_reader [OF ltr.time_ring_axioms, of demo_throttle 1]
  by (simp add: demo_periods_elems)

text \<open>
  A period is the time since the last chunk in microseconds, less 500 and not below
  zero; the first period after a reset is zero.
\<close>

theorem register_records_period:
  assumes "time_ring T" and "0 < cb_capacity T (mTimePeriodBuffer t)"
    and "mLastTime (mStopWatchTimer t) \<le> now"
    and "(now - mLastTime (mStopWatchTimer t)) div 1000 < 2 ^ 32"
  shows "uint (last (cb_elems T (mTimePeriodBuffer (registerTimePeriod T now t)))) =
           (if mResetTimer (mStopWatchTimer t) then 0
            else max 0 ((now - mLastTime (mStopWatchTimer t)) div 1000 - 500))"
proof -
  note ring = time_ring.axioms [OF assms(1)]
  let ?lap = "fst (getLapTime now (mStopWatchTimer t))"
  have "cb_elems T (cb_push_back T x (mTimePeriodBuffer t)) \<noteq> []" for x
    using circular_buffer.push_nonempty [OF ring assms(2)] .
  then have "last (cb_elems T (cb_push_back T x (mTimePeriodBuffer t))) = x" for x
    unfolding circular_buffer.elems_push_back [OF ring] by (rule last_drop_snoc)
  then have last: "last (cb_elems T (mTimePeriodBuffer (registerTimePeriod T now t))) = truncate_period ?lap"
    unfolding time_ring.register_buffer [OF assms(1)] .
  have trunc: "uint (truncate_period x) = max 0 (uint x - 500)" for x
    by (simp add: truncate_period_def TIME_PERIOD_TRUNCATION_THRESHOLD_US_def word_less_def
        uint_sub_if' )
  show ?thesis
    using getLapTime_first [of "mStopWatchTimer t" now] getLapTime_next [OF assms(3,4)]
    unfolding last trunc by auto
qed

theorem register_records_period_witness:
  "uint (last (cb_elems list_ring (mTimePeriodBuffer (registerTimePeriod list_ring 2000000
     (demo_throttle\<lparr>mStopWatchTimer := \<lparr>mResetTimer = False, mLastTime = 0\<rparr>\<rparr>))))) = 1500"
  using register_records_period [OF ltr.time_ring_axioms,
      of "demo_throttle\<lparr>mStopWatchTimer := \<lparr>mResetTimer = False, mLastTime = 0\<rparr>\<rparr>" 2000000]
  by (simp add: demo_periods_def list_ring_def)

text \<open>
  A full ring drops its oldest period, and the index of the throttle and the position
  of the reader move down with the periods, so that they designate the same ones as before.
\<close>

theorem register_keeps_positions:
  fixes now :: int
  assumes "time_ring T"
    and "length (cb_elems T (mTimePeriodBuffer t)) = unat (cb_capacity T (mTimePeriodBuffer t))"
    and "0 < mThrottleIndex t" and "unat (mThrottleIndex t) < length (cb_elems T (mTimePeriodBuffer t))"
    and "0 < mPos t" and "unat (mPos t) < length (cb_elems T (mTimePeriodBuffer t))"
  defines "t' \<equiv> registerTimePeriod T now t"
  shows "cb_elems T (mTimePeriodBuffer t') ! unat (mThrottleIndex t') =
           cb_elems T (mTimePeriodBuffer t) ! unat (mThrottleIndex t)
    \<and> cb_elems T (mTimePeriodBuffer t') ! unat (mPos t') = cb_elems T (mTimePeriodBuffer t) ! unat (mPos t)
    \<and> mPos t' - mThrottleIndex t' = mPos t - mThrottleIndex t"
proof -
  note ring = time_ring.axioms [OF assms(1)]
  let ?ps = "cb_elems T (mTimePeriodBuffer t)"
  have full: "cb_size T (mTimePeriodBuffer t) = cb_capacity T (mTimePeriodBuffer t)"
    using assms(2) by (simp add: word_unat_eq_iff circular_buffer.size_elems [OF ring])
  then have idx: "mThrottleIndex t' = mThrottleIndex t - 1" "mPos t' = mPos t - 1"
    using assms(3,5) by (simp_all add: t'_def registerTimePeriod_def Let_def case_prod_beta)
  obtain x where ps': "cb_elems T (mTimePeriodBuffer t') = tl (?ps @ [x])"
    unfolding t'_def time_ring.register_buffer [OF assms(1)]
    using circular_buffer.push_full [OF ring assms(2)] by blast
  have shift: "tl (?ps @ [x]) ! unat (i - 1) = ?ps ! unat i" if "0 < i" "unat i < length ?ps" for i :: u64
  proof -
    have "unat (i - 1) = unat i - 1" "0 < unat i"
      using that(1) unat_sub_le [of 1 i] by (simp_all add: word_less_nat_alt word_le_nat_alt)
    with that(2) show ?thesis by (cases "unat i") (simp_all add: nth_tl nth_append)
  qed
  from shift [OF assms(3,4)] shift [OF assms(5,6)] show ?thesis
    unfolding ps' idx by simp
qed

theorem register_keeps_positions_witness:
  "let t = demo_throttle\<lparr>mTimePeriodBuffer := bl_push 11 (bl_push 7 (bl_push 5 (bl_new 3)))\<rparr>;
       t' = registerTimePeriod list_ring 0 t
   in cb_elems list_ring (mTimePeriodBuffer t') ! unat (mPos t') = 11"
  using register_keeps_positions [OF ltr.time_ring_axioms,
      of "demo_throttle\<lparr>mTimePeriodBuffer := bl_push 11 (bl_push 7 (bl_push 5 (bl_new 3)))\<rparr>" 0]
  by (simp add: list_ring_def)

text \<open>For the witness: the thread waits to be started, then a reader waits thirty-one times.\<close>

definition demo_started :: "u32 bounded_list throttle" where
  "demo_started =
     ((\<lambda>t. snd (wait_enter list_ring t)) ^^ 31)
       (setReadPosition 1 (loop_step list_ring False (throttle_new list_ring 40)))"

lemma demo_started_reachable: "throttle_reachable list_ring 40 demo_started"
proof -
  have "throttle_reachable list_ring 40 (((\<lambda>t. snd (wait_enter list_ring t)) ^^ k) t)"
    if "throttle_reachable list_ring 40 t" for k and t :: "u32 bounded_list throttle"
    using that
    by (induction k) (auto intro: throttle_reachable.event [where e = Enter])
  moreover have "throttle_reachable list_ring 40 (setReadPosition 1 (loop_step list_ring False (throttle_new list_ring 40)))"
    by (rule throttle_reachable.event [where e = "SetPosition 1"],
        rule throttle_reachable.event [where e = "ThreadStep False"]) (auto intro: throttle_reachable.new)
  ultimately show ?thesis unfolding demo_started_def by blast
qed

lemma far_behind: "\<not> (- 1 :: u64) \<le> 10"
  by code_simp

lemma wait_counts:
  assumes "mEnableThrottling t" and "mTimePeriodBuffer t = bl_new 40" and "mPos t = 1" and "mLastPos t = 1"
    and "mReadAheadCount t < 30" and "mReadAheadCount t + 1 < 30"
  shows "snd (wait_enter list_ring t) = t\<lparr>mReadAheadCount := mReadAheadCount t + 1\<rparr>"
proof -
  have "mReadAheadCount t + 1 \<noteq> 30" "\<not> 30 < mReadAheadCount t + 1" using assms(6) by auto
  with assms far_behind show ?thesis
    by (cases t) (simp add: wait_enter_def Let_def list_ring_def throttle_constants)
qed

lemma read_ahead_counts:
  assumes "mEnableThrottling t" and "mTimePeriodBuffer t = bl_new 40" and "mPos t = 1" and "mLastPos t = 1"
    and "mReadAheadCount t = 1" and "k \<le> 28"
  shows "((\<lambda>t. snd (wait_enter list_ring t)) ^^ k) t = t\<lparr>mReadAheadCount := of_nat (k + 1)\<rparr>"
  using assms(6)
proof (induction k)
  case 0
  then show ?case using assms(5) by simp
next
  case (Suc k)
  have "unat (of_nat (k + 1) :: u64) = k + 1" "unat (of_nat (k + 2) :: u64) = k + 2"
    using Suc.prems by (intro unat_of_nat_u64; simp)+
  then have "(of_nat (k + 1) :: u64) < 30" "(of_nat (k + 2) :: u64) < 30"
    using Suc.prems by (simp_all add: word_less_nat_alt del: of_nat_add)
  then have c: "(of_nat (k + 1) :: u64) < 30" "(of_nat (k + 1) + 1 :: u64) < 30"
    by (simp_all add: ac_simps)
  have "((\<lambda>t. snd (wait_enter list_ring t)) ^^ Suc k) t =
      snd (wait_enter list_ring (t\<lparr>mReadAheadCount := of_nat (k + 1)\<rparr>))"
    using Suc by simp
  also have "\<dots> = t\<lparr>mReadAheadCount := of_nat (k + 1) + 1\<rparr>"
    using wait_counts [of "t\<lparr>mReadAheadCount := of_nat (k + 1)\<rparr>"] assms(1-4) c by simp
  finally show ?case by (simp add: ac_simps)
qed

lemma last_two_waits:
  assumes "mEnableThrottling t" and "mTimePeriodBuffer t = bl_new 40" and "mPos t = 1" and "mLastPos t = 1"
    and "mReadAheadCount t = 29" and "\<not> mThrottleRunning t" and "loopPc t = LoopAwaitStart"
  defines "t' \<equiv> snd (wait_enter list_ring (snd (wait_enter list_ring t)))"
  shows "mThrottleRunning t' \<and> loopPc t' = LoopAwaitStart"
proof -
  have "snd (wait_enter list_ring t) = t\<lparr>mReadAheadCount := 31, mThrottleIndex := 1, mLastPos := 1\<rparr>"
    using assms(1-6) far_behind
    by (cases t) (simp add: wait_enter_def Let_def list_ring_def throttle_constants)
  then show ?thesis
    using assms(1-7) far_behind unfolding t'_def
    by (simp add: wait_enter_def Let_def list_ring_def throttle_constants)
qed

lemma demo_started_waits: "mThrottleRunning demo_started \<and> loopPc demo_started = LoopAwaitStart"
proof -
  let ?f = "\<lambda>t. snd (wait_enter list_ring t)"
  define t where "t = ?f (setReadPosition 1 (loop_step list_ring False (throttle_new list_ring 40)))"
  have start: "mEnableThrottling t" "mTimePeriodBuffer t = bl_new 40" "mPos t = 1" "mLastPos t = 1"
    "mReadAheadCount t = 1" "\<not> mThrottleRunning t" "loopPc t = LoopAwaitStart"
    unfolding t_def using far_behind
    by (simp_all add: wait_enter_def Let_def setReadPosition_def loop_step_def
        throttle_new_def list_ring_def throttle_constants)
  have n: "(31 :: nat) = Suc (Suc (28 + 1))" by simp
  have "demo_started = ?f (?f ((?f ^^ 28) t))"
    unfolding demo_started_def t_def n funpow.simps(2) funpow_add by simp
  also have "(?f ^^ 28) t = t\<lparr>mReadAheadCount := 29\<rparr>"
    using read_ahead_counts [OF start(1-5), of 28] by simp
  finally show ?thesis
    using last_two_waits [of "t\<lparr>mReadAheadCount := 29\<rparr>"] start by simp
qed

text \<open>
  No start request is lost. In every state that the calls of the pool, the reader and
  the thread can reach, a thread that waits to be started while throttling runs takes up
  its work in its next step.
\<close>

theorem throttle_start_not_lost:
  assumes "throttle_reachable T n t" and "mThrottleRunning t" and "loopPc t = LoopAwaitStart"
  shows "loopPc (loop_step T b t) = LoopHead"
  using start_signalled_reachable [OF assms(1)] assms(2,3)
  by (simp add: start_signalled_def loop_step_def cv_wait_pred_def)

theorem throttle_start_not_lost_witness: "loopPc (loop_step list_ring False demo_started) = LoopHead"
  using throttle_start_not_lost [OF demo_started_reachable] demo_started_waits by blast

text \<open>
  Read-ahead. After a reset, the first thirty waits of a reader return at once,
  whatever its positions are.
\<close>

theorem throttle_reads_ahead:
  assumes "mReadAheadCount t = 0" and "length ps \<le> 30"
  shows "fst (reader_calls T ps t) = replicate (length ps) False"
  using assms by (intro reader_calls_read_ahead) simp

theorem throttle_reads_ahead_witness:
  "fst (reader_calls list_ring [3, 4, 5] (throttle_new list_ring 200)) = [False, False, False]"
  using throttle_reads_ahead [of "throttle_new list_ring 200" "[3, 4, 5]" list_ring]
  by (simp add: throttle_new_def numeral_3_eq_3)

end
