(* ===== verification/Buffer_Pool.thy ===== *)
theory Buffer_Pool
  imports Throttle_Progress
begin

text \<open>
  \<open>BufferPool<buffer_chunk>\<close> (export/streamfs/BufferPool.h, src/BufferPool.cpp) and
  its subclass \<open>ByteBufferPool\<close>, in the default build, which has
  \<open>BUFFER_CHUNK_READ_THROTTLING\<close> on. \<open>C\<close> and \<open>T\<close> are the circular buffer
  library at the two element types the code uses it with: chunks and time periods.

  The code between two lock operations is one step. A blocking call takes the schedule of
  what the other threads do while it waits as an argument: a list of batches of events, one
  batch between two evaluations of the wait predicate. The end of the list is the timeout
  of a timed wait.
\<close>

section \<open>State\<close>

record ('c, 't) pool =
  mCircBuf :: 'c
  mTotalBufCount :: u64
  mLastReadLocation :: u64
  mReadEnd :: u64
  mGotLastBuffer :: bool
  mLastBufferSize :: u64
  exitPending :: bool
  mLastStartPos :: u64
  mAborting :: bool
  mThrottle :: "'t throttle"

definition pool_new ::
  "('c, buffer_chunk) circ_ops \<Rightarrow> ('t, u32) circ_ops \<Rightarrow> u64 \<Rightarrow> ('c, 't) pool" where
  "pool_new C T preAllocBufSize =
     \<lparr>mCircBuf = cb_new C preAllocBufSize, mTotalBufCount = 0, mLastReadLocation = 0,
      mReadEnd = 0, mGotLastBuffer = False, mLastBufferSize = 0, exitPending = False,
      mLastStartPos = 0, mAborting = False, mThrottle = throttle_new T preAllocBufSize\<rparr>"

definition getCapacity :: "('c, buffer_chunk) circ_ops \<Rightarrow> ('c, 't) pool \<Rightarrow> u64" where
  "getCapacity C p = cb_capacity C (mCircBuf p)"

definition getSize :: "('c, buffer_chunk) circ_ops \<Rightarrow> ('c, 't) pool \<Rightarrow> u64" where
  "getSize C p = cb_size C (mCircBuf p)"

definition getTotalBufferCount :: "('c, 't) pool \<Rightarrow> u64" where
  "getTotalBufferCount p = mTotalBufCount p"

definition enableReadThrottling :: "bool \<Rightarrow> ('c, 't) pool \<Rightarrow> ('c, 't) pool" where
  "enableReadThrottling enable p = p\<lparr>mThrottle := enableThrottling enable (mThrottle p)\<rparr>"

text \<open>The destructor; the base class's \<open>stop\<close> of the producer does nothing.\<close>

definition pool_destroy :: "('c, 't) pool \<Rightarrow> ('c, 't) pool" where
  "pool_destroy p = p\<lparr>exitPending := True\<rparr>"

section \<open>Writing\<close>

text \<open>
  \<open>pushBuffer\<close> has two sections: the period is registered before the write lock is
  taken. The second section passes the front chunk to the consumer's callback.
\<close>

definition push_register :: "('t, u32) circ_ops \<Rightarrow> int \<Rightarrow> ('c, 't) pool \<Rightarrow> ('c, 't) pool" where
  "push_register T now p = p\<lparr>mThrottle := registerTimePeriod T now (mThrottle p)\<rparr>"

definition push_commit ::
  "('c, buffer_chunk) circ_ops \<Rightarrow> buffer_chunk \<Rightarrow> bool \<Rightarrow> u64 \<Rightarrow> ('c, 't) pool \<Rightarrow>
     (buffer_chunk \<times> ('c, 't) pool) outcome" where
  "push_commit C buffer lastBuffer lastBufferSize p =
     (let p1 = p\<lparr>mCircBuf := cb_push_back C buffer (mCircBuf p),
                 mTotalBufCount := mTotalBufCount p + 1\<rparr>;
          p2 = (if lastBuffer
                then p1\<lparr>mGotLastBuffer := True, mLastBufferSize := lastBufferSize\<rparr> else p1)
      in andthen (ring_front C (mCircBuf p2)) (\<lambda>front. Inr (front, p2)))"

text \<open>The chunk, if any, is the argument of \<open>newBufferAvailable\<close>.\<close>

definition pushBuffer ::
  "('c, buffer_chunk) circ_ops \<Rightarrow> ('t, u32) circ_ops \<Rightarrow> int \<Rightarrow> buffer_chunk \<Rightarrow> bool \<Rightarrow> u64 \<Rightarrow>
     ('c, 't) pool \<Rightarrow> (buffer_chunk option \<times> ('c, 't) pool) outcome" where
  "pushBuffer C T now buffer lastBuffer lastBufferSize p =
     (if exitPending p then Inr (None, p)
      else andthen (push_commit C buffer lastBuffer lastBufferSize (push_register T now p))
             (\<lambda>(front, p'). Inr (Some front, p')))"

definition pool_clear ::
  "('c, buffer_chunk) circ_ops \<Rightarrow> ('t, u32) circ_ops \<Rightarrow> ('c, 't) pool \<Rightarrow> ('c, 't) pool" where
  "pool_clear C T p =
     p\<lparr>mGotLastBuffer := False, mTotalBufCount := 0, mReadEnd := 0, mLastBufferSize := 0,
       mCircBuf := cb_clear C (mCircBuf p), mThrottle := throttle_clear T (mThrottle p)\<rparr>"

definition clearToLastRead ::
  "('c, buffer_chunk) circ_ops \<Rightarrow> ('t, u32) circ_ops \<Rightarrow> ('c, 't) pool \<Rightarrow>
     ('c, 't) pool outcome" where
  "clearToLastRead C T p =
     (if cb_empty C (mCircBuf p) then Inr p
      else
        let numElements = cb_size C (mCircBuf p);
            eraseCount = numElements - mLastReadLocation p - 1
        in andthen
             (if mLastReadLocation p < numElements
              then andthen (ring_erase_end C eraseCount (mCircBuf p))
                     (\<lambda>buf. Inr (p\<lparr>mCircBuf := buf,
                                   mTotalBufCount := mTotalBufCount p - eraseCount\<rparr>))
              else Inr p)
             (\<lambda>p1. andthen (throttle_clearToLastRead T (mThrottle p1))
                (\<lambda>t. Inr (p1\<lparr>mAborting := False, mThrottle := t\<rparr>))))"

definition abortAllOperations :: "('c, 't) pool \<Rightarrow> ('c, 't) pool" where
  "abortAllOperations p = p\<lparr>mAborting := True\<rparr>"

section \<open>What other threads do meanwhile\<close>

datatype pool_event =
    PushRegister int
  | PushCommit buffer_chunk bool u64
  | ClearPool
  | ClearToLastRead
  | AbortAll
  | EnableThrottling bool
  | ThrottleThread bool
  | DestroyPool

fun pool_do ::
  "('c, buffer_chunk) circ_ops \<Rightarrow> ('t, u32) circ_ops \<Rightarrow> pool_event \<Rightarrow> ('c, 't) pool \<Rightarrow>
     ('c, 't) pool outcome" where
  "pool_do C T (PushRegister now) p =
     Inr (if exitPending p then p else push_register T now p)"
| "pool_do C T (PushCommit buffer lastBuffer lastBufferSize) p =
     andthen (push_commit C buffer lastBuffer lastBufferSize p) (\<lambda>(front, p'). Inr p')"
| "pool_do C T ClearPool p = Inr (pool_clear C T p)"
| "pool_do C T ClearToLastRead p = clearToLastRead C T p"
| "pool_do C T AbortAll p = Inr (abortAllOperations p)"
| "pool_do C T (EnableThrottling b) p = Inr (enableReadThrottling b p)"
| "pool_do C T (ThrottleThread timed_out) p =
     Inr (p\<lparr>mThrottle := loop_step T timed_out (mThrottle p)\<rparr>)"
| "pool_do C T DestroyPool p = Inr (pool_destroy p)"

fun pool_dos ::
  "('c, buffer_chunk) circ_ops \<Rightarrow> ('t, u32) circ_ops \<Rightarrow> pool_event list \<Rightarrow> ('c, 't) pool \<Rightarrow>
     ('c, 't) pool outcome" where
  "pool_dos C T [] p = Inr p"
| "pool_dos C T (e # es) p = andthen (pool_do C T e p) (pool_dos C T es)"

section \<open>Reading\<close>

text \<open>What the checks at the start of \<open>read\<close> decide.\<close>

datatype read_next = ReturnZero | AwaitChunks u64 | CopyNow

definition read_enter ::
  "('c, buffer_chunk) circ_ops \<Rightarrow> u64 \<Rightarrow> u64 \<Rightarrow> u64 \<Rightarrow> u64 \<Rightarrow> ('c, 't) pool \<Rightarrow> read_next" where
  "read_enter C len offset left_padding right_padding p =
     (let capacity = cb_capacity C (mCircBuf p)
      in if exitPending p then ReturnZero
         else if mGotLastBuffer p \<and> mTotalBufCount p \<le> offset then ReturnZero
         else if BUFFER_CHUNK_SIZE \<le> left_padding \<or> BUFFER_CHUNK_SIZE \<le> right_padding \<or>
                 len - left_padding - right_padding < 0
         then ReturnZero
         else if capacity < mTotalBufCount p - offset \<or> mTotalBufCount p < offset \<or>
                 capacity < len
         then ReturnZero
         else let readEnd = offset + len
              in if mTotalBufCount p < readEnd \<and> \<not> mGotLastBuffer p
                 then AwaitChunks readEnd else CopyNow)"

definition wait_satisfied :: "u64 \<Rightarrow> ('c, 't) pool \<Rightarrow> bool" where
  "wait_satisfied readEnd p \<longleftrightarrow> readEnd \<le> mTotalBufCount p \<or> mGotLastBuffer p \<or> mAborting p"

fun read_wait ::
  "('c, buffer_chunk) circ_ops \<Rightarrow> ('t, u32) circ_ops \<Rightarrow> u64 \<Rightarrow> pool_event list list \<Rightarrow>
     ('c, 't) pool \<Rightarrow> (bool \<times> ('c, 't) pool) outcome" where
  "read_wait C T readEnd [] p = Inr (wait_satisfied readEnd p, p)"
| "read_wait C T readEnd (batch # batches) p =
     (if wait_satisfied readEnd p then Inr (True, p)
      else andthen (pool_dos C T batch p) (read_wait C T readEnd batches))"

text \<open>
  The copy loop. The number of bytes that iteration \<open>i\<close> copies, and the index it reads
  at, are computed in \<open>size_t\<close> and \<open>uint64_t\<close>, where subtraction wraps around.
\<close>

definition left_skip :: "u64 \<Rightarrow> u64 \<Rightarrow> u64" where
  "left_skip left_padding i = (if i = 0 then left_padding else 0)"

definition right_skip :: "u64 \<Rightarrow> u64 \<Rightarrow> u64 \<Rightarrow> u64" where
  "right_skip len right_padding i = (if i = len - 1 then right_padding else 0)"

definition copy_size :: "u64 \<Rightarrow> u64 \<Rightarrow> u64 \<Rightarrow> u64 \<Rightarrow> ('c, 't) pool \<Rightarrow> u64" where
  "copy_size len left_padding right_padding i p =
     (let lastItemCopySize =
            BUFFER_CHUNK_SIZE - left_skip left_padding i - right_skip len right_padding i
      in if mGotLastBuffer p \<and> i = mTotalBufCount p - 1
         then min (mLastBufferSize p) lastItemCopySize else lastItemCopySize)"

definition start_pos ::
  "('c, buffer_chunk) circ_ops \<Rightarrow> u64 \<Rightarrow> u64 \<Rightarrow> ('c, 't) pool \<Rightarrow> u64" where
  "start_pos C offset i p =
     (let endPos = min (cb_size C (mCircBuf p)) (cb_capacity C (mCircBuf p))
      in endPos - (mTotalBufCount p - offset) + i)"

definition at_position :: "u64 \<Rightarrow> ('c, 't) pool \<Rightarrow> ('c, 't) pool" where
  "at_position startPos p =
     p\<lparr>mLastReadLocation := startPos, mThrottle := setReadPosition startPos (mThrottle p)\<rparr>"

text \<open>
  One iteration. \<open>off\<close> is the \<open>int\<close> that counts the bytes copied; adding a
  \<open>size_t\<close> to it and storing the sum cuts it down to 32 bits.
\<close>

definition read_chunk ::
  "('c, buffer_chunk) circ_ops \<Rightarrow> u64 \<Rightarrow> u64 \<Rightarrow> u64 \<Rightarrow> u64 \<Rightarrow> u64 \<Rightarrow>
     c_int \<times> u8 list \<times> ('c, 't) pool \<Rightarrow> (c_int \<times> u8 list \<times> ('c, 't) pool) outcome" where
  "read_chunk C len offset left_padding right_padding i = (\<lambda>(off, out, p).
     let lastItemCopySize = copy_size len left_padding right_padding i p;
         startPos = start_pos C offset i p;
         p1 = at_position startPos p
     in andthen (ring_at C (mCircBuf p1) startPos)
          (\<lambda>chunk. andthen
             (memcpy_at out (sint off) (drop (unat (left_skip left_padding i)) (chunk_data chunk))
                lastItemCopySize)
             (\<lambda>out'. Inr (off + ucast lastItemCopySize, out', p1))))"

function read_loop ::
  "('c, buffer_chunk) circ_ops \<Rightarrow> u64 \<Rightarrow> u64 \<Rightarrow> u64 \<Rightarrow> u64 \<Rightarrow> u64 \<Rightarrow>
     c_int \<times> u8 list \<times> ('c, 't) pool \<Rightarrow> (c_int \<times> u8 list \<times> ('c, 't) pool) outcome" where
  "read_loop C len offset left_padding right_padding i s =
     (if i < len
      then andthen (read_chunk C len offset left_padding right_padding i s)
             (read_loop C len offset left_padding right_padding (i + 1))
      else Inr s)"
  by pat_completeness auto
termination
proof (relation "measure (\<lambda>(C, len, offset, l, r, i, s). unat len - unat i)")
  fix C :: "('c, buffer_chunk) circ_ops" and len offset l r i :: u64
    and s s' :: "c_int \<times> u8 list \<times> ('c, 't) pool"
  assume "i < len"
  then show "((C, len, offset, l, r, i + 1, s'), (C, len, offset, l, r, i, s))
      \<in> measure (\<lambda>(C, len, offset, l, r, i, s). unat len - unat i)"
    using unat_inc [of i len] by (simp add: word_less_nat_alt)
qed simp

declare read_loop.simps [simp del]

text \<open>
  The section under the write lock: \<open>None\<close> is the early return on an empty ring,
  \<open>Some off\<close> the byte count after the loop.
\<close>

definition read_copy ::
  "('c, buffer_chunk) circ_ops \<Rightarrow> u64 \<Rightarrow> u64 \<Rightarrow> u64 \<Rightarrow> u64 \<Rightarrow> u8 list \<Rightarrow> ('c, 't) pool \<Rightarrow>
     (c_int option \<times> u8 list \<times> ('c, 't) pool) outcome" where
  "read_copy C len offset left_padding right_padding out p =
     (if cb_empty C (mCircBuf p) then Inr (None, out, p)
      else andthen (read_loop C len offset left_padding right_padding 0 (0, out, p))
             (\<lambda>(off, out', p'). Inr (Some off, out', p')))"

text \<open>The reader inside the throttle's \<open>wait\<close>; the flag says whether it got out.\<close>

fun throttle_block ::
  "('c, buffer_chunk) circ_ops \<Rightarrow> ('t, u32) circ_ops \<Rightarrow> pool_event list list \<Rightarrow>
     ('c, 't) pool \<Rightarrow> (bool \<times> ('c, 't) pool) outcome" where
  "throttle_block C T [] p =
     (let (released, t) = wait_poll (mThrottle p) in Inr (released, p\<lparr>mThrottle := t\<rparr>))"
| "throttle_block C T (batch # batches) p =
     (let (released, t) = wait_poll (mThrottle p);
          p1 = p\<lparr>mThrottle := t\<rparr>
      in if released then Inr (True, p1)
         else andthen (pool_dos C T batch p1) (throttle_block C T batches))"

text \<open>
  A schedule for one call of \<open>read\<close>: what happens while it waits for chunks, between
  its waking up and its taking the write lock, and while it is throttled.
\<close>

record schedule =
  duringWait :: "pool_event list list"
  beforeCopy :: "pool_event list"
  duringThrottle :: "pool_event list list"

definition undisturbed :: schedule where
  "undisturbed = \<lparr>duringWait = [], beforeCopy = [], duringThrottle = []\<rparr>"

text \<open>
  The result is the value \<open>read\<close> returns (\<open>None\<close>: at the end of the schedule it
  is still blocked in the throttle), the caller's buffer and the pool.
\<close>

definition read_finish ::
  "('c, buffer_chunk) circ_ops \<Rightarrow> ('t, u32) circ_ops \<Rightarrow> schedule \<Rightarrow>
     u64 \<Rightarrow> u64 \<Rightarrow> u64 \<Rightarrow> u64 \<Rightarrow> u8 list \<Rightarrow> ('c, 't) pool \<Rightarrow>
     (u64 option \<times> u8 list \<times> ('c, 't) pool) outcome" where
  "read_finish C T s len offset left_padding right_padding out p =
     andthen (pool_dos C T (beforeCopy s) p) (\<lambda>p1.
     andthen (read_copy C len offset left_padding right_padding out p1) (\<lambda>(copied, out', p2).
       case copied of
         None \<Rightarrow> Inr (Some 0, out', p2)
       | Some off \<Rightarrow>
           (let (blocked, t) = wait_enter T (mThrottle p2);
                p3 = p2\<lparr>mThrottle := t\<rparr>
            in if \<not> blocked then Inr (Some (scast off), out', p3)
               else andthen (throttle_block C T (duringThrottle s) p3)
                      (\<lambda>(released, p4).
                         Inr (if released then Some (scast off) else None, out', p4)))))"

definition read ::
  "('c, buffer_chunk) circ_ops \<Rightarrow> ('t, u32) circ_ops \<Rightarrow> schedule \<Rightarrow>
     u64 \<Rightarrow> u64 \<Rightarrow> u64 \<Rightarrow> u64 \<Rightarrow> u8 list \<Rightarrow> ('c, 't) pool \<Rightarrow>
     (u64 option \<times> u8 list \<times> ('c, 't) pool) outcome" where
  "read C T s len offset left_padding right_padding out p =
     (case read_enter C len offset left_padding right_padding p of
        ReturnZero \<Rightarrow> Inr (Some 0, out, p)
      | CopyNow \<Rightarrow> read_finish C T s len offset left_padding right_padding out p
      | AwaitChunks readEnd \<Rightarrow>
          andthen (read_wait C T readEnd (duringWait s) p) (\<lambda>(satisfied, p1).
            if \<not> satisfied then Inr (Some 0, out, p1)
            else if mAborting p1 then Inr (Some 0, out, p1\<lparr>mAborting := False\<rparr>)
            else read_finish C T s len offset left_padding right_padding out
                   (p1\<lparr>mReadEnd := readEnd\<rparr>)))"

text \<open>\<open>readRandomAccess\<close>: a byte range as a chunk range with padding.\<close>

definition access_left :: "u64 \<Rightarrow> u64" where
  "access_left offsetBytes = offsetBytes mod BUFFER_CHUNK_SIZE"

definition access_right :: "u64 \<Rightarrow> u64 \<Rightarrow> u64" where
  "access_right nbytes offsetBytes =
     (BUFFER_CHUNK_SIZE - (access_left offsetBytes + nbytes) mod BUFFER_CHUNK_SIZE)
       mod BUFFER_CHUNK_SIZE"

definition access_length :: "u64 \<Rightarrow> u64 \<Rightarrow> u64" where
  "access_length nbytes offsetBytes =
     (access_left offsetBytes + access_right nbytes offsetBytes + nbytes) div BUFFER_CHUNK_SIZE"

definition readRandomAccess ::
  "('c, buffer_chunk) circ_ops \<Rightarrow> ('t, u32) circ_ops \<Rightarrow> schedule \<Rightarrow>
     u8 list \<Rightarrow> u64 \<Rightarrow> u64 \<Rightarrow> ('c, 't) pool \<Rightarrow> (u64 option \<times> u8 list \<times> ('c, 't) pool) outcome" where
  "readRandomAccess C T s data nbytes offsetBytes p =
     read C T s (access_length nbytes offsetBytes) (offsetBytes div BUFFER_CHUNK_SIZE)
       (access_left offsetBytes) (access_right nbytes offsetBytes) data p"

end
