(* ===== verification/Pool_Reading.thy ===== *)
theory Pool_Reading
  imports Buffer_Pool
begin

text \<open>
  The copy loop of \<open>read\<close> against the stream of chunks the producer pushed: where the
  indices stay inside the ring, which bytes arrive in the caller's buffer, and the
  arithmetic of \<open>readRandomAccess\<close>.
\<close>

locale boost_rings = cr: circular_buffer C + time_ring T
  for C :: "('c, buffer_chunk) circ_ops" and T :: "('t, u32) circ_ops"
begin

abbreviation chunks :: "('c, 't) pool \<Rightarrow> buffer_chunk list" where
  "chunks p \<equiv> cb_elems C (mCircBuf p)"

abbreviation capacity :: "('c, 't) pool \<Rightarrow> nat" where
  "capacity p \<equiv> unat (cb_capacity C (mCircBuf p))"

end

interpretation lbr: boost_rings
  "list_ring :: (buffer_chunk bounded_list, buffer_chunk) circ_ops"
  "list_ring :: (u32 bounded_list, u32) circ_ops"
  by unfold_locales

section \<open>Arithmetic of a random access\<close>

lemma access_left_nat: "unat (access_left ob) = unat ob mod 9024"
  by (simp add: access_left_def BUFFER_CHUNK_SIZE_eq unat_mod)

lemma access_left_less [simp]: "access_left ob < BUFFER_CHUNK_SIZE"
  by (simp add: word_less_nat_alt access_left_nat)

lemma access_right_less [simp]: "access_right n ob < BUFFER_CHUNK_SIZE"
  by (simp add: access_right_def BUFFER_CHUNK_SIZE_eq word_less_nat_alt unat_mod)

lemma access_right_nat:
  assumes "unat n + 9024 < 2 ^ 64"
  shows "unat (access_right n ob) = (9024 - (unat ob mod 9024 + unat n) mod 9024) mod 9024"
proof -
  have "unat (access_left ob + n) = unat ob mod 9024 + unat n"
    using assms by (subst unat_add_bounded) (simp_all add: access_left_nat)
  then have m: "unat ((access_left ob + n) mod BUFFER_CHUNK_SIZE) = (unat ob mod 9024 + unat n) mod 9024"
    by (simp add: unat_mod BUFFER_CHUNK_SIZE_eq)
  then have "(access_left ob + n) mod BUFFER_CHUNK_SIZE \<le> BUFFER_CHUNK_SIZE"
    by (simp add: word_le_nat_alt)
  with m show ?thesis
    by (simp add: access_right_def unat_mod unat_sub_le BUFFER_CHUNK_SIZE_eq)
qed

lemma round_up_to_chunk:
  fixes x c :: nat
  assumes "0 < c"
  shows "c dvd x + (c - x mod c) mod c"
proof (cases "x mod c = 0")
  case True
  then show ?thesis by (simp add: mod_eq_0_iff_dvd)
next
  case False
  then have "(c - x mod c) mod c = c - x mod c"
    using assms by (intro mod_less) linarith
  moreover have "x + (c - x mod c) = c * (x div c + 1)"
    using mod_less_divisor [OF assms, of x] mult_div_mod_eq [of c x]
    unfolding distrib_left by linarith
  ultimately show ?thesis by (simp only: dvd_triv_left)
qed

lemma access_length_nat:
  assumes "unat n + 18048 < 2 ^ 64"
  shows "unat (access_length n ob) * 9024 =
           unat (access_left ob) + unat (access_right n ob) + unat n"
proof -
  let ?l = "unat (access_left ob)" and ?r = "unat (access_right n ob)"
  have lr: "?l < 9024" "?r < 9024"
    using access_left_less [of ob] access_right_less [of n ob]
    unfolding word_less_nat_alt chunk_bytes_eq .
  have bound: "?l + ?r + unat n < 2 ^ 64" using lr assms by linarith
  then have lr_add: "unat (access_left ob + access_right n ob) = ?l + ?r"
    by (intro unat_add_bounded) linarith
  have s: "unat (access_left ob + access_right n ob + n) = ?l + ?r + unat n"
    using unat_add_bounded [of "access_left ob + access_right n ob" n] bound
    unfolding lr_add .
  have "unat n + 9024 < 2 ^ 64" using assms by linarith
  from access_right_nat [OF this, of ob] have r: "?r = (9024 - (?l + unat n) mod 9024) mod 9024"
    unfolding access_left_nat .
  have "9024 dvd ?l + unat n + ?r"
    unfolding r by (rule round_up_to_chunk) simp
  then have "9024 dvd ?l + ?r + unat n" by (simp only: ac_simps)
  then have "(?l + ?r + unat n) div 9024 * 9024 = ?l + ?r + unat n"
    by (rule dvd_div_mult_self)
  moreover have "unat (access_length n ob) = (?l + ?r + unat n) div 9024"
    unfolding access_length_def unat_div s chunk_bytes_eq ..
  ultimately show ?thesis by (simp only:)
qed

lemma access_offset_nat: "unat (ob div BUFFER_CHUNK_SIZE) = unat ob div 9024"
  by (simp add: unat_div BUFFER_CHUNK_SIZE_eq)

section \<open>One iteration of the loop\<close>

lemma at_position_simps [simp]:
  "mCircBuf (at_position i p) = mCircBuf p" "mTotalBufCount (at_position i p) = mTotalBufCount p"
  "mGotLastBuffer (at_position i p) = mGotLastBuffer p"
  "mLastBufferSize (at_position i p) = mLastBufferSize p"
  "at_position j (at_position i p) = at_position j p"
  by (simp_all add: at_position_def setReadPosition_def)

lemma copy_size_at_position [simp]: "copy_size len l r i (at_position j p) = copy_size len l r i p"
  by (simp add: copy_size_def Let_def)

lemma start_pos_at_position [simp]: "start_pos C offset i (at_position j p) = start_pos C offset i p"
  by (simp add: start_pos_def)

lemma c_int_add_size: "of_nat k + ucast (n :: u64) = (of_nat (k + unat n) :: c_int)"
  by (simp add: unsigned_of_nat)

context boost_rings
begin

text \<open>The bytes that iteration \<open>i\<close> copies.\<close>

definition piece :: "u64 \<Rightarrow> u64 \<Rightarrow> u64 \<Rightarrow> u64 \<Rightarrow> ('c, 't) pool \<Rightarrow> u64 \<Rightarrow> u8 list" where
  "piece len offset l r p i =
     take (unat (copy_size len l r i p))
       (drop (unat (left_skip l i)) (chunk_data (chunks p ! unat (start_pos C offset i p))))"

definition chunk_ok :: "u64 \<Rightarrow> u64 \<Rightarrow> u64 \<Rightarrow> u64 \<Rightarrow> ('c, 't) pool \<Rightarrow> u64 \<Rightarrow> bool" where
  "chunk_ok len offset l r p i \<longleftrightarrow>
     unat (start_pos C offset i p) < length (chunks p) \<and>
     unat (left_skip l i) + unat (copy_size len l r i p) \<le> 9024"

lemma piece_at_position [simp]:
  "piece len offset l r (at_position j p) i = piece len offset l r p i"
  "chunk_ok len offset l r (at_position j p) i = chunk_ok len offset l r p i"
  by (simp_all add: piece_def chunk_ok_def)

lemma length_piece:
  "chunk_ok len offset l r p i \<Longrightarrow> length (piece len offset l r p i) = unat (copy_size len l r i p)"
  unfolding chunk_ok_def piece_def by (simp add: min_def, linarith)

lemma read_chunk_ok:
  assumes ok: "chunk_ok len offset l r p i"
    and room: "k + length (piece len offset l r p i) \<le> length out" and small: "length out < 2 ^ 31"
  shows "read_chunk C len offset l r i (of_nat k, out, p) =
           Inr (of_nat (k + length (piece len offset l r p i)),
                take k out @ piece len offset l r p i @ drop (k + length (piece len offset l r p i)) out,
                at_position (start_pos C offset i p) p)"
proof -
  let ?n = "copy_size len l r i p"
  note n = length_piece [OF ok]
  have k: "sint (of_nat k :: c_int) = int k" using room small by (intro sint_small) linarith
  have "unat ?n \<le> length (drop (unat (left_skip l i)) (chunk_data (chunks p ! unat (start_pos C offset i p))))"
    using ok unfolding chunk_ok_def length_drop length_chunk_data by linarith
  from memcpy_at_ok [OF this, of k out] room n
  have "memcpy_at out (int k) (drop (unat (left_skip l i)) (chunk_data (chunks p ! unat (start_pos C offset i p)))) ?n
      = Inr (take k out @ piece len offset l r p i @ drop (k + length (piece len offset l r p i)) out)"
    by (simp add: piece_def)
  with ok show ?thesis
    unfolding chunk_ok_def
    by (simp add: read_chunk_def Let_def cr.ring_at_in k c_int_add_size n del: of_nat_add)
qed

section \<open>The whole loop\<close>

definition pieces :: "u64 \<Rightarrow> u64 \<Rightarrow> u64 \<Rightarrow> u64 \<Rightarrow> ('c, 't) pool \<Rightarrow> nat \<Rightarrow> nat \<Rightarrow> u8 list" where
  "pieces len offset l r p i j = concat (map (\<lambda>k. piece len offset l r p (of_nat k)) [i..<j])"

lemma pieces_at_position [simp]:
  "pieces len offset l r (at_position x p) i j = pieces len offset l r p i j"
  by (simp add: pieces_def)

lemma pieces_first:
  "unat i < j \<Longrightarrow> pieces len offset l r p (unat i) j =
     piece len offset l r p i @ pieces len offset l r p (unat i + 1) j"
  by (simp add: pieces_def upt_conv_Cons)

text \<open>The position the loop leaves behind: that of its last iteration.\<close>

definition last_position :: "u64 \<Rightarrow> u64 \<Rightarrow> u64 \<Rightarrow> ('c, 't) pool \<Rightarrow> ('c, 't) pool" where
  "last_position len offset i p =
     (if i < len then at_position (start_pos C offset (len - 1) p) p else p)"

lemma last_position_step:
  assumes "i < len"
  shows "last_position len offset (i + 1) (at_position (start_pos C offset i p) p) =
           last_position len offset i p"
proof (cases "i + 1 < len")
  case True
  with assms show ?thesis by (simp add: last_position_def)
next
  case False
  with unat_inc [OF assms] assms have "unat len = unat i + 1"
    by (simp add: word_less_nat_alt)
  then have "len = i + 1" using unat_inc [OF assms] by (simp add: word_unat_eq_iff)
  with assms False show ?thesis by (simp add: last_position_def)
qed

lemma take_drop_join:
  "take (k + length xs) (take k out @ xs @ drop (k + length xs) out) = take k out @ xs"
  if "k + length xs \<le> length out" for out :: "'z list"
  using that by simp

lemma read_loop_ok:
  assumes "\<And>j. i \<le> j \<Longrightarrow> j < len \<Longrightarrow> chunk_ok len offset l r p j"
    and "k + length (pieces len offset l r p (unat i) (unat len)) \<le> length out"
    and "length out < 2 ^ 31"
  shows "read_loop C len offset l r i (of_nat k, out, p) =
           Inr (of_nat (k + length (pieces len offset l r p (unat i) (unat len))),
                take k out @ pieces len offset l r p (unat i) (unat len) @
                  drop (k + length (pieces len offset l r p (unat i) (unat len))) out,
                last_position len offset i p)"
  using assms
proof (induction "unat len - unat i" arbitrary: i k out p rule: less_induct)
  case less
  show ?case
  proof (cases "i < len")
    case False
    then have "pieces len offset l r p (unat i) (unat len) = []"
      by (simp add: pieces_def word_less_nat_alt)
    with False show ?thesis by (simp add: read_loop.simps [of C len] last_position_def)
  next
    case True
    then have lt: "unat i < unat len" by (simp add: word_less_nat_alt)
    note inc = unat_inc [OF True]
    let ?x = "piece len offset l r p i" and ?rest = "pieces len offset l r p (unat i + 1) (unat len)"
    let ?out = "take k out @ ?x @ drop (k + length ?x) out"
    let ?p = "at_position (start_pos C offset i p) p"
    note first = pieces_first [OF lt, of len offset l r p]
    have room: "k + length ?x + length ?rest \<le> length out" using less.prems(2) by (simp add: first)
    have here: "chunk_ok len offset l r p i" by (rule less.prems(1) [OF order_refl True])
    have step: "read_chunk C len offset l r i (of_nat k, out, p) =
        Inr (of_nat (k + length ?x), ?out, ?p)"
      using room by (intro read_chunk_ok [OF here _ less.prems(3)]) linarith
    have IH: "read_loop C len offset l r (i + 1) (of_nat (k + length ?x), ?out, ?p) =
        Inr (of_nat (k + length ?x + length ?rest),
             take (k + length ?x) ?out @ ?rest @ drop (k + length ?x + length ?rest) ?out,
             last_position len offset (i + 1) ?p)"
      using less.hyps [of "i + 1" ?p "k + length ?x" ?out] lt room less.prems(3) inc
        less.prems(1) True
      by (simp add: word_le_nat_alt)
    have "take (k + length ?x) ?out = take k out @ ?x"
      using room by (intro take_drop_join) linarith
    moreover have "drop (k + length ?x + length ?rest) ?out = drop (k + length ?x + length ?rest) out"
      using room by (simp add: add.commute)
    ultimately show ?thesis
      using IH True step by (simp add: read_loop.simps [of C len offset l r i] first last_position_step
          add.assoc del: of_nat_add)
  qed
qed

text \<open>The loop faults when it gets to an iteration whose index is outside the ring.\<close>

lemma read_loop_index_fault:
  assumes "\<And>j. i \<le> j \<Longrightarrow> j < m \<Longrightarrow> chunk_ok len offset l r p j"
    and "length (chunks p) \<le> unat (start_pos C offset m p)" and "i \<le> m" and "m < len"
    and "k + length (pieces len offset l r p (unat i) (unat m)) \<le> length out"
    and "length out < 2 ^ 31"
  shows "read_loop C len offset l r i (of_nat k, out, p) = Inl RingIndexOutOfRange"
  using assms
proof (induction "unat m - unat i" arbitrary: i k out p rule: less_induct)
  case less
  have i_len: "i < len" using less.prems(3,4) by (rule le_less_trans)
  show ?case
  proof (cases "i = m")
    case True
    with less.prems(2) have "read_chunk C len offset l r i (of_nat k, out, p) = Inl RingIndexOutOfRange"
      by (simp add: read_chunk_def Let_def cr.ring_at_out)
    with i_len show ?thesis by (simp add: read_loop.simps [of C len])
  next
    case False
    with less.prems(3) have i_m: "i < m" by simp
    then have lt: "unat i < unat m" by (simp add: word_less_nat_alt)
    note inc = unat_inc [OF i_m]
    let ?x = "piece len offset l r p i"
    let ?out = "take k out @ ?x @ drop (k + length ?x) out"
    let ?p = "at_position (start_pos C offset i p) p"
    note first = pieces_first [OF lt, of len offset l r p]
    have room: "k + length ?x + length (pieces len offset l r p (unat i + 1) (unat m)) \<le> length out"
      using less.prems(5) by (simp add: first)
    have here: "chunk_ok len offset l r p i" by (rule less.prems(1) [OF order_refl i_m])
    have step: "read_chunk C len offset l r i (of_nat k, out, p) =
        Inr (of_nat (k + length ?x), ?out, ?p)"
      using room by (intro read_chunk_ok [OF here _ less.prems(6)]) linarith
    have "read_loop C len offset l r (i + 1) (of_nat (k + length ?x), ?out, ?p) =
        Inl RingIndexOutOfRange"
      using less.hyps [of "i + 1" ?p "k + length ?x" ?out] lt room less.prems inc
      by (simp add: word_le_nat_alt)
    with i_len step show ?thesis by (simp add: read_loop.simps [of C len offset l r i] del: of_nat_add)
  qed
qed

end

end
