(* ===== verification/Pool_Correct.thy ===== *)
theory Pool_Correct
  imports Pool_Reading
begin

text \<open>
  The buffer pool against its specification, the stream of chunks the producer pushed: the
  ring holds the last chunks of the stream, a push appends to it, a read returns a slice of
  its bytes.
\<close>

section \<open>The stream a pool stands for\<close>

text \<open>
  \<open>pool_represents\<close>: the ring is an end piece of the stream. \<open>pool_holds\<close>: it is
  the longest end piece that fits, which is what the checks of \<open>read\<close> rely on.
\<close>

definition pool_represents ::
  "('c, buffer_chunk) circ_ops \<Rightarrow> buffer_chunk list \<Rightarrow> ('c, 't) pool \<Rightarrow> bool" where
  "pool_represents C stream p \<longleftrightarrow>
     unat (mTotalBufCount p) = length stream \<and> suffix (cb_elems C (mCircBuf p)) stream"

definition pool_holds ::
  "('c, buffer_chunk) circ_ops \<Rightarrow> buffer_chunk list \<Rightarrow> ('c, 't) pool \<Rightarrow> bool" where
  "pool_holds C stream p \<longleftrightarrow>
     unat (mTotalBufCount p) = length stream \<and>
     cb_elems C (mCircBuf p) = drop (length stream - unat (cb_capacity C (mCircBuf p))) stream"

text \<open>
  What the checks of \<open>read\<close> leave: the range is inside the stream, what is in front
  of it is still in the ring, and the padding leaves something of each chunk.
\<close>

definition in_window ::
  "('c, buffer_chunk) circ_ops \<Rightarrow> buffer_chunk list \<Rightarrow> u64 \<Rightarrow> u64 \<Rightarrow> ('c, 't) pool \<Rightarrow> bool" where
  "in_window C stream len offset p \<longleftrightarrow>
     unat offset + unat len \<le> length stream \<and>
     length stream - unat offset \<le> length (cb_elems C (mCircBuf p))"

definition padding_ok :: "u64 \<Rightarrow> u64 \<Rightarrow> u64 \<Rightarrow> bool" where
  "padding_ok len l r \<longleftrightarrow>
     0 < len \<and> unat l < 9024 \<and> unat r < 9024 \<and> (len = 1 \<longrightarrow> unat l + unat r \<le> 9024)"

text \<open>
  The truncation of the last buffer does not come into play: the stream is open, or its
  last buffer is full, or the read is too short for its loop index to reach the last chunk.
\<close>

definition whole_chunks :: "('c, 't) pool \<Rightarrow> u64 \<Rightarrow> bool" where
  "whole_chunks p len \<longleftrightarrow> \<not> mGotLastBuffer p \<or> len < mTotalBufCount p \<or> 9024 \<le> unat (mLastBufferSize p)"

text \<open>The bytes of a range, as the stream has them.\<close>

definition range_bytes :: "buffer_chunk list \<Rightarrow> nat \<Rightarrow> nat \<Rightarrow> nat \<Rightarrow> nat \<Rightarrow> u8 list" where
  "range_bytes stream len offset l r =
     take (len * 9024 - l - r) (drop (offset * 9024 + l) (stream_bytes stream))"

text \<open>The pool a copied range leaves behind, before and after the throttle let the reader go.\<close>

definition after_copy ::
  "('c, buffer_chunk) circ_ops \<Rightarrow> u64 \<Rightarrow> u64 \<Rightarrow> ('c, 't) pool \<Rightarrow> ('c, 't) pool" where
  "after_copy C len offset p = at_position (start_pos C offset (len - 1) p) p"

definition after_read ::
  "('c, buffer_chunk) circ_ops \<Rightarrow> ('t, u32) circ_ops \<Rightarrow> u64 \<Rightarrow> u64 \<Rightarrow> ('c, 't) pool \<Rightarrow>
     ('c, 't) pool" where
  "after_read C T len offset p =
     (let q = after_copy C len offset p in q\<lparr>mThrottle := snd (wait_enter T (mThrottle q))\<rparr>)"

definition throttled ::
  "('c, buffer_chunk) circ_ops \<Rightarrow> ('t, u32) circ_ops \<Rightarrow> u64 \<Rightarrow> u64 \<Rightarrow> ('c, 't) pool \<Rightarrow> bool" where
  "throttled C T len offset p \<longleftrightarrow> fst (wait_enter T (mThrottle (after_copy C len offset p)))"

text \<open>A schedule in which only the throttle thread runs, \<open>k\<close> steps of it.\<close>

definition thread_steps :: "nat \<Rightarrow> pool_event list list" where
  "thread_steps k = replicate k [ThrottleThread True]"

text \<open>What the throttle leaves alone, and the last position it sets.\<close>

definition released_as :: "('c, 't) pool \<Rightarrow> ('c, 't) pool \<Rightarrow> bool" where
  "released_as p q \<longleftrightarrow>
     mCircBuf q = mCircBuf p \<and> mTotalBufCount q = mTotalBufCount p \<and>
     mLastReadLocation q = mLastReadLocation p \<and>
     mTimePeriodBuffer (mThrottle q) = mTimePeriodBuffer (mThrottle p) \<and>
     mLastPos (mThrottle q) = mPos (mThrottle p)"

context boost_rings
begin

lemma holds_represents: "pool_holds C stream p \<Longrightarrow> pool_represents C stream p"
  by (simp add: pool_holds_def pool_represents_def suffix_drop)

lemma holds_length: "pool_holds C stream p \<Longrightarrow> length (chunks p) = min (length stream) (capacity p)"
  by (simp add: pool_holds_def)

lemma holds_new: "pool_holds C [] (pool_new C T n)"
  by (simp add: pool_holds_def pool_new_def)

lemma holds_clear: "pool_holds C [] (pool_clear C T p)"
  by (simp add: pool_holds_def pool_clear_def)

text \<open>Only the chunk ring and the counter matter.\<close>

lemma holds_cong:
  "mCircBuf q = mCircBuf p \<Longrightarrow> mTotalBufCount q = mTotalBufCount p \<Longrightarrow> pool_holds C stream q = pool_holds C stream p"
  by (simp add: pool_holds_def)

lemma push_ring_holds:
  assumes "chunks p = drop (length stream - capacity p) stream"
  shows "cb_elems C (cb_push_back C b (mCircBuf p)) =
           drop (length stream + 1 - capacity p) (stream @ [b])"
proof (cases "length stream \<le> capacity p")
  case True
  with assms show ?thesis by simp
next
  case False
  with assms have "length (chunks p) = capacity p" by simp
  with False assms show ?thesis
    by (cases "capacity p") (simp_all add: Suc_diff_Suc)
qed

lemma push_commit_ok:
  assumes "pool_holds C stream p" and "0 < capacity p" and "length stream + 1 < 2 ^ 64"
  shows "\<exists>p'. push_commit C b lastBuffer lastBufferSize p = Inr (hd (chunks p'), p') \<and>
           pool_holds C (stream @ [b]) p' \<and> capacity p' = capacity p \<and>
           mGotLastBuffer p' = (mGotLastBuffer p \<or> lastBuffer) \<and>
           mLastBufferSize p' = (if lastBuffer then lastBufferSize else mLastBufferSize p) \<and>
           mThrottle p' = mThrottle p \<and> mAborting p' = mAborting p \<and>
           exitPending p' = exitPending p \<and> mLastReadLocation p' = mLastReadLocation p"
proof -
  let ?buf = "cb_push_back C b (mCircBuf p)"
  have elems: "cb_elems C ?buf = drop (length stream + 1 - capacity p) (stream @ [b])"
    using assms(1) by (intro push_ring_holds) (simp add: pool_holds_def)
  then have "cb_elems C ?buf \<noteq> []" using assms(2) by (simp del: cr.elems_push_back)
  then have front: "ring_front C ?buf = Inr (hd (cb_elems C ?buf))" by (rule cr.ring_front_in)
  have "unat (mTotalBufCount p + 1) = length stream + 1"
    using assms(1,3) by (subst unat_add_bounded) (simp_all add: pool_holds_def)
  with front elems show ?thesis
    unfolding push_commit_def Let_def pool_holds_def by (simp del: cr.elems_push_back)
qed

lemma push_commit_no_capacity:
  assumes "capacity p = 0"
  shows "push_commit C b lastBuffer lastBufferSize p = Inl RingFrontOfEmpty"
proof -
  have "cb_elems C (cb_push_back C b (mCircBuf p)) = []" using assms by simp
  then have "ring_front C (cb_push_back C b (mCircBuf p)) = Inl RingFrontOfEmpty"
    by (rule cr.ring_front_empty)
  then show ?thesis by (simp add: push_commit_def Let_def)
qed

section \<open>clearToLastRead\<close>

text \<open>The pool keeps the chunks up to the last one read; later ones leave the stream.\<close>

lemma clearToLastRead_cuts:
  assumes "unat (mLastReadLocation p) < length (chunks p)"
  shows "\<exists>p'. clearToLastRead C T p = Inr p' \<and>
           mTotalBufCount p' =
             mTotalBufCount p - (cb_size C (mCircBuf p) - mLastReadLocation p - 1) \<and>
           unat (cb_size C (mCircBuf p) - mLastReadLocation p - 1) =
             length (chunks p) - unat (mLastReadLocation p) - 1 \<and>
           chunks p' = take (unat (mLastReadLocation p) + 1) (chunks p) \<and>
           cb_capacity C (mCircBuf p') = cb_capacity C (mCircBuf p) \<and>
           mLastReadLocation p' = mLastReadLocation p \<and>
           throttle_clearToLastRead T (mThrottle p) = Inr (mThrottle p') \<and> \<not> mAborting p'"
proof -
  let ?n = "cb_size C (mCircBuf p)" and ?loc = "mLastReadLocation p"
  let ?e = "?n - ?loc - 1"
  have lt: "?loc < ?n" and ne: "\<not> cb_empty C (mCircBuf p)"
    using assms by (auto simp only: cr.less_size_iff cr.empty_elems list.size)
  have e: "unat ?e = length (chunks p) - unat ?loc - 1"
    using lt by (simp only: unat_sub_sub_one cr.size_elems)
  then have e_le: "unat ?e \<le> length (chunks p)" by linarith
  have keep: "length (chunks p) - unat ?e = unat ?loc + 1" using e assms by linarith
  let ?buf = "cb_erase_end C ?e (mCircBuf p)"
  have buf: "cb_elems C ?buf = take (unat ?loc + 1) (chunks p)"
    "cb_capacity C ?buf = cb_capacity C (mCircBuf p)"
    using cr.elems_erase_end [OF e_le] cr.capacity_erase_end [OF e_le] unfolding keep by simp_all
  obtain t where t: "throttle_clearToLastRead T (mThrottle p) = Inr t"
    using clearToLastRead_total by blast
  let ?p = "p\<lparr>mCircBuf := ?buf, mTotalBufCount := mTotalBufCount p - ?e, mAborting := False, mThrottle := t\<rparr>"
  have "clearToLastRead C T p = Inr ?p"
    using t by (simp add: clearToLastRead_def Let_def ne [simplified] lt cr.ring_erase_end_in [OF e_le])
  with buf t e show ?thesis by (intro exI [of _ ?p]) simp
qed

lemma clearToLastRead_drops:
  assumes rep: "pool_represents C stream p" and loc: "unat (mLastReadLocation p) < length (chunks p)"
  shows "\<exists>p'. clearToLastRead C T p = Inr p' \<and>
           pool_represents C (take (length stream - (length (chunks p) - unat (mLastReadLocation p) - 1)) stream) p' \<and>
           chunks p' = take (unat (mLastReadLocation p) + 1) (chunks p) \<and> \<not> mAborting p'"
proof -
  let ?k = "length (chunks p) - unat (mLastReadLocation p) - 1"
  let ?e = "cb_size C (mCircBuf p) - mLastReadLocation p - 1"
  from clearToLastRead_cuts [OF loc] obtain p' where p': "clearToLastRead C T p = Inr p'"
    "mTotalBufCount p' = mTotalBufCount p - ?e" "unat ?e = ?k"
    "chunks p' = take (unat (mLastReadLocation p) + 1) (chunks p)" "\<not> mAborting p'" by blast
  have le: "length (chunks p) \<le> length stream"
    using rep by (auto simp: pool_represents_def dest: suffix_length_le)
  then have "?e \<le> mTotalBufCount p"
    using p'(3) rep unfolding word_le_nat_alt pool_represents_def by linarith
  then have "unat (mTotalBufCount p - ?e) = length stream - ?k"
    using p'(3) rep by (simp only: unat_sub_le pool_represents_def)
  moreover have "suffix (take (length (chunks p) - ?k) (chunks p)) (take (length stream - ?k) stream)"
    using rep by (intro suffix_drop_both) (simp_all add: pool_represents_def)
  moreover have "length (chunks p) - ?k = unat (mLastReadLocation p) + 1" using loc by linarith
  ultimately have "pool_represents C (take (length stream - ?k) stream) p'"
    unfolding pool_represents_def p'(2,4) by simp
  with p' show ?thesis by blast
qed

lemma clearToLastRead_nothing:
  assumes "length (chunks p) \<le> unat (mLastReadLocation p)" and "chunks p \<noteq> []"
  shows "\<exists>t. throttle_clearToLastRead T (mThrottle p) = Inr t \<and>
           clearToLastRead C T p = Inr (p\<lparr>mAborting := False, mThrottle := t\<rparr>)"
proof -
  obtain t where t: "throttle_clearToLastRead T (mThrottle p) = Inr t"
    using clearToLastRead_total by blast
  have "\<not> mLastReadLocation p < cb_size C (mCircBuf p)"
    using assms(1) by (simp add: cr.less_size_iff)
  with t assms(2) show ?thesis by (simp add: clearToLastRead_def Let_def)
qed

section \<open>The slice a read copies\<close>

lemma start_pos_nat:
  assumes rep: "pool_represents C stream p" and window: "length stream - unat offset \<le> length (chunks p)"
    and i: "unat offset + unat i \<le> length stream"
  shows "unat (start_pos C offset i p) = length (chunks p) - (length stream - unat offset) + unat i"
proof -
  have total: "unat (mTotalBufCount p) = length stream" using rep by (simp add: pool_represents_def)
  have "unat (mTotalBufCount p - offset) = length stream - unat offset"
    using i total by (subst unat_sub_le) (simp_all add: word_le_nat_alt)
  moreover have m: "min (cb_size C (mCircBuf p)) (cb_capacity C (mCircBuf p)) = cb_size C (mCircBuf p)"
    using cr.size_le_capacity by (simp add: min_def)
  ultimately have start: "unat (cb_size C (mCircBuf p) - (mTotalBufCount p - offset)) =
      length (chunks p) - (length stream - unat offset)"
    using window by (subst unat_sub_le) (simp_all add: word_le_nat_alt)
  have "length (chunks p) < 2 ^ 64"
    using unat_less_u64 [of "cb_size C (mCircBuf p)"] by simp
  then have "unat (cb_size C (mCircBuf p) - (mTotalBufCount p - offset)) + unat i < 2 ^ 64"
    using start window i by linarith
  with start show ?thesis
    unfolding start_pos_def Let_def m by (subst unat_add_bounded) simp_all
qed

lemma stream_at:
  assumes rep: "pool_represents C stream p" and window: "in_window C stream len offset p" and "i < len"
  shows "unat (start_pos C offset i p) < length (chunks p)"
    and "chunks p ! unat (start_pos C offset i p) = stream ! (unat offset + unat i)"
proof -
  have w: "unat offset + unat i < length stream" "length stream - unat offset \<le> length (chunks p)"
    using assms(2,3) by (auto simp: in_window_def word_less_nat_alt)
  have pos: "unat (start_pos C offset i p) =
      length (chunks p) - (length stream - unat offset) + unat i"
    using start_pos_nat [OF rep w(2)] w(1) by simp
  have suf: "suffix (chunks p) stream" using rep by (simp add: pool_represents_def)
  then have le: "length (chunks p) \<le> length stream" by (rule suffix_length_le)
  show lt: "unat (start_pos C offset i p) < length (chunks p)" using pos w by linarith
  have "length stream - length (chunks p) + unat (start_pos C offset i p) = unat offset + unat i"
    using pos w le by linarith
  with nth_suffix [OF suf lt] show
    "chunks p ! unat (start_pos C offset i p) = stream ! (unat offset + unat i)" by simp
qed

lemma skip_nat:
  "unat (left_skip l i) = (if unat i = 0 then unat l else 0)"
  "0 < len \<Longrightarrow> unat (right_skip len r i) = (if unat i = unat len - 1 then unat r else 0)"
proof -
  show "unat (left_skip l i) = (if unat i = 0 then unat l else 0)"
    by (simp add: left_skip_def unat_eq_zero)
  assume "0 < len"
  then have "unat (len - 1) = unat len - 1"
    using unat_sub_le [of 1 len] by (simp add: word_le_nat_alt word_less_nat_alt)
  then show "unat (right_skip len r i) = (if unat i = unat len - 1 then unat r else 0)"
    by (simp add: right_skip_def word_unat_eq_iff)
qed

lemma copy_size_nat:
  assumes "padding_ok len l r" and "whole_chunks p len" and "i < len"
  shows "unat (copy_size len l r i p) = 9024 - unat (left_skip l i) - unat (right_skip len r i)"
proof -
  have len: "0 < len" using assms(1) by (simp add: padding_ok_def)
  have one: "unat len = 1 \<Longrightarrow> unat l + unat r \<le> 9024"
    using assms(1) by (simp add: padding_ok_def word_unat_eq_iff)
  have bounds: "unat l < 9024" "unat r < 9024" using assms(1) by (simp_all add: padding_ok_def)
  have i: "unat i < unat len" using assms(3) by (simp add: word_less_nat_alt)
  have "unat (left_skip l i) + unat (right_skip len r i) \<le> 9024"
    using one bounds i unfolding skip_nat(1) skip_nat(2) [OF len] by auto
  then have full: "unat (BUFFER_CHUNK_SIZE - left_skip l i - right_skip len r i) =
      9024 - unat (left_skip l i) - unat (right_skip len r i)"
    by (subst unat_sub_le; (subst unat_sub_le)?) (simp_all add: word_le_nat_alt unat_sub_le)
  let ?full = "BUFFER_CHUNK_SIZE - left_skip l i - right_skip len r i"
  have "copy_size len l r i p = ?full"
  proof (cases "mGotLastBuffer p \<and> i = mTotalBufCount p - 1")
    case False
    then show ?thesis by (simp only: copy_size_def Let_def if_False)
  next
    case True
    then have "\<not> len < mTotalBufCount p"
      using i unat_sub_le [of 1 "mTotalBufCount p"] by (auto simp: word_less_nat_alt word_le_nat_alt)
    with True assms(2) have "9024 \<le> unat (mLastBufferSize p)" by (auto simp: whole_chunks_def)
    then have "?full \<le> mLastBufferSize p" unfolding word_le_nat_alt full by linarith
    with True show ?thesis by (simp add: copy_size_def Let_def min_def)
  qed
  with full show ?thesis by simp
qed

lemma pieces_slice:
  assumes rep: "pool_represents C stream p" and window: "in_window C stream len offset p"
    and pad: "padding_ok len l r" and whole: "whole_chunks p len"
  defines "cs \<equiv> map chunk_data (take (unat len) (drop (unat offset) stream))"
  shows "\<And>i. i < len \<Longrightarrow> chunk_ok len offset l r p i"
    and "pieces len offset l r p 0 (unat len) =
           concat (map (block_slice 9024 (unat l) (unat r) cs) [0..<length cs])"
proof -
  have len: "0 < len" using pad by (simp add: padding_ok_def)
  have cs: "length cs = unat len"
    using window unfolding cs_def in_window_def by (simp add: min_def, linarith)
  show ok: "chunk_ok len offset l r p i" if i: "i < len" for i
    using stream_at(1) [OF rep window i] copy_size_nat [OF pad whole i] pad
    unfolding chunk_ok_def skip_nat(1) padding_ok_def by auto
  have "piece len offset l r p (of_nat k) = block_slice 9024 (unat l) (unat r) cs k"
    if k: "k < unat len" for k
  proof -
    have k_nat: "unat (of_nat k :: u64) = k"
      using less_trans [OF k unat_less_u64] by (intro unat_of_nat_u64) simp
    with k have i: "(of_nat k :: u64) < len" by (simp add: word_less_nat_alt)
    have "k < length stream - unat offset"
      using k window unfolding in_window_def by linarith
    with k have "cs ! k = chunk_data (stream ! (unat offset + k))"
      by (simp add: cs_def)
    then have "chunk_data (chunks p ! unat (start_pos C offset (of_nat k) p)) = cs ! k"
      using stream_at(2) [OF rep window i] k_nat by simp
    then show ?thesis
      unfolding piece_def block_slice_def Let_def copy_size_nat [OF pad whole i]
        skip_nat(1) skip_nat(2) [OF len] k_nat cs by simp
  qed
  then show "pieces len offset l r p 0 (unat len) =
      concat (map (block_slice 9024 (unat l) (unat r) cs) [0..<length cs])"
    unfolding pieces_def cs by (intro arg_cong [where f = concat] map_cong) simp_all
qed

lemma padding_total:
  assumes "padding_ok len l r"
  shows "unat l + unat r \<le> unat len * 9024"
proof (cases "len = 1")
  case True
  with assms show ?thesis by (simp add: padding_ok_def)
next
  case False
  with assms have "2 \<le> unat len"
    using word_unat_eq_iff [of len 1] by (simp add: padding_ok_def word_less_nat_alt)
  with assms show ?thesis unfolding padding_ok_def by linarith
qed

lemma pieces_bytes:
  assumes rep: "pool_represents C stream p" and window: "in_window C stream len offset p"
    and pad: "padding_ok len l r" and whole: "whole_chunks p len"
  shows "pieces len offset l r p 0 (unat len) =
           range_bytes stream (unat len) (unat offset) (unat l) (unat r)"
proof -
  let ?cs = "map chunk_data (take (unat len) (drop (unat offset) stream))"
  have cs: "length ?cs = unat len"
    using window unfolding in_window_def by (simp add: min_def, linarith)
  have "0 < unat len" using pad by (simp add: padding_ok_def word_less_nat_alt)
  then have ne: "?cs \<noteq> []" using cs by auto
  have "pieces len offset l r p 0 (unat len) =
      take (length ?cs * 9024 - unat l - unat r) (drop (unat l) (concat ?cs))"
    unfolding pieces_slice(2) [OF rep window pad whole]
    using ne pad cs
    by (intro concat_block_slices) (auto simp: padding_ok_def word_unat_eq_iff)
  also have "concat ?cs = take (unat len * 9024) (drop (unat offset * 9024) (stream_bytes stream))"
    unfolding drop_stream_bytes take_stream_bytes by (simp add: stream_bytes_def)
  also have "take (length ?cs * 9024 - unat l - unat r) (drop (unat l) \<dots>) =
      take (unat len * 9024 - unat l - unat r) (drop (unat offset * 9024 + unat l) (stream_bytes stream))"
    unfolding cs using padding_total [OF pad] by (intro slice_of_slice) linarith
  finally show ?thesis unfolding range_bytes_def .
qed

lemma length_range_bytes:
  fixes p :: "('c, 't) pool"
  assumes "pool_represents C stream p" and "in_window C stream len offset p" and "padding_ok len l r"
  shows "length (range_bytes stream (unat len) (unat offset) (unat l) (unat r)) =
           unat len * 9024 - unat l - unat r"
proof -
  have "(unat offset + unat len) * 9024 \<le> length stream * 9024"
    using assms(2) by (intro mult_le_mono1) (simp add: in_window_def)
  with padding_total [OF assms(3)]
  have "unat len * 9024 - unat l - unat r \<le> length stream * 9024 - (unat offset * 9024 + unat l)"
    unfolding distrib_right by linarith
  then show ?thesis by (simp add: range_bytes_def)
qed

text \<open>
  The section under the write lock, when every iteration stays inside the ring: the caller's
  buffer gets the pieces and keeps the rest.
\<close>

lemma read_copy_pieces:
  assumes len: "0 < len" and ok: "\<And>i. i < len \<Longrightarrow> chunk_ok len offset l r p i"
    and room: "length (pieces len offset l r p 0 (unat len)) \<le> length out"
    and small: "length out < 2 ^ 31"
  shows "read_copy C len offset l r out p =
           Inr (Some (of_nat (length (pieces len offset l r p 0 (unat len)))),
                pieces len offset l r p 0 (unat len) @
                  drop (length (pieces len offset l r p 0 (unat len))) out,
                after_copy C len offset p)"
proof -
  have "chunks p \<noteq> []" using ok [OF len] by (auto simp: chunk_ok_def)
  moreover have "read_loop C len offset l r 0 (of_nat 0, out, p) =
      Inr (of_nat (0 + length (pieces len offset l r p 0 (unat len))),
           take 0 out @ pieces len offset l r p 0 (unat len) @
             drop (0 + length (pieces len offset l r p 0 (unat len))) out,
           last_position len offset 0 p)"
    using read_loop_ok [of 0 len offset l r p 0 out, OF ok] room small
    by (simp only: unat_0 add_0 simp_thms)
  ultimately show ?thesis
    using len by (simp add: read_copy_def last_position_def after_copy_def)
qed

lemma read_copy_range:
  fixes p :: "('c, 't) pool"
  assumes rep: "pool_represents C stream p" and window: "in_window C stream len offset p"
    and pad: "padding_ok len l r" and whole: "whole_chunks p len"
    and room: "unat len * 9024 - unat l - unat r \<le> length out" and small: "length out < 2 ^ 31"
  shows "read_copy C len offset l r out p =
           Inr (Some (of_nat (unat len * 9024 - unat l - unat r)),
                range_bytes stream (unat len) (unat offset) (unat l) (unat r) @
                  drop (unat len * 9024 - unat l - unat r) out,
                after_copy C len offset p)"
proof -
  have len: "0 < len" using pad by (simp add: padding_ok_def)
  show ?thesis
    using read_copy_pieces [OF len pieces_slice(1) [OF rep window pad whole] _ small] room
    unfolding pieces_bytes [OF rep window pad whole] length_range_bytes [OF rep window pad] by simp
qed

section \<open>read\<close>

text \<open>When the whole range is there, the checks let the call through to the copying.\<close>

lemma read_enter_available:
  assumes hold: "pool_holds C stream p" and "\<not> exitPending p"
    and pad: "padding_ok len l r" and avail: "unat offset + unat len \<le> length stream"
    and kept: "length stream - unat offset \<le> capacity p"
  shows "read_enter C len offset l r p = CopyNow" and "in_window C stream len offset p"
proof -
  have total: "unat (mTotalBufCount p) = length stream" using hold by (simp add: pool_holds_def)
  have len: "0 < unat len" using pad by (simp add: padding_ok_def word_less_nat_alt)
  have c1: "\<not> mTotalBufCount p \<le> offset"
    unfolding word_le_nat_alt total using avail len by linarith
  have c2: "\<not> BUFFER_CHUNK_SIZE \<le> l" "\<not> BUFFER_CHUNK_SIZE \<le> r"
    using pad by (simp_all add: padding_ok_def word_le_nat_alt)
  have "unat (mTotalBufCount p - offset) = length stream - unat offset"
    using c1 total by (subst unat_sub_le) (simp_all add: word_le_nat_alt)
  then have c3: "\<not> cb_capacity C (mCircBuf p) < mTotalBufCount p - offset"
    using kept by (simp add: word_less_nat_alt)
  have c4: "\<not> mTotalBufCount p < offset" "\<not> cb_capacity C (mCircBuf p) < len"
    using avail kept unfolding word_less_nat_alt total by linarith+
  have "unat (offset + len) = unat offset + unat len"
    using avail total unat_less_u64 [of "mTotalBufCount p"] by (subst unat_add_bounded) simp_all
  then have c5: "\<not> mTotalBufCount p < offset + len"
    using avail by (simp add: word_less_nat_alt total)
  show "read_enter C len offset l r p = CopyNow"
    using assms(2) c1 c2 c3 c4 c5 by (simp add: read_enter_def Let_def)
  show "in_window C stream len offset p"
    using avail kept by (simp add: in_window_def holds_length [OF hold])
qed

lemma read_finish_range:
  assumes "pool_represents C stream p" and "in_window C stream len offset p"
    and "padding_ok len l r" and "whole_chunks p len"
    and "unat len * 9024 - unat l - unat r \<le> length out" and "length out < 2 ^ 31"
    and "beforeCopy s = []"
  shows "read_finish C T s len offset l r out p =
           (let n = unat len * 9024 - unat l - unat r;
                bytes = range_bytes stream (unat len) (unat offset) (unat l) (unat r)
            in if throttled C T len offset p
               then andthen (throttle_block C T (duringThrottle s) (after_read C T len offset p))
                      (\<lambda>(released, q). Inr (if released then Some (of_nat n) else None, bytes @ drop n out, q))
               else Inr (Some (of_nat n), bytes @ drop n out, after_read C T len offset p))"
proof -
  have n: "unat len * 9024 - unat l - unat r < 2 ^ 31" using assms(5,6) by linarith
  show ?thesis
    using assms(7) read_copy_range [OF assms(1-6)]
    by (simp add: read_finish_def throttled_def after_read_def Let_def case_prod_beta
        scast_small [OF n, unfolded diff_diff_left] cong: if_cong)
qed

text \<open>
  A read of a range that the pool has: the bytes of the range arrive, unless the throttle
  holds the reader back when the schedule ends.
\<close>

lemma read_range:
  assumes "pool_holds C stream p" and "\<not> exitPending p"
    and "padding_ok len l r" and "unat offset + unat len \<le> length stream"
    and "length stream - unat offset \<le> capacity p" and "whole_chunks p len"
    and "unat len * 9024 - unat l - unat r \<le> length out" and "length out < 2 ^ 31"
    and "beforeCopy s = []"
  shows "read C T s len offset l r out p =
           (let n = unat len * 9024 - unat l - unat r;
                bytes = range_bytes stream (unat len) (unat offset) (unat l) (unat r)
            in if throttled C T len offset p
               then andthen (throttle_block C T (duringThrottle s) (after_read C T len offset p))
                      (\<lambda>(released, q). Inr (if released then Some (of_nat n) else None, bytes @ drop n out, q))
               else Inr (Some (of_nat n), bytes @ drop n out, after_read C T len offset p))"
proof -
  note enter = read_enter_available [OF assms(1-5)]
  have "pool_represents C stream p" using assms(1) by (rule holds_represents)
  from read_finish_range [OF this enter(2) assms(3,6-9)] enter(1) show ?thesis
    by (simp add: read_def)
qed

text \<open>A byte range inside the stream becomes a chunk range inside the stream.\<close>

lemma access_range:
  fixes n ob :: u64
  assumes "0 < n" and "unat ob + unat n \<le> length stream * 9024" and "unat n + 18048 < 2 ^ 64"
  defines "len \<equiv> access_length n ob" and "l \<equiv> access_left ob" and "r \<equiv> access_right n ob"
    and "offset \<equiv> ob div BUFFER_CHUNK_SIZE"
  shows "padding_ok len l r" and "unat offset + unat len \<le> length stream"
    and "unat len * 9024 - unat l - unat r = unat n"
    and "range_bytes stream (unat len) (unat offset) (unat l) (unat r) =
           take (unat n) (drop (unat ob) (stream_bytes stream))"
proof -
  have n: "0 < unat n" using assms(1) by (simp add: word_less_nat_alt)
  have len: "unat len * 9024 = unat l + unat r + unat n"
    unfolding len_def l_def r_def by (rule access_length_nat [OF assms(3)])
  have lr: "unat l < 9024" "unat r < 9024"
    using access_left_less [of ob] access_right_less [of n ob]
    unfolding l_def r_def word_less_nat_alt chunk_bytes_eq by simp_all
  have ob: "unat offset * 9024 + unat l = unat ob"
    unfolding offset_def l_def access_offset_nat access_left_nat by (rule div_mult_mod_eq)
  show "unat len * 9024 - unat l - unat r = unat n" using len by linarith
  then show "range_bytes stream (unat len) (unat offset) (unat l) (unat r) =
      take (unat n) (drop (unat ob) (stream_bytes stream))"
    unfolding range_bytes_def ob by simp
  have "0 < unat len" using len n by (cases "unat len") simp_all
  moreover have "unat l + unat r \<le> 9024" if "len = 1" using len that by simp
  ultimately show "padding_ok len l r" using lr by (simp add: padding_ok_def word_less_nat_alt)
  have "(unat offset + unat len) * 9024 < (length stream + 1) * 9024"
    using len lr(2) ob assms(2) unfolding distrib_right by linarith
  then show "unat offset + unat len \<le> length stream" unfolding mult_less_cancel2 by linarith
qed

lemma random_access_read:
  assumes hold: "pool_holds C stream p" and "\<not> exitPending p"
    and "0 < n" and "unat ob + unat n \<le> length stream * 9024"
    and kept: "length stream - unat ob div 9024 \<le> capacity p"
    and whole: "whole_chunks p (access_length n ob)"
    and room: "unat n \<le> length out" "length out < 2 ^ 31"
    and s: "beforeCopy s = []"
  defines "q \<equiv> after_read C T (access_length n ob) (ob div BUFFER_CHUNK_SIZE) p"
    and "out' \<equiv> take (unat n) (drop (unat ob) (stream_bytes stream)) @ drop (unat n) out"
  shows "readRandomAccess C T s out n ob p =
           (if throttled C T (access_length n ob) (ob div BUFFER_CHUNK_SIZE) p
            then andthen (throttle_block C T (duringThrottle s) q)
                   (\<lambda>(released, q'). Inr (if released then Some n else None, out', q'))
            else Inr (Some n, out', q))"
    and "in_window C stream (access_length n ob) (ob div BUFFER_CHUNK_SIZE) p"
    and "0 < access_length n ob"
proof -
  have "unat n + 18048 < 2 ^ 64" using room by simp
  note range = access_range [OF assms(3,4) this]
  have kept': "length stream - unat (ob div BUFFER_CHUNK_SIZE) \<le> capacity p"
    unfolding access_offset_nat by (rule kept)
  show "readRandomAccess C T s out n ob p =
      (if throttled C T (access_length n ob) (ob div BUFFER_CHUNK_SIZE) p
       then andthen (throttle_block C T (duringThrottle s) q)
              (\<lambda>(released, q'). Inr (if released then Some n else None, out', q'))
       else Inr (Some n, out', q))"
    using read_range [OF hold assms(2) range(1,2) kept' whole _ room(2) s] room(1)
    unfolding readRandomAccess_def range(3,4) Let_def q_def out'_def by (simp cong: if_cong)
  show "in_window C stream (access_length n ob) (ob div BUFFER_CHUNK_SIZE) p"
    by (rule read_enter_available(2) [OF hold assms(2) range(1,2) kept'])
  show "0 < access_length n ob" using range(1) by (simp add: padding_ok_def)
qed

section \<open>A throttled reader\<close>

text \<open>
  While the reader is in the throttle's \<open>wait\<close>, the only other thread taken into
  account here is the throttle thread; \<open>thread_steps k\<close> are \<open>k\<close> of its steps.
\<close>

lemma throttle_block_released:
  assumes "thread_live (mThrottle p)"
  shows "\<exists>k q. k \<le> release_rank (mThrottle p) \<and>
           throttle_block C T (thread_steps k) p = Inr (True, q) \<and>
           released_as p q"
  using assms
proof (induction "release_rank (mThrottle p)" arbitrary: p rule: less_induct)
  case less
  let ?t = "mThrottle p"
  show ?case
  proof (cases "wait_blocked ?t")
    case False
    then show ?thesis
      by (intro exI [of _ 0]) (simp add: thread_steps_def wait_poll_def released_as_def)
  next
    case True
    define t where "t = snd (wait_poll ?t)"
    have poll: "wait_poll ?t = (False, t)"
      using True wait_poll_iff [of ?t] by (simp add: t_def prod_eq_iff)
    have same: "wait_blocked t" "thread_live t" "release_rank t = release_rank ?t"
      "mPos t = mPos ?t" "mTimePeriodBuffer t = mTimePeriodBuffer ?t"
      using True less.prems unfolding t_def by (simp_all add: wait_poll_same)
    let ?q = "p\<lparr>mThrottle := loop_step T True t\<rparr>"
    have live: "thread_live (loop_step T True t)" by (rule thread_live_step [OF same(2)])
    have run: "throttle_block C T (thread_steps (Suc k)) p = throttle_block C T (thread_steps k) ?q" for k
      using poll by (simp add: thread_steps_def)
    have "\<exists>k q. k \<le> release_rank (mThrottle p) - 1 \<and>
           throttle_block C T (thread_steps k) ?q = Inr (True, q) \<and>
           released_as p q"
      using release_step [OF same(2,1)]
    proof
      assume "\<not> wait_blocked (loop_step T True t) \<and> mNotified (mCvThrottleChanged (loop_step T True t))"
      then show ?thesis
        using same by (intro exI [of _ 0]) (simp add: thread_steps_def wait_poll_def released_as_def)
    next
      assume "wait_blocked (loop_step T True t) \<and> release_rank (loop_step T True t) < release_rank t"
      then have "release_rank (mThrottle ?q) < release_rank ?t" using same by simp
      moreover from less.hyps [OF this] live obtain k q where
        "k \<le> release_rank (mThrottle ?q)" "throttle_block C T (thread_steps k) ?q = Inr (True, q)"
        "released_as ?q q" by auto
      ultimately show ?thesis
        using same by (intro exI [of _ k] exI [of _ q]) (simp add: released_as_def)
    qed
    moreover have "0 < release_rank ?t"
      using True by (auto simp: release_rank_def wait_blocked_def word_le_nat_alt)
    ultimately show ?thesis using run by (metis Suc_diff_1 Suc_le_mono)
  qed
qed

text \<open>
  A throttled read: enough steps of the throttle thread and it returns the same bytes as an
  unthrottled one.
\<close>

lemma after_read_live:
  assumes rep: "pool_represents C stream p" and window: "in_window C stream len offset p"
    and "0 < len" and run: "thread_running (mThrottle p)"
  shows "thread_live (mThrottle (after_read C T len offset p))"
    and "unat (mPos (mThrottle (after_read C T len offset p))) < length (chunks p)"
proof -
  let ?pos = "start_pos C offset (len - 1) p" and ?t = "mThrottle (after_copy C len offset p)"
  have "len - 1 < len" 
    using assms(3) unat_sub_le [of 1 len] by (simp add: word_less_nat_alt word_le_nat_alt)
  then have lt: "unat ?pos < length (chunks p)" by (rule stream_at(1) [OF rep window])
  have t: "mPos ?t = ?pos" "thread_running ?t"
    using run by (simp_all add: after_copy_def at_position_def setReadPosition_def thread_running_def
        start_signalled_def)
  have "?pos < cb_size C (mCircBuf p)" using lt by (simp only: cr.less_size_iff)
  then have "unat (?pos + 1) \<noteq> 0" by (simp add: unat_inc)
  then have "?pos + 1 \<noteq> 0" by (metis unat_0)
  with t show "thread_live (mThrottle (after_read C T len offset p))"
    using thread_live_enter [of ?t] by (simp add: after_read_def Let_def)
  show "unat (mPos (mThrottle (after_read C T len offset p))) < length (chunks p)"
    using lt t by (simp add: after_read_def Let_def)
qed

lemma read_finish_released:
  assumes rep: "pool_represents C stream p" and window: "in_window C stream len offset p"
    and pad: "padding_ok len l r" and "whole_chunks p len"
    and "unat len * 9024 - unat l - unat r \<le> length out" and "length out < 2 ^ 31"
    and run: "thread_running (mThrottle p)"
  shows "\<exists>k q. k \<le> 3 * capacity p + 7 \<and> released_as (after_copy C len offset p) q \<and>
           (\<forall>s. beforeCopy s = [] \<and> duringThrottle s = thread_steps k \<longrightarrow>
             read_finish C T s len offset l r out p =
               Inr (Some (of_nat (unat len * 9024 - unat l - unat r)),
                    range_bytes stream (unat len) (unat offset) (unat l) (unat r) @
                      drop (unat len * 9024 - unat l - unat r) out, q))"
proof -
  note finish = read_finish_range [OF assms(1-6), unfolded Let_def]
  let ?q = "after_read C T len offset p"
  have len: "0 < len" using pad by (simp add: padding_ok_def)
  show ?thesis
  proof (cases "throttled C T len offset p")
    case False
    then have "released_as (after_copy C len offset p) ?q"
      using wait_enter_lastPos [of T "mThrottle (after_copy C len offset p)"]
      by (simp add: released_as_def after_read_def Let_def throttled_def)
    with False finish show ?thesis by (intro exI [of _ 0] exI [of _ ?q]) simp
  next
    case True
    note live = after_read_live [OF rep window len run]
    from throttle_block_released [OF live(1)] obtain k q where k: "k \<le> release_rank (mThrottle ?q)"
      "throttle_block C T (thread_steps k) ?q = Inr (True, q)" "released_as ?q q" by blast
    have "length (chunks p) \<le> capacity p" by (rule cr.elems_bounded)
    with k(1) live(2) release_rank_bound [of "mThrottle ?q"] have "k \<le> 3 * capacity p + 7" by linarith
    moreover have "released_as (after_copy C len offset p) q"
      using k(3) by (simp add: released_as_def after_read_def Let_def)
    ultimately show ?thesis
      using finish True k(2) by (intro exI [of _ k] exI [of _ q]) simp
  qed
qed

lemma random_access_released:
  assumes hold: "pool_holds C stream p" and "\<not> exitPending p"
    and "0 < n" and "unat ob + unat n \<le> length stream * 9024"
    and kept: "length stream - unat ob div 9024 \<le> capacity p"
    and whole: "whole_chunks p (access_length n ob)"
    and room: "unat n \<le> length out" "length out < 2 ^ 31"
    and run: "thread_running (mThrottle p)"
  shows "\<exists>k q. k \<le> 3 * capacity p + 7 \<and>
           readRandomAccess C T (undisturbed\<lparr>duringThrottle := thread_steps k\<rparr>) out n ob p =
             Inr (Some n, take (unat n) (drop (unat ob) (stream_bytes stream)) @ drop (unat n) out, q)"
proof -
  have "unat n + 18048 < 2 ^ 64" using room by simp
  note range = access_range [OF assms(3,4) this]
  have kept': "length stream - unat (ob div BUFFER_CHUNK_SIZE) \<le> capacity p"
    unfolding access_offset_nat by (rule kept)
  note enter = read_enter_available [OF hold assms(2) range(1,2) kept']
  from read_finish_released [OF holds_represents [OF hold] enter(2) range(1) whole _ room(2) run]
    enter(1) room(1)
  show ?thesis
    unfolding range(3,4) readRandomAccess_def read_def by (fastforce simp: undisturbed_def)
qed

end

end
