(* ===== verification/Pool_Waiting.thy ===== *)
theory Pool_Waiting
  imports Pool_Correct
begin

text \<open>
  Calls of \<open>read\<close> that wait, and what holds between the chunk ring and the throttle's
  ring of periods: pushes that arrive in time, the timeout, an abort, reads that run past
  the end of a closed stream, and the two rings staying in step.
\<close>

section \<open>The events of a producer\<close>

text \<open>One chunk of an open stream, pushed by another thread at time \<open>fst c\<close>.\<close>

definition push_batch :: "int \<times> buffer_chunk \<Rightarrow> pool_event list" where
  "push_batch c = [PushRegister (fst c), PushCommit (snd c) False 0]"

text \<open>An open pool: it takes chunks, and nobody has asked for its operations to stop.\<close>

definition pool_open :: "('c, 't) pool \<Rightarrow> bool" where
  "pool_open p \<longleftrightarrow> \<not> exitPending p \<and> \<not> mGotLastBuffer p \<and> \<not> mAborting p"

context boost_rings
begin

lemma thread_running_register:
  "thread_running (registerTimePeriod T now t) = thread_running t"
  by (simp add: thread_running_def start_signalled_register)
    (simp add: registerTimePeriod_def Let_def case_prod_beta)

lemma push_batch_ok:
  assumes hold: "pool_holds C stream p" and "0 < capacity p" and "length stream + 1 < 2 ^ 64"
    and "pool_open p" and "thread_running (mThrottle p)"
  shows "\<exists>q. pool_dos C T (push_batch c) p = Inr q \<and> pool_holds C (stream @ [snd c]) q \<and>
           capacity q = capacity p \<and> pool_open q \<and> thread_running (mThrottle q)"
proof -
  let ?p = "push_register T (fst c) p"
  have "pool_holds C stream ?p" "0 < capacity ?p"
    using hold assms(2) by (simp_all add: push_register_def pool_holds_def)
  from push_commit_ok [OF this assms(3), of "snd c" False 0] obtain q where
    "push_commit C (snd c) False 0 ?p = Inr (hd (chunks q), q)" "pool_holds C (stream @ [snd c]) q"
    "capacity q = capacity ?p" "mGotLastBuffer q = mGotLastBuffer ?p" "mThrottle q = mThrottle ?p"
    "mAborting q = mAborting ?p" "exitPending q = exitPending ?p" by auto
  with assms(4,5) show ?thesis
    by (simp add: push_batch_def pool_open_def push_register_def thread_running_register)
qed

lemma read_wait_pushes:
  assumes "pool_holds C stream p" and "0 < capacity p" and "pool_open p"
    and "thread_running (mThrottle p)" and "length stream + length bs = unat readEnd"
  shows "\<exists>q. read_wait C T readEnd (map push_batch bs) p = Inr (True, q) \<and>
           pool_holds C (stream @ map snd bs) q \<and> capacity q = capacity p \<and> pool_open q \<and>
           thread_running (mThrottle q)"
  using assms
proof (induction bs arbitrary: stream p)
  case Nil
  then show ?case
    by (auto simp: wait_satisfied_def pool_holds_def word_le_nat_alt)
next
  case (Cons c bs)
  have "length stream + 1 < 18446744073709551616"
    using Cons.prems(5) unat_less_u64 [of readEnd] unfolding list.size by linarith
  then have small: "length stream + 1 < 2 ^ 64" by simp
  have "\<not> wait_satisfied readEnd p"
    using Cons.prems(1,3,5) by (auto simp: wait_satisfied_def pool_open_def pool_holds_def word_le_nat_alt)
  moreover from push_batch_ok [OF Cons.prems(1,2) small Cons.prems(3,4)] obtain q where q:
    "pool_dos C T (push_batch c) p = Inr q" "pool_holds C (stream @ [snd c]) q"
    "capacity q = capacity p" "pool_open q" "thread_running (mThrottle q)" by blast
  moreover have "\<exists>q'. read_wait C T readEnd (map push_batch bs) q = Inr (True, q') \<and>
      pool_holds C ((stream @ [snd c]) @ map snd bs) q' \<and> capacity q' = capacity q \<and> pool_open q' \<and>
      thread_running (mThrottle q')"
    using q Cons.prems(2,5) by (intro Cons.IH) simp_all
  ultimately show ?case by simp
qed

text \<open>The checks send a read of chunks that are not there yet into the wait.\<close>

lemma read_enter_await:
  assumes hold: "pool_holds C stream p" and "\<not> exitPending p" and "\<not> mGotLastBuffer p"
    and pad: "padding_ok len l r" and "unat offset \<le> length stream"
    and "length stream < unat offset + unat len" and "unat offset + unat len < 2 ^ 64"
    and "unat len \<le> capacity p"
  shows "read_enter C len offset l r p = AwaitChunks (offset + len)"
    and "unat (offset + len) = unat offset + unat len"
proof -
  have total: "unat (mTotalBufCount p) = length stream" using hold by (simp add: pool_holds_def)
  show e: "unat (offset + len) = unat offset + unat len"
    using assms(7) by (intro unat_add_bounded)
  have c2: "\<not> BUFFER_CHUNK_SIZE \<le> l" "\<not> BUFFER_CHUNK_SIZE \<le> r"
    using pad by (simp_all add: padding_ok_def word_le_nat_alt)
  have "unat (mTotalBufCount p - offset) = length stream - unat offset"
    using assms(5) total by (subst unat_sub_le) (simp_all add: word_le_nat_alt)
  then have c3: "\<not> cb_capacity C (mCircBuf p) < mTotalBufCount p - offset"
    unfolding word_less_nat_alt using assms(6,8) by linarith
  have c4: "\<not> mTotalBufCount p < offset" "\<not> cb_capacity C (mCircBuf p) < len"
    using assms(5,8) unfolding word_less_nat_alt total by linarith+
  have c5: "mTotalBufCount p < offset + len"
    using assms(6) by (simp add: word_less_nat_alt total e)
  show "read_enter C len offset l r p = AwaitChunks (offset + len)"
    using assms(2,3) c2 c3 c4 c5 by (simp add: read_enter_def Let_def)
qed

text \<open>
  A read of chunks that the producer has yet to push returns their bytes as soon as the
  last of them is there.
\<close>

lemma read_follows_producer:
  assumes hold: "pool_holds C stream p" and "pool_open p" and run: "thread_running (mThrottle p)"
    and pad: "padding_ok len l r" and "unat offset \<le> length stream"
    and "length stream < unat offset + unat len" and "unat offset + unat len < 2 ^ 64"
    and "unat len \<le> capacity p" and bs: "length stream + length bs = unat offset + unat len"
    and "unat len * 9024 - unat l - unat r \<le> length out" and "length out < 2 ^ 31"
  shows "\<exists>k q. k \<le> 3 * capacity p + 7 \<and>
           read C T \<lparr>duringWait = map push_batch bs, beforeCopy = [], duringThrottle = thread_steps k\<rparr>
             len offset l r out p =
             Inr (Some (of_nat (unat len * 9024 - unat l - unat r)),
                  range_bytes (stream @ map snd bs) (unat len) (unat offset) (unat l) (unat r) @
                    drop (unat len * 9024 - unat l - unat r) out, q)"
proof -
  have open_: "\<not> exitPending p" "\<not> mGotLastBuffer p" using assms(2) by (simp_all add: pool_open_def)
  note enter = read_enter_await [OF hold open_ pad assms(5-8)]
  have "0 < capacity p" using pad assms(8) by (auto simp: padding_ok_def word_less_nat_alt)
  from read_wait_pushes [OF hold this assms(2) run] bs enter(2) obtain q where q:
    "read_wait C T (offset + len) (map push_batch bs) p = Inr (True, q)"
    "pool_holds C (stream @ map snd bs) q" "capacity q = capacity p" "pool_open q"
    "thread_running (mThrottle q)" by metis
  let ?q = "q\<lparr>mReadEnd := offset + len\<rparr>"
  have hold': "pool_holds C (stream @ map snd bs) ?q" using q(2) by (simp add: pool_holds_def)
  have "in_window C (stream @ map snd bs) len offset ?q"
    using bs assms(8) q(3) holds_length [OF hold'] by (simp add: in_window_def)
  moreover have "whole_chunks ?q len" using q(4) by (simp add: whole_chunks_def pool_open_def)
  moreover have "thread_running (mThrottle ?q)" using q(5) by simp
  ultimately obtain k q' where k: "k \<le> 3 * capacity ?q + 7"
    "\<forall>s. beforeCopy s = [] \<and> duringThrottle s = thread_steps k \<longrightarrow>
       read_finish C T s len offset l r out ?q =
         Inr (Some (of_nat (unat len * 9024 - unat l - unat r)),
              range_bytes (stream @ map snd bs) (unat len) (unat offset) (unat l) (unat r) @
                drop (unat len * 9024 - unat l - unat r) out, q')"
    using read_finish_released [OF holds_represents [OF hold'] _ pad _ assms(10,11)] by blast
  have "\<not> mAborting q" using q(4) by (simp add: pool_open_def)
  with k q(1,3) enter(1) show ?thesis
    by (intro exI [of _ k] exI [of _ q']) (simp add: read_def)
qed

text \<open>No chunk in time, or an abort: zero, and the caller's buffer is as it was.\<close>

lemma read_times_out:
  assumes "pool_holds C stream p" and "pool_open p" and "padding_ok len l r"
    and "unat offset \<le> length stream" and "length stream < unat offset + unat len"
    and "unat offset + unat len < 2 ^ 64" and "unat len \<le> capacity p" and "duringWait s = []"
  shows "read C T s len offset l r out p = Inr (Some 0, out, p)"
proof -
  have open_: "\<not> exitPending p" "\<not> mGotLastBuffer p" using assms(2) by (simp_all add: pool_open_def)
  note enter = read_enter_await [OF assms(1) open_ assms(3-7)]
  have "\<not> wait_satisfied (offset + len) p"
    using assms(1,2,5) enter(2) by (auto simp: wait_satisfied_def pool_open_def pool_holds_def word_le_nat_alt)
  then show ?thesis using enter(1) assms(8) by (simp add: read_def)
qed

lemma read_aborted:
  assumes "pool_holds C stream p" and "pool_open p" and "padding_ok len l r"
    and "unat offset \<le> length stream" and "length stream < unat offset + unat len"
    and "unat offset + unat len < 2 ^ 64" and "unat len \<le> capacity p"
    and "duringWait s = [[AbortAll]]"
  shows "read C T s len offset l r out p = Inr (Some 0, out, p)"
proof -
  have open_: "\<not> exitPending p" "\<not> mGotLastBuffer p" "\<not> mAborting p"
    using assms(2) by (simp_all add: pool_open_def)
  note enter = read_enter_await [OF assms(1) open_(1,2) assms(3-7)]
  have "\<not> wait_satisfied (offset + len) p"
    using assms(1,5) open_ enter(2) by (auto simp: wait_satisfied_def pool_holds_def word_le_nat_alt)
  moreover have "p\<lparr>mAborting := False\<rparr> = p" using open_(3) by (cases p) simp
  ultimately show ?thesis
    using enter(1) assms(8)
    by (simp add: read_def abortAllOperations_def wait_satisfied_def)
qed

text \<open>The reads that are refused: nothing happens to the buffer or to the pool.\<close>

lemma read_refused:
  assumes hold: "pool_holds C stream p"
    and "exitPending p \<or> mGotLastBuffer p \<and> length stream \<le> unat offset
      \<or> length stream < unat offset \<or> capacity p < unat len
      \<or> unat offset \<le> length stream \<and> capacity p < length stream - unat offset"
  shows "read C T s len offset l r out p = Inr (Some 0, out, p)"
proof -
  have total: "unat (mTotalBufCount p) = length stream" using hold by (simp add: pool_holds_def)
  have "read_enter C len offset l r p = ReturnZero" if "\<not> exitPending p"
    "\<not> (mGotLastBuffer p \<and> length stream \<le> unat offset)"
  proof (cases "length stream < unat offset \<or> capacity p < unat len")
    case True
    then have "mTotalBufCount p < offset \<or> cb_capacity C (mCircBuf p) < len"
      by (simp add: word_less_nat_alt total)
    then show ?thesis using that by (auto simp: read_enter_def Let_def)
  next
    case False
    then have "unat (mTotalBufCount p - offset) = length stream - unat offset"
      using total by (subst unat_sub_le) (simp_all add: word_le_nat_alt)
    then have "cb_capacity C (mCircBuf p) < mTotalBufCount p - offset"
      using False that assms(2) by (auto simp: word_less_nat_alt)
    then show ?thesis using that by (auto simp: read_enter_def Let_def)
  qed
  moreover have "read_enter C len offset l r p = ReturnZero" if "exitPending p"
    using that by (simp add: read_enter_def Let_def)
  moreover have "read_enter C len offset l r p = ReturnZero"
    if "mGotLastBuffer p" "length stream \<le> unat offset"
    using that total by (simp add: read_enter_def Let_def word_le_nat_alt)
  ultimately have "read_enter C len offset l r p = ReturnZero" by blast
  then show ?thesis by (simp add: read_def)
qed

end

end
