(* ===== verification/Pool_Session.thy ===== *)
theory Pool_Session
  imports Pool_Waiting
begin

text \<open>
  One pool used over time by its owner: pushes, reads, \<open>clearToLastRead\<close>, steps of the
  throttle thread. The chunk ring and the ring of periods stay in step along every such
  run; \<open>clear\<close> is the operation that breaks this. The theory also has the reads that
  reach the end of a closed stream.
\<close>

section \<open>Runs of a pool\<close>

definition rings_in_step ::
  "('c, buffer_chunk) circ_ops \<Rightarrow> ('t, u32) circ_ops \<Rightarrow> ('c, 't) pool \<Rightarrow> bool" where
  "rings_in_step C T p \<longleftrightarrow>
     length (cb_elems T (mTimePeriodBuffer (mThrottle p))) = length (cb_elems C (mCircBuf p)) \<and>
     cb_capacity T (mTimePeriodBuffer (mThrottle p)) = cb_capacity C (mCircBuf p) \<and>
     mLastPos (mThrottle p) = mLastReadLocation p"

text \<open>
  A read is one step, from its call to its return; chunks may arrive while it waits for
  them, and the throttle thread runs while it is throttled.
\<close>

inductive session_step ::
  "('c, buffer_chunk) circ_ops \<Rightarrow> ('t, u32) circ_ops \<Rightarrow> ('c, 't) pool \<Rightarrow> ('c, 't) pool \<Rightarrow> bool"
  for C T where
  push: "pushBuffer C T now b lastBuffer lastBufferSize p = Inr (x, q) \<Longrightarrow> session_step C T p q"
| read: "0 < len \<Longrightarrow> duringWait s = map push_batch bs \<Longrightarrow> beforeCopy s = [] \<Longrightarrow>
    duringThrottle s = thread_steps k \<Longrightarrow>
    read C T s len offset l r out p = Inr (Some n, out', q) \<Longrightarrow> session_step C T p q"
| clear_to_last: "clearToLastRead C T p = Inr q \<Longrightarrow> session_step C T p q"
| abort: "session_step C T p (abortAllOperations p)"
| enable: "session_step C T p (enableReadThrottling b p)"
| thread: "pool_do C T (ThrottleThread timed_out) p = Inr q \<Longrightarrow> session_step C T p q"
| destroy: "session_step C T p (pool_destroy p)"

inductive session ::
  "('c, buffer_chunk) circ_ops \<Rightarrow> ('t, u32) circ_ops \<Rightarrow> u64 \<Rightarrow> ('c, 't) pool \<Rightarrow> bool"
  for C T n where
  start: "session C T n (pool_new C T n)"
| step: "session C T n p \<Longrightarrow> session_step C T p q \<Longrightarrow> session C T n q"

section \<open>The pool after the copy loop\<close>

lemma read_chunk_pool:
  "read_chunk C len offset l r i (off, out, p) = Inr (off', out', p') \<Longrightarrow>
     p' = at_position (start_pos C offset i p) p \<and> length out' = length out"
  by (auto simp: read_chunk_def Let_def andthen_Inr_iff dest: memcpy_at_length)

context boost_rings
begin

lemma read_loop_pool:
  "read_loop C len offset l r i (off, out, p) = Inr (off', out', p') \<Longrightarrow>
     p' = last_position len offset i p \<and> length out' = length out"
proof (induction "unat len - unat i" arbitrary: i off out p rule: less_induct)
  case less
  show ?case
  proof (cases "i < len")
    case False
    with less.prems show ?thesis by (simp add: read_loop.simps [of C len] last_position_def)
  next
    case True
    with less.prems obtain off1 out1 p1 where
      c: "read_chunk C len offset l r i (off, out, p) = Inr (off1, out1, p1)"
      and rest: "read_loop C len offset l r (i + 1) (off1, out1, p1) = Inr (off', out', p')"
      by (auto simp: read_loop.simps [of C len offset l r i] andthen_Inr_iff)
    have "unat len - unat (i + 1) < unat len - unat i"
      using unat_inc [OF True] True by (simp add: word_less_nat_alt)
    from less.hyps [OF this rest] read_chunk_pool [OF c] last_position_step [OF True]
    show ?thesis by simp
  qed
qed

lemma read_copy_pool:
  fixes p q :: "('c, 't) pool"
  assumes "read_copy C len offset l r out p = Inr (copied, out', q)" and "0 < len"
  shows "copied = None \<and> out' = out \<and> q = p \<or> copied \<noteq> None \<and> q = after_copy C len offset p"
    and "length out' = length out"
  using assms
  by (auto simp: read_copy_def andthen_Inr_iff last_position_def after_copy_def split: if_splits
      dest: read_loop_pool)

lemma throttle_block_pool:
  assumes "throttle_block C T (thread_steps k) p = Inr (True, q)"
  shows "released_as p q"
  using assms
proof (induction k arbitrary: p)
  case 0
  then have "fst (wait_poll (mThrottle p))" by (simp add: thread_steps_def case_prod_beta Let_def)
  with 0 wait_poll_lastPos [OF this] show ?case
    by (auto simp: thread_steps_def released_as_def case_prod_beta Let_def)
next
  case (Suc k)
  let ?t = "snd (wait_poll (mThrottle p))"
  show ?case
  proof (cases "fst (wait_poll (mThrottle p))")
    case True
    with Suc.prems wait_poll_lastPos [OF True] show ?thesis
      by (auto simp: thread_steps_def released_as_def case_prod_beta Let_def)
  next
    case False
    with Suc.prems have "throttle_block C T (thread_steps k) (p\<lparr>mThrottle := loop_step T True ?t\<rparr>) = Inr (True, q)"
      by (simp add: thread_steps_def case_prod_beta Let_def)
    from Suc.IH [OF this] show ?thesis by (simp add: released_as_def)
  qed
qed

text \<open>A read that returns leaves both positions at the last chunk it copied.\<close>

lemma read_finish_pool:
  assumes "read_finish C T s len offset l r out p = Inr (Some n, out', q)"
    and "0 < len" and "beforeCopy s = []" and "duringThrottle s = thread_steps k"
  shows "q = p \<or> released_as (after_copy C len offset p) q"
proof -
  from assms(1,3) obtain copied out1 p1 where c: "read_copy C len offset l r out p = Inr (copied, out1, p1)"
    by (auto simp: read_finish_def andthen_Inr_iff)
  show ?thesis
  proof (cases copied)
    case None
    with c assms read_copy_pool(1) [OF c assms(2)] show ?thesis by (simp add: read_finish_def)
  next
    case (Some off)
    then have p1: "p1 = after_copy C len offset p" using read_copy_pool(1) [OF c assms(2)] by simp
    let ?w = "wait_enter T (mThrottle p1)"
    show ?thesis
    proof (cases "fst ?w")
      case True
      with assms(1,3,4) c Some obtain released where
        "throttle_block C T (thread_steps k) (p1\<lparr>mThrottle := snd ?w\<rparr>) = Inr (released, q)"
        "Some n = (if released then Some (scast off) else None)"
        by (auto simp: read_finish_def case_prod_beta Let_def andthen_Inr_iff)
      then have "released_as (p1\<lparr>mThrottle := snd ?w\<rparr>) q"
        by (auto split: if_splits intro: throttle_block_pool)
      then show ?thesis using p1 by (simp add: released_as_def)
    next
      case False
      with assms(1,3) c Some have "q = p1\<lparr>mThrottle := snd ?w\<rparr>"
        by (simp add: read_finish_def case_prod_beta Let_def)
      with wait_enter_lastPos [OF False] p1 show ?thesis by (simp add: released_as_def)
    qed
  qed
qed

section \<open>The two rings stay in step\<close>

abbreviation in_step :: "('c, 't) pool \<Rightarrow> bool" where
  "in_step \<equiv> rings_in_step C T"

lemma in_step_new: "in_step (pool_new C T n)"
  by (simp add: rings_in_step_def pool_new_def) (simp add: throttle_new_def)

text \<open>A push is a registration and a commit; both rings get one element.\<close>

lemma in_step_push:
  assumes "in_step p" and "push_commit C b lastBuffer lastBufferSize (push_register T now p) = Inr (x, q)"
  shows "in_step q"
proof -
  have circ: "mCircBuf q = cb_push_back C b (mCircBuf p)"
    and thr: "mThrottle q = registerTimePeriod T now (mThrottle p)"
    and loc: "mLastReadLocation q = mLastReadLocation p"
    using assms(2) by (auto simp: push_commit_def push_register_def Let_def andthen_Inr_iff)
  show ?thesis
    using assms(1) register_length [of now "mThrottle p"] cr.length_push [of b "mCircBuf p"]
    by (simp add: rings_in_step_def circ thr loc del: cr.elems_push_back)
qed

lemma in_step_pushBuffer:
  "in_step p \<Longrightarrow> pushBuffer C T now b lastBuffer lastBufferSize p = Inr (x, q) \<Longrightarrow> in_step q"
  by (auto simp: pushBuffer_def andthen_Inr_iff intro: in_step_push split: if_splits)

lemma in_step_push_batch:
  "in_step p \<Longrightarrow> pool_dos C T (push_batch c) p = Inr q \<Longrightarrow> in_step q"
  if "\<not> exitPending p"
  using that by (auto simp: push_batch_def andthen_Inr_iff intro: in_step_push)

lemma in_step_released:
  assumes "in_step p" and "released_as (after_copy C len offset p) q"
  shows "in_step q"
  using assms
  by (simp add: rings_in_step_def released_as_def after_copy_def at_position_def setReadPosition_def)

lemma in_step_clearToLastRead:
  assumes "in_step p" and "clearToLastRead C T p = Inr q"
  shows "in_step q"
proof (cases "chunks p = []")
  case True
  with assms show ?thesis by (simp add: clearToLastRead_def)
next
  case False
  have "throttle_clearToLastRead T (mThrottle p) = Inr (mThrottle q) \<and>
      length (chunks q) = min (length (chunks p)) (unat (mLastReadLocation p) + 1) \<and>
      cb_capacity C (mCircBuf q) = cb_capacity C (mCircBuf p) \<and>
      mLastReadLocation q = mLastReadLocation p"
  proof (cases "unat (mLastReadLocation p) < length (chunks p)")
    case True
    from clearToLastRead_cuts [OF True] True assms(2) show ?thesis by auto
  next
    case False
    with clearToLastRead_nothing [of p] \<open>chunks p \<noteq> []\<close> assms(2) show ?thesis by auto
  qed
  with clearToLastRead_length [of "mThrottle p" "mThrottle q"] assms(1) show ?thesis
    by (simp add: rings_in_step_def)
qed

text \<open>Pushes that arrive while a read waits; the wait itself changes nothing.\<close>

lemma push_batch_exit:
  "pool_dos C T (push_batch c) p = Inr q \<Longrightarrow> exitPending q = exitPending p"
  by (auto simp: push_batch_def andthen_Inr_iff push_commit_def push_register_def Let_def
      split: if_splits)

lemma in_step_read_wait:
  "in_step p \<Longrightarrow> \<not> exitPending p \<Longrightarrow>
     read_wait C T readEnd (map push_batch bs) p = Inr (b, q) \<Longrightarrow> in_step q"
proof (induction bs arbitrary: p)
  case Nil
  then show ?case by simp
next
  case (Cons c bs)
  show ?case
  proof (cases "wait_satisfied readEnd p")
    case True
    with Cons.prems show ?thesis by simp
  next
    case False
    with Cons.prems(3) obtain p1 where p1: "pool_dos C T (push_batch c) p = Inr p1"
      "read_wait C T readEnd (map push_batch bs) p1 = Inr (b, q)"
      by (auto simp: andthen_Inr_iff)
    show ?thesis
      using in_step_push_batch [OF Cons.prems(2,1) p1(1)] push_batch_exit [OF p1(1)] Cons.prems(2) p1(2)
      by (intro Cons.IH [of p1]) simp_all
  qed
qed

lemma in_step_read:
  assumes "in_step p" and "0 < len" and "duringWait s = map push_batch bs"
    and "beforeCopy s = []" and "duringThrottle s = thread_steps k"
    and "read C T s len offset l r out p = Inr (Some n, out', q)"
  shows "in_step q"
proof -
  have finish: "in_step q" if "in_step p'" and
      "read_finish C T s len offset l r out p' = Inr (Some n, out', q)" for p'
    using read_finish_pool [OF that(2) assms(2,4,5)] that(1) in_step_released by blast
  show ?thesis
  proof (cases "read_enter C len offset l r p")
    case ReturnZero
    with assms(1,6) show ?thesis by (simp add: read_def)
  next
    case CopyNow
    with assms(1,6) show ?thesis by (auto simp: read_def intro: finish)
  next
    case (AwaitChunks readEnd)
    then have "\<not> exitPending p" by (auto simp: read_enter_def Let_def split: if_splits)
    moreover from AwaitChunks assms(3,6) obtain b p1 where w:
      "read_wait C T readEnd (map push_batch bs) p = Inr (b, p1)"
      by (auto simp: read_def andthen_Inr_iff)
    ultimately have "in_step p1" using assms(1) in_step_read_wait by blast
    then have "in_step (p1\<lparr>mAborting := False\<rparr>)" "in_step (p1\<lparr>mReadEnd := readEnd\<rparr>)"
      by (simp_all add: rings_in_step_def)
    with \<open>in_step p1\<close> AwaitChunks assms(3,6) w show ?thesis
      by (auto simp: read_def split: if_splits intro: finish)
  qed
qed

lemma in_step_session_step:
  assumes "session_step C T p q" and "in_step p"
  shows "in_step q"
  using assms
proof cases
  case (push now b lastBuffer lastBufferSize x)
  with assms(2) show ?thesis by (blast intro: in_step_pushBuffer)
next
  case (read len s bs k offset l r out n out')
  with assms(2) show ?thesis by (blast intro: in_step_read)
next
  case clear_to_last
  with assms(2) show ?thesis by (blast intro: in_step_clearToLastRead)
qed (use assms(2) in \<open>auto simp: rings_in_step_def abortAllOperations_def
      enableReadThrottling_def enableThrottling_def pool_destroy_def\<close>)

lemma in_step_session: "session C T n p \<Longrightarrow> in_step p"
  by (induction rule: session.induct) (auto intro: in_step_new in_step_session_step)

text \<open>\<open>clear\<close> resets the throttle's position and keeps the pool's.\<close>

lemma clear_positions:
  "mLastPos (mThrottle (pool_clear C T p)) = 0"
  "mLastReadLocation (pool_clear C T p) = mLastReadLocation p"
  by (simp_all add: pool_clear_def)

section \<open>The end of a closed stream\<close>

text \<open>Whatever the truncation does, an iteration never leaves its chunk.\<close>

lemma copy_size_le:
  assumes pad: "padding_ok len l r" and i: "i < len"
  shows "unat (left_skip l i) + unat (copy_size len l r i p) \<le> 9024"
proof -
  have "unat (copy_size len l r i p) \<le> unat (copy_size len l r i (p\<lparr>mGotLastBuffer := False\<rparr>))"
    by (simp add: copy_size_def Let_def min_def word_le_nat_alt)
  moreover have "whole_chunks (p\<lparr>mGotLastBuffer := False\<rparr>) len" by (simp add: whole_chunks_def)
  from copy_size_nat [OF pad this i]
  have "unat (left_skip l i) + unat (copy_size len l r i (p\<lparr>mGotLastBuffer := False\<rparr>)) \<le> 9024"
    using pad unfolding skip_nat(1) padding_ok_def by auto
  ultimately show ?thesis by linarith
qed

lemma pieces_length_le: "length (pieces len offset l r p i j) \<le> (j - i) * 9024"
proof (induction "j - i" arbitrary: i)
  case 0
  then show ?case by (simp add: pieces_def)
next
  case (Suc n)
  then have "i < j" by linarith
  then have "pieces len offset l r p i j =
      piece len offset l r p (of_nat i) @ pieces len offset l r p (i + 1) j"
    by (simp add: pieces_def upt_conv_Cons)
  moreover have "length (piece len offset l r p (of_nat i)) \<le> 9024"
    by (simp add: piece_def min.coboundedI1)
  moreover have "length (pieces len offset l r p (i + 1) j) \<le> (j - (i + 1)) * 9024"
    using Suc by (intro Suc.hyps(1)) auto
  moreover have "(j - i) * 9024 = 9024 + (j - (i + 1)) * 9024" using \<open>i < j\<close>
    by (simp add: Suc_diff_Suc [symmetric])
  ultimately show ?case by simp
qed

text \<open>
  With the last buffer in, a read does not wait; one that asks for more chunks than are
  left walks out of the ring.
\<close>

lemma read_past_end_faults:
  assumes hold: "pool_holds C stream p" and "\<not> exitPending p" and "mGotLastBuffer p"
    and pad: "padding_ok len l r" and "unat offset < length stream"
    and "length stream < unat offset + unat len"
    and "unat len \<le> capacity p" and "length stream - unat offset \<le> capacity p"
    and room: "(length stream - unat offset) * 9024 \<le> length out" and small: "length out < 2 ^ 31"
    and "beforeCopy s = []"
  shows "read C T s len offset l r out p = Inl RingIndexOutOfRange"
proof -
  note rep = holds_represents [OF hold]
  have total: "unat (mTotalBufCount p) = length stream" using hold by (simp add: pool_holds_def)
  let ?m = "mTotalBufCount p - offset"
  have m: "unat ?m = length stream - unat offset"
    using assms(5) total by (subst unat_sub_le) (simp_all add: word_le_nat_alt)
  have m_len: "?m < len" using m assms(5,6) unfolding word_less_nat_alt by linarith
  have window: "length stream - unat offset \<le> length (chunks p)"
    using assms(8) holds_length [OF hold] by simp
  have enter: "read_enter C len offset l r p = CopyNow"
  proof -
    have "\<not> mTotalBufCount p \<le> offset" "\<not> mTotalBufCount p < offset" "\<not> cb_capacity C (mCircBuf p) < len"
      "\<not> cb_capacity C (mCircBuf p) < ?m" "\<not> BUFFER_CHUNK_SIZE \<le> l" "\<not> BUFFER_CHUNK_SIZE \<le> r"
      using assms(5,7,8) total m pad unfolding word_le_nat_alt word_less_nat_alt padding_ok_def by auto
    then show ?thesis using assms(2,3) by (simp add: read_enter_def Let_def)
  qed
  have ok: "chunk_ok len offset l r p i" if "i < ?m" for i
  proof -
    have "in_window C stream ?m offset p" using m assms(5) window by (simp add: in_window_def)
    from stream_at(1) [OF rep this that] copy_size_le [OF pad less_trans [OF that m_len], of p]
    show ?thesis by (simp add: chunk_ok_def)
  qed
  have "unat (start_pos C offset ?m p) = length (chunks p)"
    using start_pos_nat [OF rep window, of ?m] m window assms(5) by simp
  moreover have "length (pieces len offset l r p 0 (unat ?m)) \<le> (unat ?m - 0) * 9024"
    by (rule pieces_length_le)
  ultimately have "read_loop C len offset l r 0 (of_nat 0, out, p) = Inl RingIndexOutOfRange"
    using ok m_len room small m by (intro read_loop_index_fault [where m = ?m]) simp_all
  moreover have "chunks p \<noteq> []" using window assms(5) by auto
  ultimately have "read_copy C len offset l r out p = Inl RingIndexOutOfRange"
    by (simp add: read_copy_def)
  then show ?thesis using enter assms(11) by (simp add: read_def read_finish_def)
qed

text \<open>
  Read from the start to the end, a closed stream ends with the bytes of its last buffer
  that count.
\<close>

lemma read_whole_closed:
  assumes hold: "pool_holds C stream p" and "\<not> exitPending p" and got: "mGotLastBuffer p"
    and len: "unat len = length stream" and last: "0 < unat (mLastBufferSize p)" "unat (mLastBufferSize p) < 9024"
    and ne: "stream \<noteq> []" and fits: "length stream \<le> capacity p"
    and room: "(length stream - 1) * 9024 + unat (mLastBufferSize p) \<le> length out"
    and small: "length out < 2 ^ 31"
  shows "read_copy C len 0 0 0 out p =
           Inr (Some (of_nat ((length stream - 1) * 9024 + unat (mLastBufferSize p))),
                take ((length stream - 1) * 9024 + unat (mLastBufferSize p)) (stream_bytes stream) @
                  drop ((length stream - 1) * 9024 + unat (mLastBufferSize p)) out,
                after_copy C len 0 p)"
proof -
  let ?q = "p\<lparr>mGotLastBuffer := False\<rparr>" and ?cut = "9024 - mLastBufferSize p"
  let ?n = "(length stream - 1) * 9024 + unat (mLastBufferSize p)"
  have cut: "unat ?cut = 9024 - unat (mLastBufferSize p)"
    using last(2) by (subst unat_sub_le) (simp_all add: word_le_nat_alt)
  have pos: "0 < unat len" using len ne by simp
  then have pos': "0 < len" by (simp add: word_less_nat_alt)
  have pad: "padding_ok len 0 ?cut"
    using cut last pos' by (simp add: padding_ok_def)
  have total: "mTotalBufCount p = len"
    using hold len by (simp add: pool_holds_def word_unat_eq_iff)
  have rep: "pool_represents C stream ?q"
    using holds_represents [OF hold] by (simp add: pool_represents_def)
  have "length (chunks p) = length stream" using fits holds_length [OF hold] by simp
  then have window: "in_window C stream len 0 ?q" using len by (simp add: in_window_def)
  have whole: "whole_chunks ?q len" by (simp add: whole_chunks_def)
  have same: "copy_size len 0 0 i p = copy_size len 0 ?cut i ?q" for i
  proof (cases "i = len - 1")
    case True
    have "min (mLastBufferSize p) 9024 = mLastBufferSize p"
      using last(2) by (simp add: min_def word_le_nat_alt)
    with True got total show ?thesis
      by (simp add: copy_size_def Let_def left_skip_def right_skip_def BUFFER_CHUNK_SIZE_eq)
  next
    case False
    with total show ?thesis
      by (simp add: copy_size_def Let_def left_skip_def right_skip_def)
  qed
  have "piece len 0 0 0 p i = piece len 0 0 ?cut ?q i" for i
    by (simp add: piece_def same start_pos_def)
  then have pieces: "pieces len 0 0 0 p 0 (unat len) = pieces len 0 0 ?cut ?q 0 (unat len)"
    by (simp add: pieces_def)
  have ok: "chunk_ok len 0 0 0 p i" if "i < len" for i
    using pieces_slice(1) [OF rep window pad whole that] by (simp add: chunk_ok_def same start_pos_def)
  have n: "unat len * 9024 - unat (0 :: u64) - unat ?cut = ?n"
    using last(2) pos len unfolding cut by (cases "unat len") simp_all
  have bytes: "pieces len 0 0 0 p 0 (unat len) = take ?n (stream_bytes stream)"
    unfolding pieces pieces_bytes [OF rep window pad whole] range_bytes_def n by simp
  have "length (take ?n (stream_bytes stream)) = ?n"
    using length_range_bytes [OF rep window pad] unfolding range_bytes_def n by simp
  then show ?thesis
    using read_copy_pieces [OF pos' ok, of out] room small unfolding bytes by simp
qed

end

end
