(* ===== verification/Pool_Properties.thy ===== *)
theory Pool_Properties
  imports Pool_Session
begin

text \<open>
  What the buffer pool promises its producer and its readers, stated over its operations
  for every implementation of the circular buffer interface, each with a concrete instance.
\<close>

section \<open>Pools for the witnesses\<close>

definition demo_stream :: "buffer_chunk list" where
  "demo_stream = [chunk_fill 1, chunk_fill 2]"

definition demo_ring :: "buffer_chunk bounded_list" where
  "demo_ring = bl_push (chunk_fill 2) (bl_push (chunk_fill 1) (bl_new 4))"

definition demo_pool :: "(buffer_chunk bounded_list, u32 bounded_list) pool" where
  "demo_pool = (enableReadThrottling False (pool_new list_ring list_ring 4))
     \<lparr>mCircBuf := demo_ring, mTotalBufCount := 2\<rparr>"

lemma demo_ring_simps [simp]:
  "cb_elems list_ring demo_ring = demo_stream" "cb_capacity list_ring demo_ring = 4"
  by (simp_all add: demo_ring_def demo_stream_def list_ring_def)

lemma demo_pool_simps [simp]:
  "mCircBuf demo_pool = demo_ring" "mTotalBufCount demo_pool = 2" "\<not> mGotLastBuffer demo_pool"
  "\<not> exitPending demo_pool" "\<not> mAborting demo_pool" "mLastReadLocation demo_pool = 0"
  "\<not> mEnableThrottling (mThrottle demo_pool)" "start_signalled (mThrottle demo_pool)"
  "thread_running (mThrottle demo_pool)"
  by (simp_all add: demo_pool_def enableReadThrottling_def pool_new_def enableThrottling_def
      throttle_new_def start_signalled_def thread_running_def)

lemma demo_stream_simps [simp]: "length demo_stream = 2" "demo_stream \<noteq> []"
  by (simp_all add: demo_stream_def)

lemma demo_pool_holds [simp]: "pool_holds list_ring demo_stream demo_pool"
  by (simp add: pool_holds_def)

lemma unthrottled: "\<not> mEnableThrottling (mThrottle p) \<Longrightarrow> \<not> throttled C T len offset p"
  by (simp add: throttled_def after_copy_def at_position_def setReadPosition_def wait_enter_def)

lemma demo_pool_unthrottled [simp]: "\<not> throttled C T len offset demo_pool"
  by (rule unthrottled) simp

text \<open>The demo pool is what two pushes make of a new one, as far as the chunks go.\<close>

lemma demo_pool_pushed:
  "\<exists>q. pool_dos list_ring list_ring (push_batch (0, chunk_fill 1) @ push_batch (1, chunk_fill 2))
         (pool_new list_ring list_ring 4) = Inr q \<and>
       mCircBuf q = mCircBuf demo_pool \<and> mTotalBufCount q = mTotalBufCount demo_pool"
  by (simp add: push_batch_def push_commit_def push_register_def pool_new_def Let_def demo_ring_def
      ring_front_def list_ring_def)

section \<open>Reading by byte range\<close>

text \<open>
  C1: a random access to bytes that the pool still holds returns exactly these bytes of the
  stream the producer pushed, wherever they lie relative to the chunk boundaries, and
  leaves the rest of the caller's buffer alone.
\<close>

theorem pool_random_access:
  assumes "boost_rings C T" and "pool_holds C stream p" and "\<not> exitPending p"
    and "0 < n" and "unat ob + unat n \<le> length stream * 9024"
    and "length stream - unat ob div 9024 \<le> unat (getCapacity C p)"
    and "whole_chunks p (access_length n ob)"
    and "unat n \<le> length out" and "length out < 2 ^ 31" and "beforeCopy s = []"
    and "\<not> throttled C T (access_length n ob) (ob div BUFFER_CHUNK_SIZE) p"
  shows "readRandomAccess C T s out n ob p =
           Inr (Some n, take (unat n) (drop (unat ob) (stream_bytes stream)) @ drop (unat n) out,
                after_read C T (access_length n ob) (ob div BUFFER_CHUNK_SIZE) p)"
  using boost_rings.random_access_read(1) [OF assms(1-5) _ assms(7-10)] assms(6,11)
  by (simp add: getCapacity_def)

theorem pool_random_access_witness:
  "\<exists>q. readRandomAccess list_ring list_ring undisturbed (replicate 6 0) 5 9022 demo_pool =
         Inr (Some 5, [1, 1, 2, 2, 2, 0], q)"
proof -
  have "take 5 (drop 9022 (stream_bytes demo_stream)) = [1, 1, 2, 2, 2]"
    by (simp add: demo_stream_def replicate_few)
  then show ?thesis
    using pool_random_access [OF lbr.boost_rings_axioms demo_pool_holds, of 5 9022 "replicate 6 0" undisturbed]
    by (simp add: getCapacity_def whole_chunks_def undisturbed_def replicate_few)
qed

text \<open>
  C3: the throttle delays such a read but does not change it: after at most three steps of
  the throttle thread per chunk of capacity and seven more it has returned, with the same
  bytes.
\<close>

theorem pool_random_access_returns:
  assumes "boost_rings C T" and "pool_holds C stream p" and "\<not> exitPending p"
    and "0 < n" and "unat ob + unat n \<le> length stream * 9024"
    and "length stream - unat ob div 9024 \<le> unat (getCapacity C p)"
    and "whole_chunks p (access_length n ob)"
    and "unat n \<le> length out" and "length out < 2 ^ 31" and "thread_running (mThrottle p)"
  shows "\<exists>k q. k \<le> 3 * unat (getCapacity C p) + 7 \<and>
           readRandomAccess C T (undisturbed\<lparr>duringThrottle := thread_steps k\<rparr>) out n ob p =
             Inr (Some n, take (unat n) (drop (unat ob) (stream_bytes stream)) @ drop (unat n) out, q)"
  using boost_rings.random_access_released [OF assms(1-5) _ assms(7-10)] assms(6)
  by (simp add: getCapacity_def)

theorem pool_random_access_returns_witness:
  "\<exists>k q. k \<le> 19 \<and>
     readRandomAccess list_ring list_ring (undisturbed\<lparr>duringThrottle := thread_steps k\<rparr>)
       (replicate 5 0) 5 9022 demo_pool = Inr (Some 5, [1, 1, 2, 2, 2], q)"
proof -
  have "take 5 (drop 9022 (stream_bytes demo_stream)) = [1, 1, 2, 2, 2]"
    by (simp add: demo_stream_def replicate_few)
  then show ?thesis
    using pool_random_access_returns [OF lbr.boost_rings_axioms demo_pool_holds, of 5 9022 "replicate 5 0"]
    by (simp add: getCapacity_def whole_chunks_def)
qed

section \<open>Writing\<close>

text \<open>
  C4: a push appends one chunk to the stream. The ring keeps the longest end of the stream
  that fits, so a full ring drops its oldest chunk; the consumer is notified with the
  oldest chunk kept.
\<close>

theorem pool_push_appends:
  assumes "boost_rings C T" and "pool_holds C stream p" and "\<not> exitPending p"
    and "0 < getCapacity C p" and "length stream + 1 < 2 ^ 64"
  shows "\<exists>q. pushBuffer C T now b lastBuffer lastBufferSize p =
               Inr (Some (hd (drop (length stream + 1 - unat (getCapacity C p)) (stream @ [b]))), q) \<and>
             pool_holds C (stream @ [b]) q \<and> getCapacity C q = getCapacity C p \<and>
             mGotLastBuffer q = (mGotLastBuffer p \<or> lastBuffer) \<and>
             mLastReadLocation q = mLastReadLocation p"
proof -
  let ?p = "push_register T now p"
  have p: "pool_holds C stream ?p" "0 < unat (cb_capacity C (mCircBuf ?p))"
    using assms(2,4) by (simp_all add: pool_holds_def push_register_def getCapacity_def word_less_nat_alt)
  from boost_rings.push_commit_ok [OF assms(1) p assms(5), of b lastBuffer lastBufferSize] obtain q where
    q: "push_commit C b lastBuffer lastBufferSize ?p = Inr (hd (cb_elems C (mCircBuf q)), q)"
    "pool_holds C (stream @ [b]) q" "unat (cb_capacity C (mCircBuf q)) = unat (cb_capacity C (mCircBuf ?p))"
    "mGotLastBuffer q = (mGotLastBuffer ?p \<or> lastBuffer)" "mLastReadLocation q = mLastReadLocation ?p"
    by blast
  with assms(3) show ?thesis
    by (auto simp: pushBuffer_def pool_holds_def getCapacity_def push_register_def word_unat_eq_iff)
qed

theorem pool_push_appends_witness:
  "\<exists>q. pushBuffer list_ring list_ring 7 (chunk_fill 3) True 100 demo_pool = Inr (Some (chunk_fill 1), q) \<and>
       pool_holds list_ring (demo_stream @ [chunk_fill 3]) q"
  using pool_push_appends [OF lbr.boost_rings_axioms demo_pool_holds, of 7 "chunk_fill 3" True 100]
  by (auto simp: getCapacity_def demo_stream_def)



section \<open>Reads that wait\<close>

text \<open>
  C5: a read of chunks that are still to come waits, and returns their bytes once the
  producer has pushed the last of them.
\<close>

theorem pool_read_follows_producer:
  assumes "boost_rings C T" and "pool_holds C stream p" and "pool_open p"
    and "thread_running (mThrottle p)" and "padding_ok len l r" and "unat offset \<le> length stream"
    and "length stream < unat offset + unat len" and "unat offset + unat len < 2 ^ 64"
    and "unat len \<le> unat (getCapacity C p)" and "length stream + length bs = unat offset + unat len"
    and "unat len * 9024 - unat l - unat r \<le> length out" and "length out < 2 ^ 31"
  shows "\<exists>k q. k \<le> 3 * unat (getCapacity C p) + 7 \<and>
           read C T \<lparr>duringWait = map push_batch bs, beforeCopy = [], duringThrottle = thread_steps k\<rparr>
             len offset l r out p =
             Inr (Some (of_nat (unat len * 9024 - unat l - unat r)),
                  range_bytes (stream @ map snd bs) (unat len) (unat offset) (unat l) (unat r) @
                    drop (unat len * 9024 - unat l - unat r) out, q)"
  using boost_rings.read_follows_producer [OF assms(1-8) _ assms(10-12)] assms(9)
  by (simp add: getCapacity_def)

theorem pool_read_follows_producer_witness:
  "\<exists>k q. k \<le> 19 \<and>
     read list_ring list_ring
       \<lparr>duringWait = [push_batch (5, chunk_fill 3)], beforeCopy = [], duringThrottle = thread_steps k\<rparr>
       2 1 9021 9022 (replicate 5 0) demo_pool = Inr (Some 5, [2, 2, 2, 3, 3], q)"
proof -
  have "range_bytes (demo_stream @ [chunk_fill 3]) 2 1 9021 9022 = [2, 2, 2, 3, 3]"
    by (simp add: range_bytes_def demo_stream_def replicate_few)
  then show ?thesis
    using pool_read_follows_producer [OF lbr.boost_rings_axioms demo_pool_holds, of 2 9021 9022 1
        "[(5, chunk_fill 3)]" "replicate 5 0"]
    by (simp add: pool_open_def padding_ok_def getCapacity_def)
qed

text \<open>
  C22: when no chunk comes before the timeout, or when the operations are aborted, such a
  read returns zero and has changed neither the caller's buffer nor the pool.
\<close>

theorem pool_read_gives_up:
  assumes "boost_rings C T" and "pool_holds C stream p" and "pool_open p" and "padding_ok len l r"
    and "unat offset \<le> length stream" and "length stream < unat offset + unat len"
    and "unat offset + unat len < 2 ^ 64" and "unat len \<le> unat (getCapacity C p)"
    and "duringWait s = [] \<or> duringWait s = [[AbortAll]]"
  shows "read C T s len offset l r out p = Inr (Some 0, out, p)"
  using boost_rings.read_times_out [OF assms(1-7), of s out]
    boost_rings.read_aborted [OF assms(1-7), of s out] assms(8,9)
  by (auto simp: getCapacity_def)

theorem pool_read_gives_up_witness:
  "read list_ring list_ring undisturbed 2 1 0 0 [9, 9] demo_pool = Inr (Some 0, [9, 9], demo_pool)"
  using pool_read_gives_up [OF lbr.boost_rings_axioms demo_pool_holds, of 2 0 0 1 undisturbed "[9, 9]"]
  by (simp add: pool_open_def padding_ok_def getCapacity_def undisturbed_def)

text \<open>
  A read at the end of a closed stream, before the window of the ring, behind the
  stream, or of more chunks than the ring can hold is refused with zero.
\<close>

theorem pool_read_refuses:
  assumes "boost_rings C T" and "pool_holds C stream p"
    and "exitPending p \<or> mGotLastBuffer p \<and> length stream \<le> unat offset
      \<or> length stream < unat offset \<or> unat (getCapacity C p) < unat len
      \<or> unat offset \<le> length stream \<and> unat (getCapacity C p) < length stream - unat offset"
  shows "read C T s len offset l r out p = Inr (Some 0, out, p)"
  using boost_rings.read_refused [OF assms(1,2)] assms(3) by (simp add: getCapacity_def)

theorem pool_read_refuses_witness:
  "read list_ring list_ring undisturbed 5 0 0 0 [9, 9] demo_pool = Inr (Some 0, [9, 9], demo_pool)"
  using pool_read_refuses [OF lbr.boost_rings_axioms demo_pool_holds, where len = 5]
  by (simp add: getCapacity_def)

section \<open>The two rings\<close>



section \<open>The end of a closed stream\<close>

text \<open>The demo pool after a last buffer of which 100 bytes count.\<close>

definition demo_closed :: "(buffer_chunk bounded_list, u32 bounded_list) pool" where
  "demo_closed = demo_pool\<lparr>mGotLastBuffer := True, mLastBufferSize := 100\<rparr>"

lemma demo_closed_simps [simp]:
  "mCircBuf demo_closed = demo_ring" "mTotalBufCount demo_closed = 2" "mGotLastBuffer demo_closed"
  "mLastBufferSize demo_closed = 100" "\<not> exitPending demo_closed"
  "\<not> mEnableThrottling (mThrottle demo_closed)"
  by (simp_all add: demo_closed_def)

lemma demo_closed_holds: "pool_holds list_ring demo_stream demo_closed"
  by (simp add: pool_holds_def)

text \<open>
  Read from its first chunk to its last, a closed stream ends after the bytes of the
  last buffer that count.
\<close>

theorem pool_read_whole_closed:
  fixes C :: "('c, buffer_chunk) circ_ops" and T :: "('t, u32) circ_ops" and p :: "('c, 't) pool"
  assumes "boost_rings C T" and "pool_holds C stream p" and "\<not> exitPending p" and "mGotLastBuffer p"
    and "unat len = length stream"
    and "0 < unat (mLastBufferSize p)" and "unat (mLastBufferSize p) < 9024" and "stream \<noteq> []"
    and "length stream \<le> unat (getCapacity C p)"
    and "(length stream - 1) * 9024 + unat (mLastBufferSize p) \<le> length out" and "length out < 2 ^ 31"
  shows "read_copy C len 0 0 0 out p =
           Inr (Some (of_nat ((length stream - 1) * 9024 + unat (mLastBufferSize p))),
                take ((length stream - 1) * 9024 + unat (mLastBufferSize p)) (stream_bytes stream) @
                  drop ((length stream - 1) * 9024 + unat (mLastBufferSize p)) out,
                after_copy C len 0 p)"
  using boost_rings.read_whole_closed [OF assms(1-8) _ assms(10,11)] assms(9)
  by (simp add: getCapacity_def)

theorem pool_read_whole_closed_witness:
  "read_copy list_ring 2 0 0 0 (replicate 9124 0) demo_closed =
     Inr (Some 9124, replicate 9024 1 @ replicate 100 2, after_copy list_ring 2 0 demo_closed)"
  using pool_read_whole_closed [OF lbr.boost_rings_axioms demo_closed_holds, of 2 "replicate 9124 0"]
  by (simp add: getCapacity_def demo_stream_def)

text \<open>
  C33: a read of the same last chunk that starts at a later offset is not truncated: it
  returns the whole chunk, the bytes that do not count included.
\<close>

theorem pool_read_tail_untruncated:
  assumes "boost_rings C T" and "pool_holds C stream p" and "\<not> exitPending p" and "mGotLastBuffer p"
    and "0 < len" and "0 < unat offset" and "unat offset + unat len = length stream"
    and "unat len \<le> unat (getCapacity C p)"
    and "unat len * 9024 \<le> length out" and "length out < 2 ^ 31" and "beforeCopy s = []"
    and "\<not> throttled C T len offset p"
  shows "read C T s len offset 0 0 out p =
           Inr (Some (of_nat (unat len * 9024)),
                stream_bytes (drop (unat offset) stream) @ drop (unat len * 9024) out,
                after_read C T len offset p)"
proof -
  have pad: "padding_ok len 0 0" using assms(5) by (simp add: padding_ok_def)
  have avail: "unat offset + unat len \<le> length stream" using assms(7) by simp
  have kept: "length stream - unat offset \<le> unat (cb_capacity C (mCircBuf p))"
    using assms(7,8) by (simp add: getCapacity_def)
  have whole: "whole_chunks p len"
    using assms(2,6,7) by (simp add: whole_chunks_def pool_holds_def word_less_nat_alt)
  have room: "unat len * 9024 - unat (0 :: u64) - unat (0 :: u64) \<le> length out" using assms(9) by simp
  have "range_bytes stream (unat len) (unat offset) 0 0 = stream_bytes (drop (unat offset) stream)"
    using assms(7) by (simp add: range_bytes_def drop_stream_bytes)
  then show ?thesis
    using boost_rings.read_range [OF assms(1-3) pad avail kept whole room assms(10,11)] assms(12)
    by simp
qed

theorem pool_read_tail_untruncated_witness:
  "read list_ring list_ring undisturbed 1 1 0 0 (replicate 9024 0) demo_closed =
     Inr (Some 9024, replicate 9024 2, after_read list_ring list_ring 1 1 demo_closed)"
  using pool_read_tail_untruncated [OF lbr.boost_rings_axioms demo_closed_holds, of 1 1
      "replicate 9024 0" undisturbed] unthrottled [of demo_closed list_ring list_ring 1 1]
  by (simp add: getCapacity_def undisturbed_def demo_stream_def)

text \<open>
  C30: with the last buffer in, a read does not wait and its range is not cut: one that
  starts inside the stream and asks for more chunks than are left indexes the ring behind
  its last element.
\<close>

theorem pool_read_past_end:
  assumes "boost_rings C T" and "pool_holds C stream p" and "\<not> exitPending p" and "mGotLastBuffer p"
    and "padding_ok len l r" and "unat offset < length stream" and "length stream < unat offset + unat len"
    and "unat len \<le> unat (getCapacity C p)" and "length stream - unat offset \<le> unat (getCapacity C p)"
    and "(length stream - unat offset) * 9024 \<le> length out" and "length out < 2 ^ 31" and "beforeCopy s = []"
  shows "read C T s len offset l r out p = Inl RingIndexOutOfRange"
  using boost_rings.read_past_end_faults [OF assms(1-7) _ _ assms(10-12)] assms(8,9)
  by (simp add: getCapacity_def)

theorem pool_read_past_end_witness:
  "read list_ring list_ring undisturbed 2 1 0 0 (replicate 18048 0) demo_closed = Inl RingIndexOutOfRange"
  using pool_read_past_end [OF lbr.boost_rings_axioms demo_closed_holds, of 2 0 0 1
      "replicate 18048 0" undisturbed]
  by (simp add: getCapacity_def undisturbed_def padding_ok_def)

section \<open>A client that reads on\<close>

text \<open>\<open>k\<close> random accesses of \<open>n\<close> bytes each, one behind the other.\<close>

fun read_blocks ::
  "('c, buffer_chunk) circ_ops \<Rightarrow> ('t, u32) circ_ops \<Rightarrow> u64 \<Rightarrow> nat \<Rightarrow> u64 \<Rightarrow> ('c, 't) pool \<Rightarrow>
     u8 list outcome" where
  "read_blocks C T n 0 ob p = Inr []"
| "read_blocks C T n (Suc k) ob p =
     andthen (readRandomAccess C T undisturbed (replicate (unat n) 0) n ob p) (\<lambda>(ret, out, q).
     andthen (read_blocks C T n k (ob + n) q) (\<lambda>rest. Inr (out @ rest)))"

lemma after_read_keeps:
  "mCircBuf (after_read C T len offset p) = mCircBuf p"
  "mTotalBufCount (after_read C T len offset p) = mTotalBufCount p"
  "mGotLastBuffer (after_read C T len offset p) = mGotLastBuffer p"
  "exitPending (after_read C T len offset p) = exitPending p"
  by (simp_all add: after_read_def after_copy_def Let_def at_position_def)

lemma after_read_enabled:
  "mEnableThrottling (mThrottle (after_read C T len offset p)) = mEnableThrottling (mThrottle p)"
  by (simp add: after_read_def after_copy_def Let_def at_position_def setReadPosition_def wait_enter_def)

text \<open>
  While the stream is open, fits the ring and throttling is off, a client that reads
  it in blocks of any size gets the stream back, byte for byte.
\<close>

theorem pool_read_blocks:
  assumes "boost_rings C T" and "pool_holds C stream p" and "\<not> exitPending p" and "\<not> mGotLastBuffer p"
    and "\<not> mEnableThrottling (mThrottle p)" and "length stream \<le> unat (getCapacity C p)"
    and "length stream * 9024 < 2 ^ 64"
    and "0 < n" and "unat n < 2 ^ 31" and "unat ob + k * unat n \<le> length stream * 9024"
  shows "read_blocks C T n k ob p = Inr (take (k * unat n) (drop (unat ob) (stream_bytes stream)))"
  using assms(2-6,10)
proof (induction k arbitrary: ob p)
  case 0
  then show ?case by simp
next
  case (Suc k)
  let ?q = "after_read C T (access_length n ob) (ob div BUFFER_CHUNK_SIZE) p"
  have range: "unat ob + unat n \<le> length stream * 9024" "unat ob + unat n + k * unat n \<le> length stream * 9024"
    using Suc.prems(6) by simp_all
  have kept: "length stream - unat ob div 9024 \<le> unat (cb_capacity C (mCircBuf p))"
    using Suc.prems(5) by (simp add: getCapacity_def)
  have whole: "whole_chunks p (access_length n ob)" using Suc.prems(3) by (simp add: whole_chunks_def)
  have s: "beforeCopy undisturbed = []" by (simp add: undisturbed_def)
  have read: "readRandomAccess C T undisturbed (replicate (unat n) 0) n ob p =
      Inr (Some n, take (unat n) (drop (unat ob) (stream_bytes stream)), ?q)"
    using boost_rings.random_access_read(1) [OF assms(1) Suc.prems(1,2) assms(8) range(1) kept whole _ _ s,
      of "replicate (unat n) 0"] unthrottled [OF Suc.prems(4)] assms(9) by simp
  have next_ob: "unat (ob + n) = unat ob + unat n"
    using range(1) assms(7) by (intro unat_add_bounded) linarith
  have "pool_holds C stream ?q" using Suc.prems(1) by (simp add: pool_holds_def after_read_keeps)
  then have "read_blocks C T n k (ob + n) ?q =
      Inr (take (k * unat n) (drop (unat ob + unat n) (stream_bytes stream)))"
    using Suc.prems(2-5) range(2) Suc.IH [of ?q "ob + n"]
    by (simp add: after_read_keeps after_read_enabled getCapacity_def next_ob)
  moreover have "take (Suc k * unat n) (drop (unat ob) (stream_bytes stream)) =
      take (unat n) (drop (unat ob) (stream_bytes stream)) @
      take (k * unat n) (drop (unat ob + unat n) (stream_bytes stream))"
    unfolding mult_Suc take_add drop_drop by (simp only: add.commute)
  ultimately show ?case
    using read by (simp only: read_blocks.simps andthen.simps prod.case)
qed

theorem pool_read_blocks_witness:
  "read_blocks list_ring list_ring 6016 3 0 demo_pool = Inr (stream_bytes demo_stream)"
  using pool_read_blocks [OF lbr.boost_rings_axioms demo_pool_holds, of 6016 0 3]
  by (simp add: getCapacity_def)

end
