(* ===== verification/Pool_Races.thy ===== *)
theory Pool_Races
  imports Pool_Properties
begin

text \<open>
  Reads of a pool that others use at the same time: what can go wrong because \<open>read\<close> looks
  at the window of the ring under one lock and copies from it under another.
\<close>

section \<open>A read that is overtaken\<close>

lemma pool_dos_append:
  "pool_dos C T (es @ es') p = andthen (pool_dos C T es p) (pool_dos C T es')"
proof (induction es arbitrary: p)
  case (Cons e es)
  then show ?case by (cases "pool_do C T e p") simp_all
qed simp

context boost_rings
begin

lemma pushes_ok:
  assumes "pool_holds C stream p" and "0 < capacity p" and "pool_open p" and "thread_running (mThrottle p)"
    and "length stream + length bs < 2 ^ 64"
  shows "\<exists>q. pool_dos C T (concat (map push_batch bs)) p = Inr q \<and>
           pool_holds C (stream @ map snd bs) q \<and> capacity q = capacity p"
  using assms
proof (induction bs arbitrary: stream p)
  case (Cons c bs)
  have "length stream + 1 < 2 ^ 64" using Cons.prems(5) by simp
  from push_batch_ok [OF Cons.prems(1,2) this Cons.prems(3,4), of c] obtain p1 where
    p1: "pool_dos C T (push_batch c) p = Inr p1" "pool_holds C (stream @ [snd c]) p1"
    "capacity p1 = capacity p" "pool_open p1" "thread_running (mThrottle p1)" by blast
  have cap: "0 < capacity p1" and room: "length (stream @ [snd c]) + length bs < 2 ^ 64"
    using p1(3) Cons.prems(2,5) by simp_all
  from Cons.IH [OF p1(2) cap p1(4,5) room] p1(1,3) show ?case by (simp add: pool_dos_append)
qed simp

text \<open>The index of the first chunk, once the window has moved past it, wraps around.\<close>

lemma start_pos_passed:
  assumes hold: "pool_holds C stream p" and "unat offset \<le> length stream"
    and passed: "capacity p < length stream - unat offset"
  shows "length (chunks p) \<le> unat (start_pos C offset 0 p)"
proof -
  have total: "unat (mTotalBufCount p) = length stream" using hold by (simp add: pool_holds_def)
  have size: "length (chunks p) = capacity p" using holds_length [OF hold] passed by simp
  have d: "unat (mTotalBufCount p - offset) = length stream - unat offset"
    using assms(2) total by (subst unat_sub_le) (simp_all add: word_le_nat_alt)
  have m: "min (cb_size C (mCircBuf p)) (cb_capacity C (mCircBuf p)) = cb_size C (mCircBuf p)"
    using cr.size_le_capacity by (simp add: min_def)
  have less: "cb_size C (mCircBuf p) < mTotalBufCount p - offset"
    using passed size d by (simp add: word_less_nat_alt)
  have "unat (cb_size C (mCircBuf p) - (mTotalBufCount p - offset)) =
      2 ^ 64 + capacity p - (length stream - unat offset)"
    using less size d by (simp add: unat_sub_if_size word_le_nat_alt word_size word_less_nat_alt)
  moreover have "length stream - unat offset < 2 ^ 64"
    using unat_less_u64 [of "mTotalBufCount p - offset"] d by simp
  ultimately show ?thesis
    unfolding start_pos_def Let_def m size by simp
qed

lemma read_overtaken:
  assumes hold: "pool_holds C stream p" and open_: "pool_open p" and run: "thread_running (mThrottle p)"
    and pad: "padding_ok len l r" and avail: "unat offset + unat len \<le> length stream"
    and kept: "length stream - unat offset \<le> capacity p"
    and s: "beforeCopy s = concat (map push_batch bs)"
    and passed: "capacity p < length stream + length bs - unat offset" and room: "length stream + length bs < 2 ^ 64"
    and small: "length out < 2 ^ 31"
  shows "read C T s len offset l r out p = Inl RingIndexOutOfRange"
proof -
  have exit: "\<not> exitPending p" using open_ by (simp add: pool_open_def)
  have len: "0 < len" using pad by (simp add: padding_ok_def)
  have cap: "0 < capacity p" using kept avail len by (simp add: word_less_nat_alt)
  from pushes_ok [OF hold cap open_ run room] obtain q where
    q: "pool_dos C T (beforeCopy s) p = Inr q" "pool_holds C (stream @ map snd bs) q" "capacity q = capacity p"
    using s by auto
  have "length (chunks q) \<le> unat (start_pos C offset 0 q)"
    using avail passed q(3) by (intro start_pos_passed [OF q(2)]) simp_all
  with len small have "read_loop C len offset l r 0 (of_nat 0, out, q) = Inl RingIndexOutOfRange"
    by (intro read_loop_index_fault [where m = 0]) (simp_all add: pieces_def)
  moreover have "chunks q \<noteq> []"
    using holds_length [OF q(2)] q(3) cap passed by auto
  ultimately have "read_finish C T s len offset l r out p = Inl RingIndexOutOfRange"
    using q(1) by (simp add: read_finish_def read_copy_def)
  with read_enter_available(1) [OF hold exit pad avail kept] show ?thesis by (simp add: read_def)
qed

end

text \<open>
  C31: a read of chunks that are in the ring when it looks is overtaken when enough chunks are
  pushed before it takes the lock of the writer: the index it computes then wraps around, and
  it reads far outside the ring.
\<close>

theorem pool_read_overtaken:
  assumes "boost_rings C T" and "pool_holds C stream p" and "pool_open p" and "thread_running (mThrottle p)"
    and "padding_ok len l r" and "unat offset + unat len \<le> length stream"
    and "length stream - unat offset \<le> unat (getCapacity C p)"
    and "beforeCopy s = concat (map push_batch bs)"
    and "unat (getCapacity C p) < length stream + length bs - unat offset"
    and "length stream + length bs < 2 ^ 64" and "length out < 2 ^ 31"
  shows "read C T s len offset l r out p = Inl RingIndexOutOfRange"
  using boost_rings.read_overtaken [OF assms(1-6) _ assms(8) _ assms(10,11)] assms(7,9)
  by (simp add: getCapacity_def)

theorem pool_read_overtaken_witness:
  "read list_ring list_ring (undisturbed\<lparr>beforeCopy := concat (map push_batch [(5, chunk_fill 3), (6, chunk_fill 3), (7, chunk_fill 3)])\<rparr>)
     1 0 0 0 (replicate 9024 0) demo_pool = Inl RingIndexOutOfRange"
  using pool_read_overtaken [OF lbr.boost_rings_axioms demo_pool_holds, of 1 0 0 0
      "undisturbed\<lparr>beforeCopy := concat (map push_batch [(5, chunk_fill 3), (6, chunk_fill 3), (7, chunk_fill 3)])\<rparr>"
      "[(5, chunk_fill 3), (6, chunk_fill 3), (7, chunk_fill 3)]" "replicate 9024 0"]
  by (simp add: pool_open_def padding_ok_def getCapacity_def)

end
