(* ===== verification/Plugin_Service.thy ===== *)
theory Plugin_Service
  imports Queues
begin

text \<open>
  The base class of the plugins: the request type (export/streamfs/ServiceRequest.h) and the
  service thread (export/streamfs/PluginService.h, src/PluginService.cpp), which polls a
  message queue for requests.
\<close>

section \<open>Requests and state\<close>

datatype ServiceRequestEnum = START | STOP | PAUSE | RELOAD | RECONFIGURE | ABOUT_TO_KILL | CUSTOM_REQUEST

record ServiceRequest =
  seekLocation :: u64
  customRequest :: string
  sr_type :: ServiceRequestEnum
  sr_uri :: string

record plugin_service =
  mThread :: bool
  mServReq :: "ServiceRequest message_queue"

definition service_new :: plugin_service where
  "service_new = \<lparr>mThread = False, mServReq = []\<rparr>"

text \<open>The flag says whether a thread was started by this call.\<close>

definition service_start :: "plugin_service \<Rightarrow> bool \<times> plugin_service" where
  "service_start s = (if mThread s then (False, s) else (True, s\<lparr>mThread := True\<rparr>))"

definition pendingExit :: "plugin_service \<Rightarrow> bool" where
  "pendingExit s = False"

section \<open>The service loop\<close>

text \<open>
  One round of the loop. The message is a variable of the loop: \<open>getMessage\<close> overwrites it
  only when there is one, and the round goes on with the variable whatever the call
  returned. The flag says whether \<open>stopPlayback\<close> was called; the default branch, which the
  missing break falls into, only logs. Before the first message, the variable has whatever
  content the constructor left.
\<close>

definition service_round :: "ServiceRequest \<Rightarrow> plugin_service \<Rightarrow> bool \<times> ServiceRequest \<times> plugin_service" where
  "service_round msg s =
     (let (res, msg', q) = mq_getMessage msg (mServReq s)
      in (sr_type msg' = STOP, msg', s\<lparr>mServReq := q\<rparr>))"

text \<open>The first rounds of the loop, while nothing is pushed: the calls of \<open>stopPlayback\<close>.\<close>

fun service_loop :: "nat \<Rightarrow> ServiceRequest \<Rightarrow> plugin_service \<Rightarrow> bool list" where
  "service_loop 0 msg s = []"
| "service_loop (Suc k) msg s =
     (if pendingExit s then []
      else let (stopped, msg', s') = service_round msg s
           in stopped # service_loop k msg' s')"

text \<open>The message that round \<open>i\<close> acts on, for a queue and a first content of the variable.\<close>

definition acts_on :: "ServiceRequest \<Rightarrow> ServiceRequest list \<Rightarrow> nat \<Rightarrow> ServiceRequest" where
  "acts_on msg q i = (if i < length q then q ! i else last (msg # q))"

lemma service_loop_acts:
  "service_loop k msg s = map (\<lambda>i. sr_type (acts_on msg (mServReq s) i) = STOP) [0..<k]"
proof (induction k arbitrary: msg s)
  case 0
  then show ?case by simp
next
  case (Suc k)
  have upt: "[0..<Suc k] = 0 # map Suc [0..<k]"
    by (simp add: map_Suc_upt upt_conv_Cons del: upt_Suc)
  show ?case
  proof (cases "mServReq s")
    case Nil
    then show ?thesis
      using Suc.IH [of msg "s\<lparr>mServReq := []\<rparr>"] unfolding upt
      by (simp add: service_round_def mq_getMessage_def pendingExit_def acts_on_def comp_def)
  next
    case (Cons m ms)
    then show ?thesis
      using Suc.IH [of m "s\<lparr>mServReq := ms\<rparr>"] unfolding upt
      by (simp add: service_round_def mq_getMessage_def pendingExit_def acts_on_def comp_def)
  qed
qed

section \<open>Properties\<close>

text \<open>
  C40: the service thread acts on each queued request once, in order, and, from then on, on
  the last one again in every round: a stop request that nothing follows stops the playback
  in every round of the loop.
\<close>

theorem service_loop_repeats_last:
  assumes "mServReq s = q @ [m]" and "length q < k"
  shows "service_loop k msg s =
           map (\<lambda>r. sr_type r = STOP) (q @ replicate (k - length q) m)"
proof (rule nth_equalityI)
  show "length (service_loop k msg s) = length (map (\<lambda>r. sr_type r = STOP) (q @ replicate (k - length q) m))"
    using assms(2) by (simp add: service_loop_acts)
  fix i
  assume "i < length (service_loop k msg s)"
  then have "i < k" by (simp add: service_loop_acts)
  then show "service_loop k msg s ! i = map (\<lambda>r. sr_type r = STOP) (q @ replicate (k - length q) m) ! i"
    using assms by (auto simp: service_loop_acts acts_on_def nth_append)
qed

theorem service_loop_repeats_last_witness:
  "\<exists>r. sr_type r = STOP \<and> service_loop 3 r \<lparr>mThread = True, mServReq = [r]\<rparr> = [True, True, True]"
proof -
  let ?r = "\<lparr>seekLocation = 0, customRequest = [], sr_type = STOP, sr_uri = ''u''\<rparr>"
  show ?thesis
    using service_loop_repeats_last [of "\<lparr>mThread = True, mServReq = [?r]\<rparr>" "[]" ?r 3 ?r]
    by (intro exI [of _ ?r]) (simp add: replicate_few)
qed

end
