(* ===== verification/Pool_Streaming.thy ===== *)
theory Pool_Streaming
  imports Pool_Waiting
begin

text \<open>
  A pool that is read while it is filled and while its throttle is on: chunks arrive and the
  throttle thread takes its turns between the reads of one client, and each read returns
  after a bounded number of turns of the thread.
\<close>

section \<open>What happens between two reads\<close>

datatype stream_event =
    ThreadTurn bool
  | Arrival int buffer_chunk

fun stream_event_do ::
  "('c, buffer_chunk) circ_ops \<Rightarrow> ('t, u32) circ_ops \<Rightarrow> stream_event \<Rightarrow> ('c, 't) pool \<Rightarrow>
     ('c, 't) pool outcome" where
  "stream_event_do C T (ThreadTurn timed_out) p = pool_do C T (ThrottleThread timed_out) p"
| "stream_event_do C T (Arrival now chunk) p =
     andthen (pushBuffer C T now chunk False BUFFER_CHUNK_SIZE p) (\<lambda>(front, p'). Inr p')"

fun stream_events_do ::
  "('c, buffer_chunk) circ_ops \<Rightarrow> ('t, u32) circ_ops \<Rightarrow> stream_event list \<Rightarrow> ('c, 't) pool \<Rightarrow>
     ('c, 't) pool outcome" where
  "stream_events_do C T [] p = Inr p"
| "stream_events_do C T (e # es) p = andthen (stream_event_do C T e p) (stream_events_do C T es)"

fun arrived :: "stream_event list \<Rightarrow> buffer_chunk list" where
  "arrived [] = []"
| "arrived (ThreadTurn b # es) = arrived es"
| "arrived (Arrival now chunk # es) = chunk # arrived es"

text \<open>
  The turns that a throttled read grants the thread: three per chunk of the largest pool of
  the program (100 * 1024 chunks) and seven more.
\<close>

definition patient :: schedule where
  "patient = undisturbed\<lparr>duringThrottle := thread_steps 307207\<rparr>"

section \<open>The throttle thread stays at work\<close>

lemma thread_running_step: "thread_running t \<Longrightarrow> thread_running (loop_step T b t)"
  by (auto simp: thread_running_def start_signalled_loop)
    (auto simp: loop_step_def stop_throttle_def Let_def split: loop_pc.splits option.splits if_splits)

lemma thread_running_poll: "thread_running t \<Longrightarrow> thread_running (snd (wait_poll t))"
  using start_signalled_poll [of t]
  by (cases "wait_blocked t") (auto simp: thread_running_def wait_poll_def split: option.splits)

lemma thread_running_enter: "thread_running t \<Longrightarrow> thread_running (snd (wait_enter T t))"
  using start_signalled_enter [of t T]
  by (auto simp: thread_running_def wait_enter_def Let_def)

lemma running_register_same: "thread_running (registerTimePeriod T now t) = thread_running t"
  unfolding thread_running_def start_signalled_register
  by (simp add: registerTimePeriod_def Let_def case_prod_beta)

lemma throttle_block_threads:
  assumes "throttle_block C T (thread_steps k) p = Inr (b, q)" and "thread_running (mThrottle p)"
  shows "thread_running (mThrottle q) \<and> q = p\<lparr>mThrottle := mThrottle q\<rparr>"
  using assms
proof (induction k arbitrary: p)
  case 0
  then show ?case
    using thread_running_poll [of "mThrottle p"] by (auto simp: thread_steps_def case_prod_beta Let_def)
next
  case (Suc k)
  let ?t = "snd (wait_poll (mThrottle p))"
  have t: "thread_running ?t" by (rule thread_running_poll [OF Suc.prems(2)])
  show ?case
  proof (cases "fst (wait_poll (mThrottle p))")
    case True
    with Suc.prems(1) t show ?thesis by (auto simp: thread_steps_def case_prod_beta Let_def)
  next
    case False
    with Suc.prems(1) have "throttle_block C T (thread_steps k) (p\<lparr>mThrottle := loop_step T True ?t\<rparr>) = Inr (b, q)"
      by (simp add: thread_steps_def case_prod_beta Let_def)
    from Suc.IH [OF this] thread_running_step [OF t] show ?thesis by simp
  qed
qed

text \<open>More turns than needed change nothing.\<close>

lemma throttle_block_more:
  assumes "throttle_block C T (thread_steps k) p = Inr (True, q)" and "k \<le> k'"
  shows "throttle_block C T (thread_steps k') p = Inr (True, q)"
  using assms
proof (induction k arbitrary: p k')
  case 0
  then have "fst (wait_poll (mThrottle p))" by (simp add: thread_steps_def case_prod_beta Let_def)
  with 0(1) show ?case
    by (cases k') (simp_all add: thread_steps_def case_prod_beta Let_def)
next
  case (Suc k)
  then obtain j where j: "k' = Suc j" "k \<le> j" by (cases k') auto
  show ?case
  proof (cases "fst (wait_poll (mThrottle p))")
    case True
    with Suc.prems(1) j(1) show ?thesis by (simp add: thread_steps_def case_prod_beta Let_def)
  next
    case False
    let ?p = "p\<lparr>mThrottle := loop_step T True (snd (wait_poll (mThrottle p)))\<rparr>"
    from False Suc.prems(1) have "throttle_block C T (thread_steps k) ?p = Inr (True, q)"
      by (simp add: thread_steps_def case_prod_beta Let_def)
    from Suc.IH [OF this j(2)] False j(1) show ?thesis
      by (simp add: thread_steps_def case_prod_beta Let_def)
  qed
qed

section \<open>A pool at work\<close>

text \<open>
  The pool stands for \<open>stream\<close>, it is open and not about to abort a read, and its throttle
  thread runs.
\<close>

definition streaming :: "('c, buffer_chunk) circ_ops \<Rightarrow> buffer_chunk list \<Rightarrow> ('c, 't) pool \<Rightarrow> bool" where
  "streaming C stream p \<longleftrightarrow>
     pool_holds C stream p \<and> pool_open p \<and> unat (cb_capacity C (mCircBuf p)) = 102400 \<and> thread_running (mThrottle p)"

context boost_rings
begin

lemma streaming_new: "streaming C [] (pool_new C T 102400)"
  using holds_new [of 102400] by (simp add: streaming_def pool_open_def thread_running_new pool_new_def)

lemma streaming_turn:
  "streaming C stream p \<Longrightarrow> streaming C stream (p\<lparr>mThrottle := loop_step T b (mThrottle p)\<rparr>)"
  by (simp add: streaming_def pool_open_def pool_holds_def thread_running_step)

lemma streaming_arrival:
  assumes "streaming C stream p" and "length stream + 1 < 2 ^ 64"
  shows "\<exists>front q. pushBuffer C T now chunk False n p = Inr (front, q) \<and> streaming C (stream @ [chunk]) q"
proof -
  let ?p = "push_register T now p"
  have p: "pool_holds C stream ?p" "0 < capacity ?p"
    using assms(1) by (simp_all add: streaming_def pool_holds_def push_register_def)
  from push_commit_ok [OF p assms(2), of chunk False n] obtain q where
    q: "push_commit C chunk False n ?p = Inr (hd (chunks q), q)" "pool_holds C (stream @ [chunk]) q"
    "capacity q = capacity ?p" "mGotLastBuffer q = mGotLastBuffer ?p" "mThrottle q = mThrottle ?p"
    "exitPending q = exitPending ?p" "mAborting q = mAborting ?p" by auto
  with assms(1) show ?thesis
    by (auto simp: pushBuffer_def streaming_def pool_open_def push_register_def running_register_same)
qed

lemma streaming_events:
  assumes "streaming C stream p" and "length stream + length (arrived es) < 2 ^ 64"
  shows "\<exists>q. stream_events_do C T es p = Inr q \<and> streaming C (stream @ arrived es) q"
  using assms
proof (induction es arbitrary: stream p)
  case (Cons e es)
  show ?case
  proof (cases e)
    case (ThreadTurn b)
    with Cons.IH [OF streaming_turn [OF Cons.prems(1)], of b] Cons.prems(2) show ?thesis by simp
  next
    case (Arrival now chunk)
    with Cons.prems(2) have "length stream + 1 < 2 ^ 64" by simp
    from streaming_arrival [OF Cons.prems(1) this] obtain front p1 where
      p1: "pushBuffer C T now chunk False BUFFER_CHUNK_SIZE p = Inr (front, p1)" "streaming C (stream @ [chunk]) p1"
      by blast
    from Cons.IH [OF p1(2)] Cons.prems(2) Arrival p1(1) show ?thesis by simp
  qed
qed simp

text \<open>A read of what has arrived returns, throttled or not, and the pool goes on.\<close>

lemma streaming_read:
  assumes p: "streaming C stream p" and n: "0 < n" and range: "unat ob + unat n \<le> length stream * 9024"
    and fits: "length stream - unat ob div 9024 \<le> 102400" and room: "unat n \<le> length out" "length out < 2 ^ 31"
  shows "\<exists>q. readRandomAccess C T patient out n ob p =
           Inr (Some n, take (unat n) (drop (unat ob) (stream_bytes stream)) @ drop (unat n) out, q) \<and>
         streaming C stream q"
proof -
  let ?q = "after_read C T (access_length n ob) (ob div BUFFER_CHUNK_SIZE) p"
  have hold: "pool_holds C stream p" and exit: "\<not> exitPending p" and run: "thread_running (mThrottle p)"
    and whole: "whole_chunks p (access_length n ob)" and kept: "length stream - unat ob div 9024 \<le> capacity p"
    using p fits by (simp_all add: streaming_def pool_open_def whole_chunks_def)
  have s: "beforeCopy patient = []" by (simp add: patient_def undisturbed_def)
  note read = random_access_read [OF hold exit n range kept whole room s]
  have run_q: "thread_running (mThrottle ?q)"
    using run thread_running_enter [of "mThrottle (after_copy C (access_length n ob) (ob div BUFFER_CHUNK_SIZE) p)"]
    by (simp add: after_read_def after_copy_def at_position_def setReadPosition_def thread_running_def
        start_signalled_def Let_def)
  have q: "streaming C stream ?q"
    using p run_q by (simp add: streaming_def pool_open_def pool_holds_def after_read_def after_copy_def at_position_def Let_def)
  show ?thesis
  proof (cases "throttled C T (access_length n ob) (ob div BUFFER_CHUNK_SIZE) p")
    case False
    with read(1) q show ?thesis by auto
  next
    case True
    note live = after_read_live [OF holds_represents [OF hold] read(2,3) run]
    from throttle_block_released [OF live(1)] obtain k q' where k: "k \<le> release_rank (mThrottle ?q)"
      "throttle_block C T (thread_steps k) ?q = Inr (True, q')" by blast
    have "length (chunks p) \<le> capacity p" by (rule cr.elems_bounded)
    with p have "length (chunks p) \<le> 102400" by (simp add: streaming_def)
    with k(1) live(2) release_rank_bound [of "mThrottle ?q"] have "k \<le> 307207" by linarith
    from throttle_block_more [OF k(2) this] have run': "throttle_block C T (duringThrottle patient) ?q = Inr (True, q')"
      by (simp add: patient_def)
    from throttle_block_threads [OF k(2) run_q] have t: "thread_running (mThrottle q')" "q' = ?q\<lparr>mThrottle := mThrottle q'\<rparr>"
      by blast+
    have "streaming C stream (?q\<lparr>mThrottle := mThrottle q'\<rparr>)"
      using q t(1) by (simp add: streaming_def pool_open_def pool_holds_def)
    with read(1) True run' t(2) show ?thesis by simp
  qed
qed

text \<open>
  A read of what has not arrived yet waits in vain; one in front of the window of the ring is
  refused. Both return zero and change nothing.
\<close>

lemma access_end:
  assumes "0 < n" and "unat n < 2 ^ 31"
  shows "padding_ok (access_length n ob) (access_left ob) (access_right n ob)"
    and "unat ob + unat n \<le> (unat (ob div BUFFER_CHUNK_SIZE) + unat (access_length n ob)) * 9024"
proof -
  have small: "unat n + 18048 < 2 ^ 64" using assms(2) by simp
  show "padding_ok (access_length n ob) (access_left ob) (access_right n ob)"
    by (rule access_range(1) [OF assms(1) _ small, where stream = "replicate (unat ob + unat n) undefined"]) simp
  show "unat ob + unat n \<le> (unat (ob div BUFFER_CHUNK_SIZE) + unat (access_length n ob)) * 9024"
    unfolding distrib_right access_length_nat [OF small] access_offset_nat access_left_nat
    using div_mult_mod_eq [of "unat ob" 9024] by linarith
qed

lemma streaming_read_none:
  assumes p: "streaming C stream p" and n: "0 < n" "unat n < 2 ^ 31"
    and out_of_reach: "length stream * 9024 < unat ob + unat n \<or> 102400 < length stream - unat ob div 9024"
  shows "readRandomAccess C T patient out n ob p = Inr (Some 0, out, p)"
proof -
  let ?len = "access_length n ob" and ?offset = "ob div BUFFER_CHUNK_SIZE"
  have hold: "pool_holds C stream p" and open_: "pool_open p" and cap: "capacity p = 102400"
    using p by (simp_all add: streaming_def)
  have wait: "duringWait patient = []" by (simp add: patient_def undisturbed_def)
  show ?thesis
  proof (cases "length stream < unat ?offset \<or> capacity p < unat ?len \<or>
      unat ?offset \<le> length stream \<and> capacity p < length stream - unat ?offset")
    case True
    with read_refused [OF hold] show ?thesis unfolding readRandomAccess_def by blast
  next
    case False
    then have in_ring: "unat ?offset \<le> length stream" "unat ?len \<le> capacity p"
      "length stream - unat ?offset \<le> capacity p" by auto
    have "length stream * 9024 < unat ob + unat n"
      using out_of_reach in_ring(3) cap by (simp add: access_offset_nat)
    with access_end(2) [OF n, of ob] have past: "length stream < unat ?offset + unat ?len" by simp
    have "unat ?offset * 9024 \<le> unat ob" unfolding access_offset_nat by simp
    then have "unat ?offset * 9024 < 18446744073709551616" using unat_less_u64 [of ob] by (rule le_less_trans)
    moreover have "unat ?len \<le> 102400" using in_ring(2) cap by simp
    ultimately have "unat ?offset + unat ?len < 2 ^ 64" by simp
    from read_times_out [OF hold open_ access_end(1) [OF n] in_ring(1) past this in_ring(2) wait] show ?thesis
      unfolding readRandomAccess_def .
  qed
qed

end

end
