(* ===== verification/Path_Interface.thy ===== *)
theory Path_Interface
  imports Stream_Config
begin

text \<open>
  The paths of Boost's file system library, which the FUSE callbacks take apart, are code
  outside the repository: a parameter of the model, with the documented iteration over the
  elements of a path as the assumptions of a locale. \<open>compare\<close> compares two paths element
  by element.

  Stepping behind the last element, and reading an element there, is outside what the
  library documents. \<open>fs_past_end\<close> says what it does: a fault, or the string it yields.
\<close>

record path_ops =
  fs_elems :: "string \<Rightarrow> string list"
  fs_past_end :: "string outcome"

text \<open>\<open>*std::next(p.begin(), i)\<close>, and moving the iterator there without reading.\<close>

definition path_at :: "path_ops \<Rightarrow> string \<Rightarrow> nat \<Rightarrow> string outcome" where
  "path_at P path i = (if i < length (fs_elems P path) then Inr (fs_elems P path ! i) else fs_past_end P)"

definition path_advance :: "path_ops \<Rightarrow> string \<Rightarrow> nat \<Rightarrow> unit outcome" where
  "path_advance P path i =
     (if i \<le> length (fs_elems P path) then Inr () else andthen (fs_past_end P) (\<lambda>s. Inr ()))"

definition path_equal :: "path_ops \<Rightarrow> string \<Rightarrow> string \<Rightarrow> bool" where
  "path_equal P p q \<longleftrightarrow> fs_elems P p = fs_elems P q"

text \<open>A file name: not empty, without a slash.\<close>

definition name_ok :: "string \<Rightarrow> bool" where
  "name_ok n \<longleftrightarrow> n \<noteq> [] \<and> CHR ''/'' \<notin> set n"

abbreviation top_path :: "string \<Rightarrow> string" where
  "top_path a \<equiv> CHR ''/'' # a"

abbreviation file_path :: "string \<Rightarrow> string \<Rightarrow> string" where
  "file_path a b \<equiv> CHR ''/'' # a @ CHR ''/'' # b"

locale boost_path =
  fixes P :: path_ops
  assumes elems_root: "fs_elems P ''/'' = [''/'']"
    and elems_top: "name_ok a \<Longrightarrow> fs_elems P (top_path a) = [''/'', a]"
    and elems_file: "name_ok a \<Longrightarrow> name_ok b \<Longrightarrow> fs_elems P (file_path a b) = [''/'', a, b]"
begin

lemma file_at:
  assumes "name_ok a" and "name_ok b"
  shows "path_at P (file_path a b) (Suc 0) = Inr a" and "path_at P (file_path a b) 2 = Inr b"
    and "i \<le> 3 \<Longrightarrow> path_advance P (file_path a b) i = Inr ()"
    and "name_ok c \<Longrightarrow> \<not> path_equal P (file_path a b) (top_path c)"
    and "\<not> path_equal P (file_path a b) ''/''"
  by (simp_all add: path_at_def path_advance_def path_equal_def elems_file [OF assms] elems_top elems_root)

lemma top_at:
  assumes "name_ok a"
  shows "path_at P (top_path a) (Suc 0) = Inr a"
    and "i \<le> 2 \<Longrightarrow> path_advance P (top_path a) i = Inr ()"
    and "name_ok c \<Longrightarrow> path_equal P (top_path a) (top_path c) \<longleftrightarrow> a = c"
    and "\<not> path_equal P (top_path a) ''/''"
  by (auto simp: path_at_def path_advance_def path_equal_def elems_top [OF assms] elems_top elems_root)

lemma root_at:
  shows "path_at P ''/'' (Suc 0) = fs_past_end P" and "path_advance P ''/'' (Suc 0) = Inr ()"
    and "path_advance P ''/'' 2 = andthen (fs_past_end P) (\<lambda>s. Inr ())"
    and "path_equal P ''/'' ''/''"
  by (simp_all add: path_at_def path_advance_def path_equal_def elems_root)

end

section \<open>The assumptions are consistent: splitting at slashes\<close>

fun split_slash :: "string \<Rightarrow> string \<Rightarrow> string list" where
  "split_slash acc [] = [acc]"
| "split_slash acc (c # s) = (if c = CHR ''/'' then acc # split_slash [] s else split_slash (acc @ [c]) s)"

definition slash_paths :: "string outcome \<Rightarrow> path_ops" where
  "slash_paths e =
     \<lparr>fs_elems = (\<lambda>s. (if s \<noteq> [] \<and> hd s = CHR ''/'' then [''/''] else []) @
                   filter (\<lambda>x. x \<noteq> []) (split_slash [] s)),
      fs_past_end = e\<rparr>"

lemma split_slash_name: "CHR ''/'' \<notin> set a \<Longrightarrow> split_slash acc a = [acc @ a]"
  by (induction a arbitrary: acc) auto

lemma split_slash_join:
  "CHR ''/'' \<notin> set a \<Longrightarrow> split_slash acc (a @ CHR ''/'' # s) = (acc @ a) # split_slash [] s"
  by (induction a arbitrary: acc) auto

interpretation sp: boost_path "slash_paths e" for e
  by unfold_locales
    (auto simp: slash_paths_def name_ok_def split_slash_name split_slash_join)

end
