(* ===== verification/Std_Map.thy ===== *)
theory Std_Map
  imports Stream_Config "HOL-Library.Char_ord" "HOL-Library.List_Lexorder"
begin

text \<open>
  \<open>std::map\<close> and \<open>std::set\<close>: the entries in the order of their keys. An insertion of a key
  that is present changes nothing, an assignment through the subscript replaces. Strings
  are compared character by character, which is the order of \<open>std::string\<close>.

  What the components use of a map is a locale; it is interpreted on the list of entries.
\<close>

section \<open>The contract\<close>

locale std_map =
  fixes find :: "'k \<Rightarrow> 'm \<Rightarrow> 'v option"
    and insert :: "'k \<Rightarrow> 'v \<Rightarrow> 'm \<Rightarrow> 'm"
    and assign :: "'k \<Rightarrow> 'v \<Rightarrow> 'm \<Rightarrow> 'm"
    and erase :: "'k \<Rightarrow> 'm \<Rightarrow> 'm"
    and keys :: "'m \<Rightarrow> 'k list"
  assumes find_insert: "find k (insert k' v m) = (if k = k' \<and> find k' m = None then Some v else find k m)"
    and find_assign: "find k (assign k' v m) = (if k = k' then Some v else find k m)"
    and find_erase: "find k (erase k' m) = (if k = k' then None else find k m)"
    and keys_find: "k \<in> set (keys m) \<longleftrightarrow> find k m \<noteq> None"
begin

lemma insert_new: "find k m = None \<Longrightarrow> find k (insert k v m) = Some v"
  by (simp add: find_insert)

lemma insert_first_wins: "find k (insert k w (insert k v m)) = find k (insert k v m)"
  by (simp add: find_insert)

lemma insert_keeps: "find k m = Some v \<Longrightarrow> find k (insert k' w m) = Some v"
  by (auto simp: find_insert)

lemma erase_after_insert: "find k m = None \<Longrightarrow> find j (erase k (insert k v m)) = find j m"
  by (simp add: find_insert find_erase)

lemma keys_insert: "set (keys (insert k v m)) = {k} \<union> set (keys m)"
  by (auto simp: keys_find find_insert split: if_splits)

lemma keys_assign: "set (keys (assign k v m)) = {k} \<union> set (keys m)"
  by (auto simp: keys_find find_assign split: if_splits)

lemma keys_erase: "set (keys (erase k m)) = set (keys m) - {k}"
  by (auto simp: keys_find find_erase split: if_splits)

end

section \<open>Sorted entries\<close>

type_synonym ('k, 'v) std_map = "('k \<times> 'v) list"

definition sm_find :: "'k \<Rightarrow> ('k, 'v) std_map \<Rightarrow> 'v option" where
  "sm_find k m = map_of m k"

definition sm_erase :: "'k \<Rightarrow> ('k, 'v) std_map \<Rightarrow> ('k, 'v) std_map" where
  "sm_erase k m = filter (\<lambda>e. fst e \<noteq> k) m"

definition sm_insert :: "'k::linorder \<Rightarrow> 'v \<Rightarrow> ('k, 'v) std_map \<Rightarrow> ('k, 'v) std_map" where
  "sm_insert k v m = (if sm_find k m = None then insort_key fst (k, v) m else m)"

definition sm_assign :: "'k::linorder \<Rightarrow> 'v \<Rightarrow> ('k, 'v) std_map \<Rightarrow> ('k, 'v) std_map" where
  "sm_assign k v m = insort_key fst (k, v) (sm_erase k m)"

definition sm_keys :: "('k, 'v) std_map \<Rightarrow> 'k list" where
  "sm_keys m = map fst m"

lemma map_of_insort:
  "k \<notin> fst ` set m \<Longrightarrow> map_of (insort_key fst (k, v) m) = (map_of m)(k \<mapsto> v)"
  by (induction m) (auto simp: fun_eq_iff)

lemma sm_find_erase: "sm_find k (sm_erase k' m) = (if k = k' then None else sm_find k m)"
  unfolding sm_find_def sm_erase_def by (induction m) auto

lemma sm_find_None: "sm_find k m = None \<longleftrightarrow> k \<notin> fst ` set m"
  by (simp add: sm_find_def map_of_eq_None_iff)

lemma sm_find_insert:
  "sm_find k (sm_insert k' v m) = (if k = k' \<and> sm_find k' m = None then Some v else sm_find k m)"
  by (auto simp: sm_insert_def sm_find_None map_of_insort sm_find_def map_of_eq_None_iff)

lemma sm_find_assign: "sm_find k (sm_assign k' v m) = (if k = k' then Some v else sm_find k m)"
proof -
  have "k' \<notin> fst ` set (sm_erase k' m)" by (auto simp: sm_erase_def)
  then show ?thesis
    using sm_find_erase [of k k' m] by (simp add: sm_assign_def sm_find_def map_of_insort)
qed

lemma sm_keys_find: "k \<in> set (sm_keys m) \<longleftrightarrow> sm_find k m \<noteq> None"
  by (simp add: sm_keys_def sm_find_None)

interpretation sm: std_map sm_find sm_insert sm_assign sm_erase sm_keys
  by unfold_locales (simp_all add: sm_find_insert sm_find_assign sm_find_erase sm_keys_find)

lemma sm_find_empty [simp]: "sm_find k [] = None"
  by (simp add: sm_find_def)

text \<open>The keys stay sorted and distinct.\<close>

definition sm_ok :: "('k::linorder, 'v) std_map \<Rightarrow> bool" where
  "sm_ok m \<longleftrightarrow> sorted (sm_keys m) \<and> distinct (sm_keys m)"

lemma distinct_insort_fst:
  "k \<notin> fst ` set m \<Longrightarrow> distinct (map fst m) \<Longrightarrow> distinct (map fst (insort_key fst (k, v) m))"
  by (induction m) (auto simp: set_insort_key)

lemma sm_ok_erase: "sm_ok m \<Longrightarrow> sm_ok (sm_erase k m)"
  by (auto simp: sm_ok_def sm_keys_def sm_erase_def intro: sorted_filter distinct_map_filter)

lemma sm_ok_insert: "sm_ok m \<Longrightarrow> sm_ok (sm_insert k v m)"
  by (auto simp: sm_ok_def sm_keys_def sm_insert_def sm_find_None sorted_insort_key distinct_insort_fst)

lemma sm_ok_assign: "sm_ok m \<Longrightarrow> sm_ok (sm_assign k v m)"
  using sm_ok_erase [of m k]
  by (auto simp: sm_ok_def sm_keys_def sm_assign_def sorted_insort_key sm_erase_def
      intro!: distinct_insort_fst)

lemma sm_ok_empty: "sm_ok []"
  by (simp add: sm_ok_def sm_keys_def)

end
