(* ===== verification/Virtual_FS.thy ===== *)
theory Virtual_FS
  imports Path_Interface Std_Map
begin

text \<open>
  The plugin side of the file system: what the core calls on a plugin
  (export/streamfs/PluginInterface.h), the callback object each plugin is given
  (include/streamfs/PluginCbImpl.h, src/PluginCbImpl.cpp) and the directory of a plugin
  (include/streamfs/VirtualFSProvider.h, src/VirtualFSProvider.cpp).

  A plugin is a shared library, loaded at run time: its operations are a parameter. \<open>'p\<close>
  is the state of a plugin object.
\<close>

section \<open>Plugins\<close>

text \<open>The callback object. \<open>updateConfig\<close> only takes its lock.\<close>

record plugin_cb =
  mStreamIds :: "string list"
  mId :: string
  mCBHandler :: bool

definition plugin_cb_new :: "string \<Rightarrow> plugin_cb" where
  "plugin_cb_new i = \<lparr>mStreamIds = [], mId = i, mCBHandler = False\<rparr>"

definition cb_setAvailableStreams :: "string list \<Rightarrow> plugin_cb \<Rightarrow> plugin_cb" where
  "cb_setAvailableStreams streamIds cb = cb\<lparr>mStreamIds := streamIds\<rparr>"

definition cb_updateConfig :: "plugin_cb \<Rightarrow> plugin_cb" where
  "cb_updateConfig cb = cb"

definition cb_getAvailableStreams :: "plugin_cb \<Rightarrow> string list" where
  "cb_getAvailableStreams cb = mStreamIds cb"

definition cb_registerCallbackHandler :: "plugin_cb \<Rightarrow> plugin_cb" where
  "cb_registerCallbackHandler cb = cb\<lparr>mCBHandler := True\<rparr>"

text \<open>A plugin object, with the callback object its base class calls.\<close>

record 'p plugin =
  pl_state :: 'p
  pl_cb :: plugin_cb

text \<open>
  The operations of a plugin. They may also change the list of streams, through the
  callback object.
\<close>

record 'p plugin_ops =
  pi_getId :: "'p plugin \<Rightarrow> string"
  pi_getInterfaceVersion :: "'p plugin \<Rightarrow> u32"
  pi_open :: "string \<Rightarrow> 'p plugin \<Rightarrow> c_int \<times> 'p plugin"
  pi_read :: "u64 \<Rightarrow> string \<Rightarrow> u8 list \<Rightarrow> u64 \<Rightarrow> u64 \<Rightarrow> 'p plugin \<Rightarrow> c_int \<times> u8 list \<times> 'p plugin"
  pi_write :: "string \<Rightarrow> u8 list \<Rightarrow> u64 \<Rightarrow> u64 \<Rightarrow> 'p plugin \<Rightarrow> c_int \<times> 'p plugin"
  pi_release :: "u64 \<Rightarrow> string \<Rightarrow> 'p plugin \<Rightarrow> c_int \<times> 'p plugin"
  pi_getSize :: "string \<Rightarrow> 'p plugin \<Rightarrow> u64"

definition getAvailableStreams :: "'p plugin \<Rightarrow> string list" where
  "getAvailableStreams x = cb_getAvailableStreams (pl_cb x)"

section \<open>The directory of a plugin\<close>

datatype NodeTypes = FILE_TYPE | DIRECTORY_TYPE

text \<open>The provider of a node is the directory itself or one of its subdirectories.\<close>

record file_node =
  fn_name :: string
  fn_provider :: "nat option"
  fn_type :: NodeTypes

text \<open>
  \<open>mCb\<close> is a weak pointer: \<open>None\<close> when the plugin is gone. The subdirectories are
  a set of pointers; here their names, in the order of the set.
\<close>

record 'p provider =
  mName :: string
  mCb :: "'p plugin option"
  mSubProviders :: "string list"
  mIsPluginHandler :: bool

text \<open>
  The constructor ends the program when the name is empty or the plugin is gone. The flag
  says whether the directory is to be registered with the file system.
\<close>

definition provider_new :: "string \<Rightarrow> 'p plugin option \<Rightarrow> bool \<Rightarrow> ('p provider \<times> bool) option" where
  "provider_new name cb isPlugin =
     (if name = [] then None
      else if cb = None then None
      else Some (\<lparr>mName = name, mCb = cb, mSubProviders = [], mIsPluginHandler = isPlugin\<rparr>, isPlugin))"

definition getName :: "'p provider \<Rightarrow> string" where
  "getName v = mName v"

text \<open>\<open>attachProvider\<close>, for a pointer that may be null.\<close>

definition attachProvider :: "'p provider option \<Rightarrow> 'p provider \<Rightarrow> c_int \<times> 'p provider" where
  "attachProvider sub v =
     (case sub of
        None \<Rightarrow> (- 1, v)
      | Some s \<Rightarrow>
          (case mCb v of
             None \<Rightarrow> (- 1, v)
           | Some x \<Rightarrow>
               if getName s \<in> set (getAvailableStreams x) then (- 2, v)
               else (0, v\<lparr>mSubProviders := mSubProviders v @ [getName s]\<rparr>)))"

text \<open>The name of a subdirectory's node is never set.\<close>

definition getNodes :: "'p provider \<Rightarrow> file_node list" where
  "getNodes v =
     (case mCb v of
        Some x \<Rightarrow>
          map (\<lambda>name. \<lparr>fn_name = name, fn_provider = None, fn_type = FILE_TYPE\<rparr>) (getAvailableStreams x)
      | None \<Rightarrow> []) @
     map (\<lambda>i. \<lparr>fn_name = [], fn_provider = Some i, fn_type = DIRECTORY_TYPE\<rparr>) [0..<length (mSubProviders v)]"

section \<open>Calls that go on to the plugin\<close>

definition ENOENT :: c_int where
  "ENOENT = 2"

definition vfs_read ::
  "'p plugin_ops \<Rightarrow> u64 \<Rightarrow> string \<Rightarrow> u8 list \<Rightarrow> u64 \<Rightarrow> u64 \<Rightarrow> 'p provider \<Rightarrow> c_int \<times> u8 list \<times> 'p provider" where
  "vfs_read I handle node buf size' offset v =
     (case mCb v of
        Some x \<Rightarrow> (let (res, buf', p) = pi_read I handle node buf size' offset x
                   in (res, buf', v\<lparr>mCb := Some p\<rparr>))
      | None \<Rightarrow> (- ENOENT, buf, v))"

definition vfs_open :: "'p plugin_ops \<Rightarrow> string \<Rightarrow> 'p provider \<Rightarrow> c_int \<times> 'p provider" where
  "vfs_open I node v =
     (case mCb v of
        Some x \<Rightarrow> (let (res, p) = pi_open I node x in (res, v\<lparr>mCb := Some p\<rparr>))
      | None \<Rightarrow> (- ENOENT, v))"

definition vfs_write ::
  "'p plugin_ops \<Rightarrow> string \<Rightarrow> u8 list \<Rightarrow> u64 \<Rightarrow> u64 \<Rightarrow> 'p provider \<Rightarrow> c_int \<times> 'p provider" where
  "vfs_write I node buf size' offset v =
     (case mCb v of
        Some x \<Rightarrow> (let (res, p) = pi_write I node buf size' offset x
                   in (res, v\<lparr>mCb := Some p\<rparr>))
      | None \<Rightarrow> (- 1, v))"

definition vfs_release :: "'p plugin_ops \<Rightarrow> u64 \<Rightarrow> string \<Rightarrow> 'p provider \<Rightarrow> c_int \<times> 'p provider" where
  "vfs_release I handle nodeName v =
     (case mCb v of
        Some x \<Rightarrow> (let (res, p) = pi_release I handle nodeName x
                   in (res, v\<lparr>mCb := Some p\<rparr>))
      | None \<Rightarrow> (0, v))"

definition vfs_getSize :: "'p plugin_ops \<Rightarrow> string \<Rightarrow> 'p provider \<Rightarrow> u64" where
  "vfs_getSize I nodeName v = (case mCb v of Some x \<Rightarrow> pi_getSize I nodeName x | None \<Rightarrow> 0)"

section \<open>The files of a directory\<close>

definition vfs_files :: "'p provider \<Rightarrow> string list" where
  "vfs_files v = (case mCb v of None \<Rightarrow> [] | Some x \<Rightarrow> getAvailableStreams x)"

lemma node_names:
  "map fn_name (getNodes v) = vfs_files v @ replicate (length (mSubProviders v)) []"
  by (cases "mCb v") (simp_all add: getNodes_def vfs_files_def comp_def map_replicate_const)

lemma node_named_iff:
  assumes "n \<noteq> []"
  shows "(\<exists>node \<in> set (getNodes v). fn_name node = n) \<longleftrightarrow> n \<in> set (vfs_files v)"
proof -
  have "(\<exists>node \<in> set (getNodes v). fn_name node = n) \<longleftrightarrow> n \<in> set (map fn_name (getNodes v))" by auto
  with assms show ?thesis unfolding node_names by simp
qed

lemma node_named_file:
  "node \<in> set (getNodes v) \<Longrightarrow> fn_name node \<noteq> [] \<Longrightarrow> fn_type node = FILE_TYPE"
  by (cases "mCb v") (auto simp: getNodes_def)

lemma length_getNodes: "length (getNodes v) = length (vfs_files v) + length (mSubProviders v)"
  by (simp add: getNodes_def vfs_files_def split: option.splits)

text \<open>The calls keep the name and the subdirectories.\<close>

definition same_directory :: "'p provider \<Rightarrow> 'p provider \<Rightarrow> bool" where
  "same_directory v w \<longleftrightarrow> mName w = mName v \<and> mSubProviders w = mSubProviders v"

lemma vfs_calls_keep:
  "same_directory v (snd (vfs_open I node v))"
  "same_directory v (snd (snd (vfs_read I handle node buf size' offset v)))"
  "same_directory v (snd (vfs_write I node buf size' offset v))"
  "same_directory v (snd (vfs_release I handle node v))"
  by (simp_all add: same_directory_def vfs_open_def vfs_read_def vfs_write_def vfs_release_def
      case_prod_beta Let_def split: option.splits)

end
