(* ===== verification/Debug_Options.thy ===== *)
theory Debug_Options
  imports Stream_Config
begin

text \<open>
  The debug options (export/streamfs/DebugOptions.h) and the conversions between their
  values and the text of the control files, as src/fuse/IFuse.cpp uses them: \<open>intToHex\<close>,
  and the functions \<open>stoul\<close>, \<open>stoi\<close> and \<open>to_string\<close> of the standard library, in the
  classic locale. A result \<open>None\<close> of a parser is an exception.
\<close>

section \<open>Options\<close>

record debug_options =
  debugLevel :: u32
  tsDumpEnable :: bool

section \<open>Bytes and characters\<close>

definition bytes_of :: "string \<Rightarrow> u8 list" where
  "bytes_of s = map of_char s"

definition string_of :: "u8 list \<Rightarrow> string" where
  "string_of bs = map (\<lambda>b. char_of (unat b)) bs"

lemma byte_of_char: "char_of (unat (of_char c :: u8)) = c"
proof -
  have "(of_char c :: u8) = of_nat (of_char c)" by (simp add: of_nat_of_char)
  moreover have "unat (of_nat (of_char c) :: u8) = of_char c"
    by (simp add: unat_of_nat take_bit_nat_eq_self)
  ultimately show ?thesis by simp
qed

lemma string_of_bytes [simp]: "string_of (bytes_of s) = s"
  by (simp add: string_of_def bytes_of_def comp_def byte_of_char)

lemma length_bytes_of [simp]: "length (bytes_of s) = length s"
  by (simp add: bytes_of_def)

section \<open>Printing\<close>

definition hex_digit :: "nat \<Rightarrow> char" where
  "hex_digit d = ''0123456789abcdef'' ! d"

fun hex_digits :: "nat \<Rightarrow> string" where
  "hex_digits n = (if n < 16 then [hex_digit n] else hex_digits (n div 16) @ [hex_digit (n mod 16)])"

declare hex_digits.simps [simp del]

definition intToHex :: "u32 \<Rightarrow> string" where
  "intToHex val = ''0x'' @ hex_digits (unat val)"

text \<open>\<open>std::to_string\<close> of a flag, which is converted to an \<open>int\<close>.\<close>

definition bool_to_string :: "bool \<Rightarrow> string" where
  "bool_to_string b = (if b then ''1'' else ''0'')"

section \<open>Parsing\<close>

definition is_space :: "char \<Rightarrow> bool" where
  "is_space c \<longleftrightarrow> c = CHR '' '' \<or> 9 \<le> (of_char c :: nat) \<and> (of_char c :: nat) \<le> 13"

definition digit_value :: "char \<Rightarrow> nat" where
  "digit_value c =
     (let n = of_char c
      in if 48 \<le> n \<and> n \<le> 57 then n - 48
         else if 97 \<le> n \<and> n \<le> 102 then n - 87
         else if 65 \<le> n \<and> n \<le> 70 then n - 55 else 16)"

definition digits_value :: "nat \<Rightarrow> string \<Rightarrow> nat" where
  "digits_value base s = foldl (\<lambda>a c. a * base + digit_value c) 0 s"

text \<open>
  The number at the front of a string: white space, a sign, in base sixteen a prefix \<open>0x\<close>
  when a digit follows it, digits. What comes behind is ignored; without a digit there is no
  number.
\<close>

fun strip_sign :: "string \<Rightarrow> bool \<times> string" where
  "strip_sign [] = (False, [])"
| "strip_sign (c # s) = (if c = CHR ''-'' then (True, s) else if c = CHR ''+'' then (False, s) else (False, c # s))"

fun strip_prefix :: "nat \<Rightarrow> string \<Rightarrow> string" where
  "strip_prefix base (a # b # c # s) =
     (if base = 16 \<and> a = CHR ''0'' \<and> (b = CHR ''x'' \<or> b = CHR ''X'') \<and> digit_value c < 16
      then c # s else a # b # c # s)"
| "strip_prefix base s = s"

definition strto :: "nat \<Rightarrow> string \<Rightarrow> (bool \<times> nat) option" where
  "strto base s =
     (let (neg, s1) = strip_sign (dropWhile is_space s);
          ds = takeWhile (\<lambda>c. digit_value c < base) (strip_prefix base s1)
      in if ds = [] then None else Some (neg, digits_value base ds))"

definition stoul16 :: "string \<Rightarrow> u64 option" where
  "stoul16 s =
     (case strto 16 s of
        None \<Rightarrow> None
      | Some (neg, m) \<Rightarrow> if 2 ^ 64 \<le> m then None else Some (if neg then - of_nat m else of_nat m))"

definition stoi :: "string \<Rightarrow> c_int option" where
  "stoi s =
     (case strto 10 s of
        None \<Rightarrow> None
      | Some (neg, m) \<Rightarrow>
          (let v = (if neg then - int m else int m)
           in if v < - (2 ^ 31) \<or> 2 ^ 31 \<le> v then None else Some (word_of_int v)))"

section \<open>Round trips\<close>

lemma digit_value_hex: "d < 16 \<Longrightarrow> digit_value (hex_digit d) = d"
proof -
  have "\<forall>d \<in> set [0..<16]. digit_value (hex_digit d) = d" by code_simp
  then show "d < 16 \<Longrightarrow> digit_value (hex_digit d) = d" by simp
qed

lemma hex_digits_valid: "\<forall>c \<in> set (hex_digits n). digit_value c < 16"
proof (induction n rule: hex_digits.induct)
  case (1 n)
  then show ?case
    by (subst hex_digits.simps) (auto simp: digit_value_hex)
qed

lemma hex_digits_nonempty: "hex_digits n \<noteq> []"
  by (subst hex_digits.simps) simp

lemma digits_value_snoc: "digits_value b (s @ [c]) = digits_value b s * b + digit_value c"
  by (simp add: digits_value_def)

lemma digits_value_hex: "digits_value 16 (hex_digits n) = n"
proof (induction n rule: hex_digits.induct)
  case (1 n)
  show ?case
  proof (cases "n < 16")
    case True
    then show ?thesis by (subst hex_digits.simps) (simp add: digits_value_def digit_value_hex)
  next
    case False
    with 1 show ?thesis
      by (subst hex_digits.simps) (simp add: digits_value_snoc digit_value_hex)
  qed
qed

text \<open>What a string may be followed by without changing the number in front.\<close>

definition ends_number :: "nat \<Rightarrow> string \<Rightarrow> bool" where
  "ends_number base rest \<longleftrightarrow> (rest = [] \<or> \<not> digit_value (hd rest) < base)"

lemma takeWhile_digits:
  assumes "\<forall>c \<in> set ds. digit_value c < base" and "ends_number base rest"
  shows "takeWhile (\<lambda>c. digit_value c < base) (ds @ rest) = ds"
  using assms by (cases rest) (auto simp: ends_number_def takeWhile_append)

lemma strto_intToHex:
  assumes "ends_number 16 rest"
  shows "strto 16 (intToHex v @ rest) = Some (False, unat v)"
proof -
  obtain c cs where hex: "hex_digits (unat v) = c # cs"
    using hex_digits_nonempty by (cases "hex_digits (unat v)") auto
  then have c: "digit_value c < 16" using hex_digits_valid [of "unat v"] by simp
  have sp: "\<not> is_space (CHR ''0'')" by code_simp
  have "strip_prefix 16 (CHR ''0'' # CHR ''x'' # c # cs @ rest) = c # cs @ rest" using c by simp
  then have "strip_prefix 16 (''0x'' @ hex_digits (unat v) @ rest) = hex_digits (unat v) @ rest"
    using hex by simp
  with sp show ?thesis
    using takeWhile_digits [OF hex_digits_valid assms, of "unat v"] hex_digits_nonempty
    by (simp add: strto_def intToHex_def digits_value_hex)
qed

lemma stoul16_intToHex:
  assumes "ends_number 16 rest"
  shows "stoul16 (intToHex v @ rest) = Some (ucast v)"
proof -
  have "unat v < 2 ^ LENGTH(32)" by (rule unsigned_less)
  then have "\<not> 2 ^ 64 \<le> unat v" by simp
  then show ?thesis by (simp add: stoul16_def strto_intToHex [OF assms] unsigned_ucast_eq)
qed

lemma length_hex_digits: "0 < k \<Longrightarrow> n < 16 ^ k \<Longrightarrow> length (hex_digits n) \<le> k"
proof (induction k arbitrary: n)
  case 0
  then show ?case by simp
next
  case (Suc k)
  show ?case
  proof (cases "n < 16")
    case True
    then show ?thesis by (subst hex_digits.simps) simp
  next
    case False
    with Suc.prems have "0 < k" "n div 16 < 16 ^ k" by (cases k; simp add: less_mult_imp_div_less mult.commute)+
    from Suc.IH [OF this] False show ?thesis by (subst hex_digits.simps) simp
  qed
qed

lemma length_intToHex: "length (intToHex v) \<le> 10"
proof -
  have "unat v < 2 ^ LENGTH(32)" by (rule unsigned_less)
  then have "unat v < 16 ^ 8" by simp
  from length_hex_digits [OF _ this] show ?thesis by (simp add: intToHex_def)
qed

section \<open>Decimal numbers\<close>

text \<open>\<open>std::to_string\<close> of an unsigned and of a signed integer.\<close>

fun dec_digits :: "nat \<Rightarrow> string" where
  "dec_digits n = (if n < 10 then [hex_digit n] else dec_digits (n div 10) @ [hex_digit (n mod 10)])"

declare dec_digits.simps [simp del]

definition int_to_string :: "int \<Rightarrow> string" where
  "int_to_string i = (if i < 0 then CHR ''-'' # dec_digits (nat (- i)) else dec_digits (nat i))"

lemma digits_value_dec: "digits_value 10 (dec_digits n) = n"
proof (induction n rule: dec_digits.induct)
  case (1 n)
  show ?case
  proof (cases "n < 10")
    case True
    then show ?thesis by (subst dec_digits.simps) (simp add: digits_value_def digit_value_hex)
  next
    case False
    with 1 show ?thesis
      by (subst dec_digits.simps) (simp add: digits_value_snoc digit_value_hex)
  qed
qed

lemma dec_digits_inject: "dec_digits m = dec_digits n \<Longrightarrow> m = n"
  by (metis digits_value_dec)

lemma dec_digits_valid: "\<forall>c \<in> set (dec_digits n). digit_value c < 10"
proof (induction n rule: dec_digits.induct)
  case (1 n)
  then show ?case by (subst dec_digits.simps) (auto simp: digit_value_hex)
qed

lemma dec_digits_no_sign: "c \<in> set (dec_digits n) \<Longrightarrow> c \<noteq> CHR ''-'' \<and> c \<noteq> CHR ''_''"
proof -
  have "\<not> digit_value (CHR ''-'') < 10 \<and> \<not> digit_value (CHR ''_'') < 10" by code_simp
  then show "c \<in> set (dec_digits n) \<Longrightarrow> c \<noteq> CHR ''-'' \<and> c \<noteq> CHR ''_''"
    using dec_digits_valid by blast
qed

lemma dec_digits_not_signed: "dec_digits n \<noteq> CHR ''-'' # s"
proof
  assume "dec_digits n = CHR ''-'' # s"
  then have "CHR ''-'' \<in> set (dec_digits n)" by simp
  from dec_digits_no_sign [OF this] show False by simp
qed

lemma int_to_string_inject:
  assumes "int_to_string i = int_to_string j"
  shows "i = j"
proof (cases "i < 0"; cases "j < 0")
  assume "i < 0" "j < 0"
  with assms have "dec_digits (nat (- i)) = dec_digits (nat (- j))" by (simp add: int_to_string_def)
  from dec_digits_inject [OF this] show ?thesis using \<open>i < 0\<close> \<open>j < 0\<close> by simp
next
  assume "i < 0" "\<not> j < 0"
  with assms dec_digits_not_signed show ?thesis by (metis int_to_string_def)
next
  assume "\<not> i < 0" "j < 0"
  with assms dec_digits_not_signed show ?thesis by (metis int_to_string_def)
next
  assume "\<not> i < 0" "\<not> j < 0"
  with assms have "dec_digits (nat i) = dec_digits (nat j)" by (simp add: int_to_string_def)
  from dec_digits_inject [OF this] show ?thesis using \<open>\<not> i < 0\<close> \<open>\<not> j < 0\<close> by simp
qed

end
