(* ===== verification/Fuse_FS.thy ===== *)
theory Fuse_FS
  imports Virtual_FS Debug_Options "HOL-Library.Product_Lexorder"
begin

text \<open>
  The FUSE callbacks (include/fuse/IFuse.h, src/fuse/IFuse.cpp). The static variables of the
  class are one state; each callback is one step, as the callbacks that change the poll
  state run under its lock. \<open>P\<close> is the path library and \<open>I\<close> the operations of the
  plugins. A C string or buffer is the list of its characters or bytes; a
  \<open>size_t\<close> next to it is passed as the code passes it.
\<close>

section \<open>State\<close>

type_synonym poll_handle = nat

text \<open>What is done to a poll handle, in order.\<close>

datatype poll_effect = NotifyPoll poll_handle | DestroyHandle poll_handle

type_synonym poll_handles = "(string \<times> string, (string, poll_handle) std_map) std_map"

record 'p fuse_state =
  fsProviders :: "(string, 'p provider) std_map"
  mDebugOptions :: debug_options
  mPollHandles :: poll_handles
  mEofReached :: "(string, bool) std_map"
  fh_counter_g :: u64
  poll_effects :: "poll_effect list"

definition fuse_new :: "debug_options \<Rightarrow> 'p fuse_state" where
  "fuse_new opts =
     \<lparr>fsProviders = [], mDebugOptions = opts, mPollHandles = [], mEofReached = [],
      fh_counter_g = 0, poll_effects = []\<rparr>"

record fuse_context =
  ctx_gid :: u32
  ctx_pid :: c_int

definition fuseContextToId :: "fuse_context \<Rightarrow> string" where
  "fuseContextToId ctx = dec_digits (unat (ctx_gid ctx)) @ ''_'' @ int_to_string (sint (ctx_pid ctx))"

definition getCbId :: "string \<Rightarrow> string \<Rightarrow> string \<times> string" where
  "getCbId p path = (p, path)"

definition ROOT_PATH :: string where "ROOT_PATH = ''/''"
definition DEBUG_FILE_NAME :: string where "DEBUG_FILE_NAME = ''debug''"
definition TS_DUMP_FILE_NAME :: string where "TS_DUMP_FILE_NAME = ''ts_dump''"
definition DEBUG_FILE_PATH :: string where "DEBUG_FILE_PATH = ''/'' @ DEBUG_FILE_NAME"
definition TS_DUMP_FILE_PATH :: string where "TS_DUMP_FILE_PATH = ''/'' @ TS_DUMP_FILE_NAME"

section \<open>Providers\<close>

definition registerFsProvider :: "'p provider \<Rightarrow> 'p fuse_state \<Rightarrow> 'p fuse_state" where
  "registerFsProvider v f = f\<lparr>fsProviders := sm_insert (getName v) v (fsProviders f)\<rparr>"

definition removeFsProvider :: "string \<Rightarrow> 'p fuse_state \<Rightarrow> 'p fuse_state" where
  "removeFsProvider i f = f\<lparr>fsProviders := sm_erase i (fsProviders f)\<rparr>"

text \<open>The name under which a provider is registered, with the provider.\<close>

definition findProvider :: "path_ops \<Rightarrow> string \<Rightarrow> 'p fuse_state \<Rightarrow> (string \<times> 'p provider) option outcome" where
  "findProvider P path f =
     andthen (path_advance P path 1) (\<lambda>_.
     andthen (path_at P path 1) (\<lambda>b.
       Inr (map_option (\<lambda>v. (b, v)) (sm_find b (fsProviders f)))))"

text \<open>A call on a provider changes the plugin behind the registered pointer.\<close>

definition set_provider :: "string \<Rightarrow> 'p provider \<Rightarrow> 'p fuse_state \<Rightarrow> 'p fuse_state" where
  "set_provider k v f = f\<lparr>fsProviders := sm_assign k v (fsProviders f)\<rparr>"

text \<open>
  The element of the path that the loops over the nodes compare with: it is read in each
  round, so a directory without nodes does not read it.
\<close>

definition node_element :: "path_ops \<Rightarrow> string \<Rightarrow> file_node list \<Rightarrow> string outcome" where
  "node_element P path nodes = (if nodes = [] then Inr [] else path_at P path 2)"

definition findNode :: "path_ops \<Rightarrow> 'p provider option \<Rightarrow> string \<Rightarrow> string outcome" where
  "findNode P provider path =
     andthen (path_advance P path 2) (\<lambda>_.
       case provider of
         None \<Rightarrow> Inr []
       | Some v \<Rightarrow>
           andthen (node_element P path (getNodes v)) (\<lambda>b.
             Inr (case find (\<lambda>node. fn_name node = b) (getNodes v) of
                    Some node \<Rightarrow> fn_name node | None \<Rightarrow> [])))"

section \<open>Attributes and directories\<close>

record stat =
  st_mode :: u32
  st_nlink :: u64
  st_size :: u64

definition stat_zero :: stat where "stat_zero = \<lparr>st_mode = 0, st_nlink = 0, st_size = 0\<rparr>"

text \<open>\<open>S_IFDIR | 0755\<close> and \<open>S_IFREG | 0777\<close>.\<close>

definition dir_mode :: u32 where "dir_mode = 0x4000 + 0x1ED"
definition reg_mode :: u32 where "reg_mode = 0x8000 + 0x1FF"

text \<open>One round of the loop of \<open>getAttrCallback\<close> over the nodes: the last match stays.\<close>

definition node_stat ::
  "'p plugin_ops \<Rightarrow> 'p provider \<Rightarrow> string \<Rightarrow> file_node \<Rightarrow> bool \<times> stat \<Rightarrow> bool \<times> stat" where
  "node_stat I v b node = (\<lambda>(found, st).
     if fn_name node = b
     then (case fn_type node of
             FILE_TYPE \<Rightarrow>
               (True, st\<lparr>st_nlink := 2, st_size := vfs_getSize I (fn_name node) v, st_mode := reg_mode\<rparr>)
           | DIRECTORY_TYPE \<Rightarrow> (True, st\<lparr>st_mode := dir_mode, st_nlink := 2\<rparr>))
     else (found, st))"

definition getAttrCallback ::
  "path_ops \<Rightarrow> 'p plugin_ops \<Rightarrow> string \<Rightarrow> 'p fuse_state \<Rightarrow> (c_int \<times> stat) outcome" where
  "getAttrCallback P I path f =
     andthen (path_advance P path 1) (\<lambda>_.
     andthen (if fs_elems P path \<noteq> []
              then andthen (path_at P path 1) (\<lambda>n. andthen (path_advance P path 2) (\<lambda>_. Inr (n, 2)))
              else Inr ([], 1)) (\<lambda>(pluginName, i).
       if path_equal P path ROOT_PATH
       then Inr (0, stat_zero\<lparr>st_mode := dir_mode, st_nlink := 2\<rparr>)
       else if pluginName \<noteq> [] \<and> sm_find pluginName (fsProviders f) \<noteq> None \<and> length (fs_elems P path) = i
       then Inr (0, stat_zero\<lparr>st_mode := dir_mode, st_nlink := 2\<rparr>)
       else if path_equal P path DEBUG_FILE_PATH
       then Inr (0, stat_zero\<lparr>st_size := of_nat (length (intToHex (debugLevel (mDebugOptions f)))),
                              st_mode := reg_mode\<rparr>)
       else if path_equal P path TS_DUMP_FILE_PATH
       then Inr (0, stat_zero\<lparr>st_size := of_nat (length (bool_to_string (tsDumpEnable (mDebugOptions f)))),
                              st_mode := reg_mode\<rparr>)
       else andthen (findProvider P path f) (\<lambda>provider.
         andthen (case provider of
                    None \<Rightarrow> Inr (False, stat_zero)
                  | Some (k, v) \<Rightarrow>
                      andthen (node_element P path (getNodes v)) (\<lambda>b.
                        Inr (fold (node_stat I v b) (getNodes v) (False, stat_zero))))
           (\<lambda>(foundNode, st). Inr (if foundNode then 0 else - ENOENT, st)))))"

text \<open>The names handed to the filler, in order.\<close>

definition readDirCallback :: "path_ops \<Rightarrow> string \<Rightarrow> 'p fuse_state \<Rightarrow> (c_int \<times> string list) outcome" where
  "readDirCallback P path f =
     andthen (path_at P path 0) (\<lambda>root.
       if path = ''/''
       then Inr (0, [''.'', ''..''] @ sm_keys (fsProviders f) @ [TS_DUMP_FILE_NAME, DEBUG_FILE_NAME])
       else andthen (findProvider P path f) (\<lambda>provider.
         Inr (0, [''.'', ''..''] @
           (case provider of None \<Rightarrow> [] | Some (k, v) \<Rightarrow> map fn_name (getNodes v)))))"

section \<open>Opening, reading, writing, closing\<close>

text \<open>The result, the file handle when one is set, and the state.\<close>

definition openCallback ::
  "path_ops \<Rightarrow> 'p plugin_ops \<Rightarrow> string \<Rightarrow> 'p fuse_state \<Rightarrow> (c_int \<times> u64 option \<times> 'p fuse_state) outcome" where
  "openCallback P I path f =
     andthen (findProvider P path f) (\<lambda>provider.
     andthen (path_advance P path 2) (\<lambda>_.
       if path_equal P path DEBUG_FILE_PATH \<or> path_equal P path TS_DUMP_FILE_PATH
       then Inr (0, None, f)
       else case provider of
         None \<Rightarrow> Inr (- ENOENT, None, f)
       | Some (k, v) \<Rightarrow>
           andthen (node_element P path (getNodes v)) (\<lambda>b.
             Inr (case find (\<lambda>node. fn_name node = b) (getNodes v) of
                    None \<Rightarrow> (- ENOENT, None, f)
                  | Some node \<Rightarrow>
                      (let (res, v') = vfs_open I (fn_name node) v;
                           f1 = set_provider k v' f
                       in if 0 \<le>s res
                          then (res, Some (fh_counter_g f1), f1\<lparr>fh_counter_g := fh_counter_g f1 + 1\<rparr>)
                          else (res, None, f1))))))"

text \<open>Text copied into the caller's buffer, at its start.\<close>

definition copy_text :: "string \<Rightarrow> u8 list \<Rightarrow> (c_int \<times> u8 list) outcome" where
  "copy_text res buf =
     andthen (memcpy_at buf 0 (bytes_of res) (of_nat (length res))) (\<lambda>buf'.
       Inr (of_nat (length res), buf'))"

text \<open>One round of the loop over the nodes, for the node names that match.\<close>

fun read_nodes ::
  "'p plugin_ops \<Rightarrow> u64 \<Rightarrow> u64 \<Rightarrow> u64 \<Rightarrow> string list \<Rightarrow> c_int \<times> u8 list \<times> 'p provider \<Rightarrow>
     c_int \<times> u8 list \<times> 'p provider" where
  "read_nodes I fh size' offset [] s = s"
| "read_nodes I fh size' offset (n # ns) (result, buf, v) =
     read_nodes I fh size' offset ns (vfs_read I fh n buf size' offset v)"

definition matching :: "string \<Rightarrow> 'p provider \<Rightarrow> string list" where
  "matching b v = filter (\<lambda>n. n = b) (map fn_name (getNodes v))"

text \<open>
  The end of file is noted per client: when the result, converted to \<open>size_t\<close>, is less
  than the size asked for. \<open>sizeof\<close> of the two options is 4 and 1.
\<close>

definition readCallback ::
  "path_ops \<Rightarrow> 'p plugin_ops \<Rightarrow> fuse_context option \<Rightarrow> string \<Rightarrow> u8 list \<Rightarrow> u64 \<Rightarrow> u64 \<Rightarrow> u64 \<Rightarrow>
     'p fuse_state \<Rightarrow> (c_int \<times> u8 list \<times> 'p fuse_state) outcome" where
  "readCallback P I ctx path buf size' offset fh f =
     andthen (findProvider P path f) (\<lambda>provider.
     andthen (path_advance P path 2) (\<lambda>_.
       if path_equal P path DEBUG_FILE_PATH
       then if 0 <s offset \<or> size' < 4 then Inr (0, buf, f)
            else andthen (copy_text (intToHex (debugLevel (mDebugOptions f))) buf)
                   (\<lambda>(result, buf'). Inr (result, buf', f))
       else if path_equal P path TS_DUMP_FILE_PATH
       then if 0 <s offset \<or> size' < 1 then Inr (0, buf, f)
            else andthen (copy_text (bool_to_string (tsDumpEnable (mDebugOptions f))) buf)
                   (\<lambda>(result, buf'). Inr (result, buf', f))
       else andthen (case provider of
                       None \<Rightarrow> Inr (0, buf, f)
                     | Some (k, v) \<Rightarrow>
                         andthen (node_element P path (getNodes v)) (\<lambda>b.
                           let (result, buf', v') =
                                 read_nodes I fh size' offset (matching b v) (0, buf, v)
                           in Inr (result, buf', set_provider k v' f)))
         (\<lambda>(result, buf', f1).
           Inr (case ctx of
                  None \<Rightarrow> (result, buf', f1)
                | Some c \<Rightarrow>
                    (result, buf',
                     f1\<lparr>mEofReached := sm_assign (fuseContextToId c) (scast result < size')
                                          (mEofReached f1)\<rparr>)))))"

definition writeFileCallback ::
  "path_ops \<Rightarrow> 'p plugin_ops \<Rightarrow> string \<Rightarrow> u8 list \<Rightarrow> u64 \<Rightarrow> 'p fuse_state \<Rightarrow>
     (c_int \<times> 'p fuse_state) outcome" where
  "writeFileCallback P I path buf offset f =
     (let bufSize = of_nat (length buf) :: u64
      in if path_equal P path DEBUG_FILE_PATH
         then if offset = 0
              then (case stoul16 (string_of buf) of
                      None \<Rightarrow> Inr (0, f)
                    | Some l \<Rightarrow>
                        Inr (ucast bufSize,
                             f\<lparr>mDebugOptions := (mDebugOptions f)\<lparr>debugLevel := ucast l\<rparr>\<rparr>))
              else Inr (0, f)
         else if path_equal P path TS_DUMP_FILE_PATH
         then if offset = 0
              then (case stoi (string_of buf) of
                      None \<Rightarrow> Inr (0, f)
                    | Some i \<Rightarrow>
                        Inr (ucast bufSize,
                             f\<lparr>mDebugOptions := (mDebugOptions f)\<lparr>tsDumpEnable := (i \<noteq> 0)\<rparr>\<rparr>))
              else Inr (0, f)
         else andthen (findProvider P path f) (\<lambda>provider.
              andthen (findNode P (map_option snd provider) path) (\<lambda>node.
                case provider of
                  None \<Rightarrow> Inr (ucast bufSize, f)
                | Some (k, v) \<Rightarrow>
                    if node = [] then Inr (ucast bufSize, f)
                    else let (res, v') = vfs_write I node buf bufSize offset v
                         in Inr (res, set_provider k v' f))))"

definition fuse_truncate :: "string \<Rightarrow> u64 \<Rightarrow> 'p fuse_state \<Rightarrow> c_int \<times> 'p fuse_state" where
  "fuse_truncate path lenght f = (0, f)"

fun release_nodes ::
  "'p plugin_ops \<Rightarrow> u64 \<Rightarrow> string list \<Rightarrow> c_int \<times> 'p provider \<Rightarrow> c_int \<times> 'p provider" where
  "release_nodes I fh [] s = s"
| "release_nodes I fh (n # ns) (result, v) = release_nodes I fh ns (vfs_release I fh n v)"

definition fuse_release ::
  "path_ops \<Rightarrow> 'p plugin_ops \<Rightarrow> string \<Rightarrow> u64 \<Rightarrow> 'p fuse_state \<Rightarrow> (c_int \<times> 'p fuse_state) outcome" where
  "fuse_release P I path fh f =
     andthen (findProvider P path f) (\<lambda>provider.
     andthen (path_advance P path 2) (\<lambda>_.
       case provider of
         None \<Rightarrow> Inr (0, f)
       | Some (k, v) \<Rightarrow>
           andthen (node_element P path (getNodes v)) (\<lambda>b.
             let (result, v') = release_nodes I fh (matching b v) (0, v)
             in Inr (result, set_provider k v' f))))"

section \<open>Polling\<close>

definition POLLIN :: u32 where "POLLIN = 1"

text \<open>
  The handle that is registered may be null. The entry that is erased is one of a copy of
  the map of the file's clients; the assignment replaces it in the original.
\<close>

definition registerPoll ::
  "fuse_context option \<Rightarrow> string \<Rightarrow> string \<Rightarrow> poll_handle option \<Rightarrow> u32 \<Rightarrow> 'p fuse_state \<Rightarrow>
     u32 \<times> 'p fuse_state" where
  "registerPoll ctx fileName providerName ph revents f =
     (let i = getCbId providerName fileName
      in case (ctx, ph) of
           (Some c, Some h) \<Rightarrow>
             (let ctx_id = fuseContextToId c;
                  ctxMap = (case sm_find i (mPollHandles f) of None \<Rightarrow> [] | Some m \<Rightarrow> m);
                  destroyed = (case sm_find ctx_id ctxMap of None \<Rightarrow> [] | Some old \<Rightarrow> [DestroyHandle old]);
                  f1 = f\<lparr>mPollHandles := sm_assign i (sm_assign ctx_id h ctxMap) (mPollHandles f),
                         poll_effects := poll_effects f @ destroyed\<rparr>
              in (if sm_find ctx_id (mEofReached f) = None \<or> sm_find ctx_id (mEofReached f) = Some False
                  then or revents POLLIN else revents, f1))
         | _ \<Rightarrow> (revents, f))"

definition fuse_poll ::
  "path_ops \<Rightarrow> fuse_context option \<Rightarrow> string \<Rightarrow> poll_handle option \<Rightarrow> u32 \<Rightarrow> 'p fuse_state \<Rightarrow>
     (c_int \<times> u32 \<times> 'p fuse_state) outcome" where
  "fuse_poll P ctx path ph revents f =
     andthen (findProvider P path f) (\<lambda>provider.
     andthen (findNode P (map_option snd provider) path) (\<lambda>node.
       case provider of
         None \<Rightarrow> Inr (0, revents, f)
       | Some (k, v) \<Rightarrow>
           if node = [] then Inr (0, revents, f)
           else let (revents', f') = registerPoll ctx node (getName v) ph revents f
                in Inr (0, revents', f')))"

text \<open>One round of the loop of \<open>notifyPoll\<close>, for a client and its handle.\<close>

definition notify_client :: "string \<times> poll_handle \<Rightarrow> 'p fuse_state \<Rightarrow> 'p fuse_state" where
  "notify_client e f =
     f\<lparr>mEofReached := sm_assign (fst e) False (mEofReached f),
       poll_effects := poll_effects f @ [NotifyPoll (snd e), DestroyHandle (snd e)]\<rparr>"

definition notifyPoll :: "string \<Rightarrow> string \<Rightarrow> 'p fuse_state \<Rightarrow> 'p fuse_state" where
  "notifyPoll provider filename f =
     (case sm_find (provider, filename) (mPollHandles f) of
        None \<Rightarrow> f
      | Some ctxMap \<Rightarrow>
          (let f1 = fold notify_client ctxMap f
           in f1\<lparr>mPollHandles := sm_assign (provider, filename) [] (mPollHandles f1)\<rparr>))"

text \<open>
  A plugin announces new data through its callback object (\<open>PluginCbImpl::notifyUpdate\<close>,
  \<open>VirtualFSProvider::notifyUpdate\<close>).
\<close>

definition notifyUpdate :: "plugin_cb \<Rightarrow> string \<Rightarrow> 'p fuse_state \<Rightarrow> 'p fuse_state" where
  "notifyUpdate cb path f = notifyPoll (mId cb) path f"

end
