(* ===== verification/Fuse_Lookup.thy ===== *)
theory Fuse_Lookup
  imports Fuse_FS
begin

text \<open>
  Where the callbacks of \<open>Fuse_FS\<close> lead for the paths the kernel hands to them: the root, a
  name directly under it, and a file of a plugin. The lemmas on paths are proved in the
  locale of the path library.
\<close>

section \<open>Control files and plugin directories\<close>

lemma name_ok_control: "name_ok DEBUG_FILE_NAME" "name_ok TS_DUMP_FILE_NAME"
  by (simp_all add: name_ok_def DEBUG_FILE_NAME_def TS_DUMP_FILE_NAME_def)

lemma control_paths:
  "DEBUG_FILE_PATH = top_path DEBUG_FILE_NAME" "TS_DUMP_FILE_PATH = top_path TS_DUMP_FILE_NAME"
  by (simp_all add: DEBUG_FILE_PATH_def TS_DUMP_FILE_PATH_def)

lemma control_names_differ: "DEBUG_FILE_NAME \<noteq> TS_DUMP_FILE_NAME"
  by (simp add: DEBUG_FILE_NAME_def TS_DUMP_FILE_NAME_def)

lemma node_names_at:
  assumes "b \<noteq> []"
  shows "matching b v = filter (\<lambda>n. n = b) (vfs_files v)"
  using assms by (simp add: matching_def node_names)

lemma matching_distinct:
  assumes "b \<noteq> []" and "distinct (vfs_files v)" and "b \<in> set (vfs_files v)"
  shows "matching b v = [b]"
proof -
  have "\<And>xs. distinct xs \<Longrightarrow> b \<in> set xs \<Longrightarrow> filter (\<lambda>n. n = b) xs = [b]"
    subgoal for xs by (induction xs) (auto simp: filter_empty_conv)
    done
  with assms show ?thesis by (simp add: node_names_at)
qed

lemma find_node:
  assumes "b \<noteq> []"
  shows "(case find (\<lambda>node. fn_name node = b) (getNodes v) of Some node \<Rightarrow> fn_name node | None \<Rightarrow> []) =
           (if b \<in> set (vfs_files v) then b else [])"
proof (cases "b \<in> set (vfs_files v)")
  case True
  with node_named_iff [OF assms, of v]
  have "find (\<lambda>node. fn_name node = b) (getNodes v) \<noteq> None" by (auto simp: find_None_iff)
  then obtain node where "find (\<lambda>node. fn_name node = b) (getNodes v) = Some node" by blast
  moreover from this have "fn_name node = b" by (auto simp: find_Some_iff)
  ultimately show ?thesis using True by simp
next
  case False
  then have "find (\<lambda>node. fn_name node = b) (getNodes v) = None"
    using node_named_iff [OF assms, of v] by (auto simp: find_None_iff)
  with False show ?thesis by simp
qed

text \<open>The loop of \<open>getattr\<close>: what it finds is a file.\<close>

lemma fold_node_stat:
  assumes "b \<noteq> []" and "set nodes \<subseteq> set (getNodes v)"
  shows "fold (node_stat I v b) nodes (found, st) =
           (if b \<in> set (map fn_name nodes)
            then (True, st\<lparr>st_nlink := 2, st_size := vfs_getSize I b v, st_mode := reg_mode\<rparr>)
            else (found, st))"
  using assms(2)
proof (induction nodes arbitrary: found st)
  case Nil
  then show ?case by simp
next
  case (Cons node nodes)
  from Cons.prems have sub: "set nodes \<subseteq> set (getNodes v)" and node: "node \<in> set (getNodes v)"
    by simp_all
  show ?case
  proof (cases "fn_name node = b")
    case True
    with assms(1) node have "fn_type node = FILE_TYPE" using node_named_file by blast
    with True have "node_stat I v b node (found, st) =
        (True, st\<lparr>st_nlink := 2, st_size := vfs_getSize I b v, st_mode := reg_mode\<rparr>)"
      by (simp add: node_stat_def)
    with True show ?thesis by (simp add: Cons.IH [OF sub])
  next
    case False
    then have "node_stat I v b node (found, st) = (found, st)" by (simp add: node_stat_def)
    with False show ?thesis by (auto simp: Cons.IH [OF sub])
  qed
qed

definition file_stat :: "u64 \<Rightarrow> stat" where
  "file_stat n = \<lparr>st_mode = reg_mode, st_nlink = 2, st_size = n\<rparr>"

definition dir_stat :: stat where
  "dir_stat = \<lparr>st_mode = dir_mode, st_nlink = 2, st_size = 0\<rparr>"

lemma dir_stat_zero: "stat_zero\<lparr>st_mode := dir_mode, st_nlink := 2\<rparr> = dir_stat"
  by (simp add: stat_zero_def dir_stat_def)

section \<open>The callbacks by the kind of path\<close>

context boost_path
begin

lemma findProvider_top:
  "name_ok a \<Longrightarrow> findProvider P (top_path a) f = Inr (map_option (Pair a) (sm_find a (fsProviders f)))"
  by (simp add: findProvider_def top_at)

lemma findProvider_file:
  "name_ok a \<Longrightarrow> name_ok b \<Longrightarrow>
     findProvider P (file_path a b) f = Inr (map_option (Pair a) (sm_find a (fsProviders f)))"
  by (simp add: findProvider_def file_at)

lemma node_element_file:
  "name_ok a \<Longrightarrow> name_ok b \<Longrightarrow>
     node_element P (file_path a b) nodes = Inr (if nodes = [] then [] else b)"
  by (simp add: node_element_def file_at)

lemma not_control:
  assumes "name_ok a" and "name_ok b"
  shows "\<not> path_equal P (file_path a b) DEBUG_FILE_PATH"
    and "\<not> path_equal P (file_path a b) TS_DUMP_FILE_PATH"
    and "\<not> path_equal P (file_path a b) ROOT_PATH"
  using file_at [OF assms] by (simp_all add: control_paths name_ok_control ROOT_PATH_def)

lemma control_at:
  shows "path_equal P DEBUG_FILE_PATH DEBUG_FILE_PATH"
    and "path_equal P TS_DUMP_FILE_PATH TS_DUMP_FILE_PATH"
    and "\<not> path_equal P TS_DUMP_FILE_PATH DEBUG_FILE_PATH"
    and "\<not> path_equal P DEBUG_FILE_PATH ROOT_PATH"
    and "\<not> path_equal P TS_DUMP_FILE_PATH ROOT_PATH"
    and "findProvider P DEBUG_FILE_PATH f =
           Inr (map_option (Pair DEBUG_FILE_NAME) (sm_find DEBUG_FILE_NAME (fsProviders f)))"
    and "path_advance P DEBUG_FILE_PATH 2 = Inr ()"
  using name_ok_control control_names_differ
  by (simp_all add: control_paths top_at ROOT_PATH_def findProvider_top)

lemma findNode_file:
  assumes "name_ok a" and "name_ok b"
  shows "findNode P provider (file_path a b) =
           Inr (case provider of None \<Rightarrow> []
                | Some v \<Rightarrow> if b \<in> set (vfs_files v) then b else [])"
proof (cases provider)
  case None
  then show ?thesis by (simp add: findNode_def file_at assms)
next
  case (Some v)
  have b: "b \<noteq> []" using assms by (simp add: name_ok_def)
  have "getNodes v = [] \<Longrightarrow> b \<notin> set (vfs_files v)" using node_named_iff [OF b, of v] by auto
  then show ?thesis
    using Some find_node [OF b, of v] by (auto simp: findNode_def file_at node_element_file assms)
qed

lemma getAttr_file:
  assumes "name_ok a" and "name_ok b" and "sm_find a (fsProviders f) = Some v"
  shows "getAttrCallback P I (file_path a b) f =
           Inr (if b \<in> set (vfs_files v) then (0, file_stat (vfs_getSize I b v)) else (- ENOENT, stat_zero))"
proof -
  have b: "b \<noteq> []" using assms by (simp add: name_ok_def)
  have e: "b \<in> fn_name ` set (getNodes v) \<longleftrightarrow> b \<in> set (vfs_files v)"
    using node_named_iff [OF b, of v] by auto
  have n: "getNodes v = [] \<Longrightarrow> b \<notin> set (vfs_files v)" using e by auto
  have el: "fs_elems P (file_path a b) = [''/'', a, b]" by (rule elems_file [OF assms(1,2)])
  show ?thesis
    using n e
    by (simp add: getAttrCallback_def file_at(1-3) [OF assms(1,2)] not_control [OF assms(1,2)]
        findProvider_file [OF assms(1,2)] node_element_file [OF assms(1,2)] assms(3) el
        fold_node_stat [OF b] file_stat_def stat_zero_def)
qed

lemma getAttr_unknown_directory:
  assumes "name_ok a" and "name_ok b" and "sm_find a (fsProviders f) = None"
  shows "getAttrCallback P I (file_path a b) f = Inr (- ENOENT, stat_zero)"
  using elems_file [OF assms(1,2)]
  by (simp add: getAttrCallback_def file_at(1-3) [OF assms(1,2)] not_control [OF assms(1,2)]
      findProvider_file [OF assms(1,2)] assms(3))

lemma getAttr_directory:
  assumes "name_ok a" and "sm_find a (fsProviders f) \<noteq> None"
  shows "getAttrCallback P I (top_path a) f = Inr (0, dir_stat)"
  using assms elems_top [OF assms(1)] top_at [OF assms(1)]
  by (simp add: getAttrCallback_def ROOT_PATH_def dir_stat_zero name_ok_def)

lemma getAttr_control:
  assumes "c = DEBUG_FILE_NAME \<or> c = TS_DUMP_FILE_NAME" and "sm_find c (fsProviders f) = None"
  shows "\<exists>n. getAttrCallback P I (top_path c) f = Inr (0, \<lparr>st_mode = reg_mode, st_nlink = 0, st_size = n\<rparr>)"
proof -
  have "name_ok c" using assms(1) name_ok_control by auto
  from elems_top [OF this] top_at [OF this] assms control_names_differ show ?thesis
    by (auto simp: getAttrCallback_def ROOT_PATH_def control_paths name_ok_control stat_zero_def)
qed

lemma getAttr_root:
  "getAttrCallback P I ROOT_PATH f = andthen (fs_past_end P) (\<lambda>_. Inr (0, dir_stat))"
  using root_at elems_root
  by (cases "fs_past_end P") (simp_all add: getAttrCallback_def ROOT_PATH_def dir_stat_zero)

lemma readDir_root:
  "readDirCallback P ROOT_PATH f =
     Inr (0, [''.'', ''..''] @ sm_keys (fsProviders f) @ [TS_DUMP_FILE_NAME, DEBUG_FILE_NAME])"
  by (simp add: readDirCallback_def ROOT_PATH_def path_at_def elems_root)

lemma readDir_directory:
  assumes "name_ok a"
  shows "readDirCallback P (top_path a) f =
           Inr (0, [''.'', ''..''] @ (case sm_find a (fsProviders f) of None \<Rightarrow> []
             | Some v \<Rightarrow> vfs_files v @ replicate (length (mSubProviders v)) []))"
  using elems_top [OF assms] assms
  by (simp add: readDirCallback_def path_at_def findProvider_top [OF assms] name_ok_def node_names
      split: option.splits)

lemma fuse_poll_file:
  assumes "name_ok a" and "name_ok b" and "sm_find a (fsProviders f) = Some v"
  shows "fuse_poll P ctx (file_path a b) ph revents f =
           (if b \<in> set (vfs_files v)
            then Inr (0, registerPoll ctx b (getName v) ph revents f) else Inr (0, revents, f))"
proof -
  have "b \<noteq> []" using assms(2) by (simp add: name_ok_def)
  then show ?thesis
    by (simp add: fuse_poll_def findProvider_file findNode_file assms case_prod_beta)
qed

lemma read_debug:
  "readCallback P I ctx DEBUG_FILE_PATH buf n offset fh f =
     (if 0 <s offset \<or> n < 4 then Inr (0, buf, f)
      else andthen (copy_text (intToHex (debugLevel (mDebugOptions f))) buf)
             (\<lambda>(result, buf'). Inr (result, buf', f)))"
  by (simp add: readCallback_def control_at)

lemma write_debug:
  "writeFileCallback P I DEBUG_FILE_PATH buf 0 f =
     (case stoul16 (string_of buf) of
        None \<Rightarrow> Inr (0, f)
      | Some l \<Rightarrow> Inr (ucast (of_nat (length buf) :: u64),
                      f\<lparr>mDebugOptions := (mDebugOptions f)\<lparr>debugLevel := ucast l\<rparr>\<rparr>))"
  by (simp add: writeFileCallback_def control_at)

lemma openCallback_file:
  assumes "name_ok a" and "name_ok b" and "sm_find a (fsProviders f) = Some v"
  shows "openCallback P I (file_path a b) f =
           Inr (if b \<in> set (vfs_files v)
                then (let (res, v') = vfs_open I b v; f1 = set_provider a v' f
                      in if 0 \<le>s res
                         then (res, Some (fh_counter_g f), f1\<lparr>fh_counter_g := fh_counter_g f + 1\<rparr>)
                         else (res, None, f1))
                else (- ENOENT, None, f))"
proof -
  have b: "b \<noteq> []" using assms(2) by (simp add: name_ok_def)
  have elem: "getNodes v = [] \<Longrightarrow> find (\<lambda>node. fn_name node = x) (getNodes v) = None" for x by simp
  have none: "find (\<lambda>node. fn_name node = b) (getNodes v) = None \<longleftrightarrow> b \<notin> set (vfs_files v)"
    using node_named_iff [OF b, of v] by (auto simp: find_None_iff)
  have some: "find (\<lambda>node. fn_name node = b) (getNodes v) = Some node \<Longrightarrow> fn_name node = b" for node
    by (auto simp: find_Some_iff)
  show ?thesis
    using none not_control [OF assms(1,2)]
    by (auto simp: openCallback_def findProvider_file file_at assms node_element_file set_provider_def
        Let_def case_prod_beta elem split: option.splits dest: some)
qed

lemma writeFileCallback_file:
  assumes "name_ok a" and "name_ok b" and "sm_find a (fsProviders f) = Some v"
  shows "writeFileCallback P I (file_path a b) buf offset f =
           Inr (if b \<in> set (vfs_files v)
                then (let (res, v') = vfs_write I b buf (of_nat (length buf)) offset v
                      in (res, set_provider a v' f))
                else (ucast (of_nat (length buf) :: u64), f))"
proof -
  have "b \<noteq> []" using assms(2) by (simp add: name_ok_def)
  then show ?thesis
    using not_control [OF assms(1,2)]
    by (simp add: writeFileCallback_def Let_def findProvider_file findNode_file assms case_prod_beta)
qed

lemma fuse_release_file:
  assumes "name_ok a" and "name_ok b" and "sm_find a (fsProviders f) = Some v"
  shows "fuse_release P I (file_path a b) fh f =
           (let (result, v') = release_nodes I fh (matching b v) (0, v) in Inr (result, set_provider a v' f))"
proof -
  have "getNodes v = [] \<Longrightarrow> matching x v = []" for x by (simp add: matching_def)
  then show ?thesis
    by (simp add: fuse_release_def findProvider_file node_element_file file_at assms case_prod_beta)
qed

lemma readCallback_file:
  assumes "name_ok a" and "name_ok b" and "sm_find a (fsProviders f) = Some v"
  shows "readCallback P I ctx (file_path a b) buf n offset fh f =
           (let (result, buf', v') = read_nodes I fh n offset (matching b v) (0, buf, v);
                f1 = set_provider a v' f
            in Inr (case ctx of
                      None \<Rightarrow> (result, buf', f1)
                    | Some c \<Rightarrow> (result, buf', f1\<lparr>mEofReached :=
                        sm_assign (fuseContextToId c) (scast result < n) (mEofReached f1)\<rparr>)))"
proof -
  have "node_element P (file_path a b) (getNodes v) = Inr b \<or> getNodes v = []"
    by (simp add: node_element_file assms)
  moreover have "getNodes v = [] \<Longrightarrow> matching x v = []" for x by (simp add: matching_def)
  ultimately show ?thesis
    using not_control [OF assms(1,2)]
    by (auto simp: readCallback_def findProvider_file file_at assms case_prod_beta Let_def
        node_element_file split: option.splits)
qed

end

end
