(* ===== verification/File_Spec.thy ===== *)
theory File_Spec
  imports Pool_Streaming Fuse_Lookup
begin

text \<open>
  The specification of the program, as a client of the file system knows it: a directory of
  streams, each of which is a file that only grows at its end. There are no rings, periods,
  locks, paths or plugins in it.
\<close>

section \<open>State and steps\<close>

text \<open>
  The next file handle, the chunks of each file that has been opened, and whether the last
  read of a client has returned less than it asked for.
\<close>

record file_spec =
  next_handle :: u64
  files :: "string \<rightharpoonup> buffer_chunk list"
  at_end :: "fuse_context \<rightharpoonup> bool"

text \<open>
  What clients do: list the directory, ask for the attributes of a file, open, read, write,
  close and poll it. Meanwhile chunks arrive for a file, and its throttle thread runs.
\<close>

datatype file_step =
    ListFiles
  | StatFile string
  | OpenFile string
  | Meanwhile string "stream_event list"
  | ReadFile "fuse_context option" string "u8 list" u64 u64 u64
  | WriteFile string "u8 list" u64
  | CloseFile string u64
  | PollFile "fuse_context option" string "poll_handle option" u32

datatype file_result =
    Names c_int "string list"
  | Attributes c_int stat
  | Opened c_int "u64 option"
  | Passed
  | Data c_int "u8 list"
  | Written c_int
  | Closed c_int
  | Ready c_int u32

definition spec_start :: file_spec where
  "spec_start = \<lparr>next_handle = 0, files = Map.empty, at_end = Map.empty\<rparr>"

definition stream_names :: "string list" where
  "stream_names = [''test1.tst'', ''test2.tst'', ''test3.tst'']"

section \<open>What each step does\<close>

text \<open>
  A read returns all it was asked for or nothing. It returns the bytes when they have arrived
  and not more than 102400 chunks have arrived since the first of them, which is what the
  ring of a stream holds.
\<close>

definition spec_has :: "buffer_chunk list option \<Rightarrow> u64 \<Rightarrow> u64 \<Rightarrow> bool" where
  "spec_has file n ob = (case file of
     None \<Rightarrow> False
   | Some stream \<Rightarrow> unat ob + unat n \<le> length stream * 9024 \<and> length stream - unat ob div 9024 \<le> 102400)"

definition spec_read :: "buffer_chunk list option \<Rightarrow> u8 list \<Rightarrow> u64 \<Rightarrow> u64 \<Rightarrow> file_result" where
  "spec_read file buf n ob =
     (if spec_has file n ob
      then Data (ucast n) (take (unat n) (drop (unat ob) (stream_bytes (the file))) @ drop (unat n) buf)
      else Data 0 buf)"

text \<open>A write to a stream is thrown away; one to a file that is not there is said to have written all.\<close>

fun spec_step :: "file_step \<Rightarrow> file_spec \<Rightarrow> file_result \<times> file_spec" where
  "spec_step ListFiles a = (Names 0 ([''.'', ''..''] @ stream_names), a)"
| "spec_step (StatFile uri) a =
     (if uri \<in> set stream_names then Attributes 0 (file_stat 0) else Attributes (- ENOENT) stat_zero, a)"
| "spec_step (OpenFile uri) a =
     (if uri \<in> set stream_names
      then (Opened 0 (Some (next_handle a)),
            a\<lparr>next_handle := next_handle a + 1,
              files := (files a)(uri \<mapsto> (case files a uri of None \<Rightarrow> [] | Some stream \<Rightarrow> stream))\<rparr>)
      else (Opened (- ENOENT) None, a))"
| "spec_step (Meanwhile uri es) a =
     (Passed, a\<lparr>files := (files a)(uri := map_option (\<lambda>stream. stream @ arrived es) (files a uri))\<rparr>)"
| "spec_step (ReadFile ctx uri buf n ob fh) a =
     (spec_read (files a uri) buf n ob,
      case ctx of None \<Rightarrow> a | Some c \<Rightarrow> a\<lparr>at_end := (at_end a)(c \<mapsto> \<not> spec_has (files a uri) n ob)\<rparr>)"
| "spec_step (WriteFile uri buf ob) a =
     (Written (if uri \<in> set stream_names then 0 else ucast (of_nat (length buf) :: u64)), a)"
| "spec_step (CloseFile uri fh) a = (Closed 0, a)"
| "spec_step (PollFile ctx uri ph revents) a =
     (Ready 0 (case (ctx, ph) of
        (Some c, Some h) \<Rightarrow>
          if uri \<in> set stream_names \<and> at_end a c \<noteq> Some True then or revents POLLIN else revents
      | _ \<Rightarrow> revents), a)"

fun spec_steps :: "file_step list \<Rightarrow> file_spec \<Rightarrow> file_result list" where
  "spec_steps [] a = []"
| "spec_steps (s # ss) a = (let (r, a') = spec_step s a in r # spec_steps ss a')"

section \<open>The steps a client can take\<close>

text \<open>Names of files, and reads of at least one byte whose buffer has room for them.\<close>

fun step_ok :: "file_step \<Rightarrow> bool" where
  "step_ok (ReadFile ctx uri buf n ob fh) =
     (name_ok uri \<and> 0 < n \<and> unat n \<le> length buf \<and> length buf < 2 ^ 31)"
| "step_ok (StatFile uri) = name_ok uri"
| "step_ok (OpenFile uri) = name_ok uri"
| "step_ok (WriteFile uri buf ob) = name_ok uri"
| "step_ok (CloseFile uri fh) = name_ok uri"
| "step_ok (PollFile ctx uri ph revents) = name_ok uri"
| "step_ok _ = True"

fun step_arrivals :: "file_step \<Rightarrow> nat" where
  "step_arrivals (Meanwhile uri es) = length (arrived es)"
| "step_arrivals _ = 0"

text \<open>Streams do not get longer than what arrives.\<close>

lemma spec_step_bound:
  assumes bound: "\<And>uri stream. files a uri = Some stream \<Longrightarrow> length stream + (step_arrivals x + k) < 2 ^ 64"
    and "k < 2 ^ 64" and after: "files (snd (spec_step x a)) uri = Some stream"
  shows "length stream + k < 2 ^ 64"
proof -
  have "stream = [] \<or> (\<exists>old. files a uri = Some old \<and> length stream \<le> length old + step_arrivals x)"
    using after by (cases x) (auto split: if_splits option.splits)
  with bound [of uri] assms(2) show ?thesis by fastforce
qed

end
