(* ===== verification/Sample_Producer.thy ===== *)
theory Sample_Producer
  imports Pool_Session
begin

text \<open>
  The producer of the sample plugin (sample/SamplePlugin.cpp): the write callback that cuts
  the transfers it is handed into chunks, the end of the transfer, and the variant that
  reads a file. Its \<open>queueBuffer\<close> calls (src/BufferProducer.cpp), which go on to
  \<open>pushBuffer\<close>, are collected in the order they are made.

  The transfer library and the file are outside: a transfer is the bytes one callback is
  handed, a file is its content.
\<close>

section \<open>State\<close>

record queued =
  q_buffer :: buffer_chunk
  q_last :: bool
  q_size :: u64

record producer =
  tempBuffer :: buffer_chunk
  mCurrentOffset :: u64
  mMustExit :: bool
  queuedBuffers :: "queued list"

text \<open>
  \<open>tempBuffer\<close> is not initialised by the constructor, so its content is an argument.
\<close>

definition producer_new :: "buffer_chunk \<Rightarrow> producer" where
  "producer_new garbage =
     \<lparr>tempBuffer = garbage, mCurrentOffset = 0, mMustExit = False, queuedBuffers = []\<rparr>"

definition queueBuffer :: "buffer_chunk \<Rightarrow> bool \<Rightarrow> u64 \<Rightarrow> producer \<Rightarrow> producer" where
  "queueBuffer buffer lastBuffer lastBufferSize p =
     p\<lparr>queuedBuffers := queuedBuffers p @
         [\<lparr>q_buffer = buffer, q_last = lastBuffer, q_size = lastBufferSize\<rparr>]\<rparr>"

section \<open>The write callback\<close>

text \<open>One round of the while loop of \<open>write\<close>, with the number of bytes it takes.\<close>

definition write_length :: "u64 \<Rightarrow> producer \<Rightarrow> u64" where
  "write_length remaining_data p = min (BUFFER_CHUNK_SIZE - mCurrentOffset p) remaining_data"

definition write_step :: "u8 list \<Rightarrow> u64 \<Rightarrow> u64 \<Rightarrow> producer \<Rightarrow> producer outcome" where
  "write_step ptr total_size remaining_data p =
     (let writeLength = write_length remaining_data p
      in andthen (memcpy_at (chunk_data (tempBuffer p)) (uint (mCurrentOffset p))
                   (drop (unat (total_size - remaining_data)) ptr) writeLength)
           (\<lambda>bytes.
             let p1 = p\<lparr>tempBuffer := chunk_of bytes, mCurrentOffset := mCurrentOffset p + writeLength\<rparr>
             in Inr (if mCurrentOffset p1 = BUFFER_CHUNK_SIZE
                     then (queueBuffer (tempBuffer p1) False BUFFER_CHUNK_SIZE p1)\<lparr>mCurrentOffset := 0\<rparr>
                     else p1)))"

text \<open>
  A round takes nothing only when the buffer is full, and then it empties the buffer, so
  the loop ends whatever the offset is.
\<close>

lemma write_step_offset:
  assumes "write_step ptr tot rem p = Inr p'" and "write_length rem p = 0" and "0 < rem"
  shows "mCurrentOffset p = BUFFER_CHUNK_SIZE \<and> mCurrentOffset p' = 0"
proof -
  have "BUFFER_CHUNK_SIZE - mCurrentOffset p = 0"
    using assms(2,3) by (auto simp: write_length_def min_def split: if_splits)
  then have "mCurrentOffset p = BUFFER_CHUNK_SIZE" by simp
  with assms show ?thesis
    by (auto simp: write_step_def Let_def andthen_Inr_iff)
qed

lemma write_length_le: "write_length rem p \<le> rem"
  by (simp add: write_length_def)

function write_loop :: "u8 list \<Rightarrow> u64 \<Rightarrow> u64 \<Rightarrow> producer \<Rightarrow> producer outcome" where
  "write_loop ptr total_size remaining_data p =
     (if 0 < remaining_data
      then andthen (write_step ptr total_size remaining_data p)
             (write_loop ptr total_size (remaining_data - write_length remaining_data p))
      else Inr p)"
  by pat_completeness auto
termination
proof (relation "measures [\<lambda>(ptr, tot, rem, p). unat rem,
    \<lambda>(ptr, tot, rem, p). if mCurrentOffset p = BUFFER_CHUNK_SIZE then 1 else 0]")
  fix ptr tot rem p p'
  assume rem: "0 < rem" and step: "write_step ptr tot rem p = Inr p'"
  show "((ptr, tot, rem - write_length rem p, p'), (ptr, tot, rem, p)) \<in>
      measures [\<lambda>(ptr, tot, rem, p). unat rem,
        \<lambda>(ptr, tot, rem, p). if mCurrentOffset p = BUFFER_CHUNK_SIZE then 1 else 0]"
  proof (cases "write_length rem p = 0")
    case True
    with write_step_offset [OF step True rem] show ?thesis by (simp add: BUFFER_CHUNK_SIZE_eq)
  next
    case False
    then have "unat (rem - write_length rem p) < unat rem"
      using write_length_le [of rem p] rem
      by (simp add: unat_sub_le word_less_nat_alt word_gt_0 unat_gt_0)
    then show ?thesis by simp
  qed
qed simp

declare write_loop.simps [simp del]

text \<open>
  \<open>write(ptr, size, nmemb)\<close>: the return value and the new state. The number of bytes is
  computed in \<open>size_t\<close>.
\<close>

definition producer_write :: "u8 list \<Rightarrow> u64 \<Rightarrow> u64 \<Rightarrow> producer \<Rightarrow> (u64 \<times> producer) outcome" where
  "producer_write ptr size' nmemb p =
     andthen (write_loop ptr (nmemb * size') (nmemb * size') p) (\<lambda>p'. Inr (size' * nmemb, p'))"

text \<open>The transfer: one callback per block of bytes, then the rest with its size as the last buffer.\<close>

fun producer_transfer :: "u8 list list \<Rightarrow> producer \<Rightarrow> producer outcome" where
  "producer_transfer [] p = Inr (queueBuffer (tempBuffer p) True (mCurrentOffset p) p)"
| "producer_transfer (block # blocks) p =
     andthen (producer_write block 1 (of_nat (length block)) p)
       (\<lambda>(written, p'). producer_transfer blocks p')"

section \<open>Reading a file\<close>

text \<open>
  The loop of \<open>readFile\<close>: \<open>fread\<close> returns fewer bytes than asked for at the end of the file, and leaves
  the rest of the chunk as it was. The first chunk is uninitialised.
\<close>

function producer_readFile :: "u8 list \<Rightarrow> buffer_chunk \<Rightarrow> producer \<Rightarrow> producer" where
  "producer_readFile content chunk p =
     (let res = take 9024 content;
          chunk' = chunk_of (res @ drop (length res) (chunk_data chunk));
          p1 = queueBuffer chunk' (length res \<noteq> 9024) (of_nat (length res)) p
      in if mMustExit p1 then p1
         else if length res = 9024 then producer_readFile (drop 9024 content) chunk' p1
         else p1)"
  by pat_completeness auto
termination
  by (relation "measure (\<lambda>(content, chunk, p). length content)") (auto simp: min_def split: if_splits)

declare producer_readFile.simps [simp del]

text \<open>The file, when it can be opened.\<close>

definition readFile :: "u8 list option \<Rightarrow> buffer_chunk \<Rightarrow> producer \<Rightarrow> producer" where
  "readFile f chunk p = (case f of None \<Rightarrow> p | Some content \<Rightarrow> producer_readFile content chunk p)"

section \<open>What has been written\<close>

text \<open>
  The bytes handed to the producer so far: those of the chunks it has queued, all of them
  full and none the last, and those in the front part of the buffer.
\<close>

definition full_chunk :: "queued \<Rightarrow> bool" where
  "full_chunk q \<longleftrightarrow> \<not> q_last q \<and> q_size q = BUFFER_CHUNK_SIZE"

definition has_written :: "queued list \<Rightarrow> u8 list \<Rightarrow> producer \<Rightarrow> bool" where
  "has_written before bytes p \<longleftrightarrow>
     unat (mCurrentOffset p) < 9024 \<and>
     (\<exists>qs. queuedBuffers p = before @ qs \<and> list_all full_chunk qs \<and>
       stream_bytes (map q_buffer qs) @ take (unat (mCurrentOffset p)) (chunk_data (tempBuffer p)) = bytes)"

lemma has_written_new: "has_written [] [] (producer_new garbage)"
  by (simp add: has_written_def producer_new_def)

text \<open>The memcpy of a round stays inside the buffer and inside the block it is handed.\<close>

lemma write_step_copies:
  assumes off: "unat (mCurrentOffset p) < 9024" and src: "unat tot = length ptr" and le: "rem \<le> tot"
  defines "n \<equiv> unat (write_length rem p)" and "k \<equiv> length ptr - unat rem"
  shows "memcpy_at (chunk_data (tempBuffer p)) (uint (mCurrentOffset p)) (drop (unat (tot - rem)) ptr)
           (write_length rem p) =
         Inr (take (unat (mCurrentOffset p)) (chunk_data (tempBuffer p)) @ take n (drop k ptr) @
              drop (unat (mCurrentOffset p) + n) (chunk_data (tempBuffer p)))"
    and "n = min (9024 - unat (mCurrentOffset p)) (unat rem)"
    and "length (take n (drop k ptr)) = n"
    and "unat (mCurrentOffset p + write_length rem p) = unat (mCurrentOffset p) + n"
proof -
  have free: "unat (BUFFER_CHUNK_SIZE - mCurrentOffset p) = 9024 - unat (mCurrentOffset p)"
    using off by (subst unat_sub_le) (simp_all add: word_le_nat_alt)
  then show n: "n = min (9024 - unat (mCurrentOffset p)) (unat rem)"
    by (auto simp: n_def write_length_def min_def word_le_nat_alt)
  have rem: "unat rem \<le> length ptr" using le src by (simp add: word_le_nat_alt)
  have k: "unat (tot - rem) = k" using le src by (simp add: unat_sub_le k_def)
  show len: "length (take n (drop k ptr)) = n"
    using rem n by (simp add: k_def)
  then have "n \<le> length (drop k ptr)" by simp
  moreover have "unat (mCurrentOffset p) + n \<le> 9024" using off n by simp
  ultimately show "memcpy_at (chunk_data (tempBuffer p)) (uint (mCurrentOffset p)) (drop (unat (tot - rem)) ptr)
      (write_length rem p) =
    Inr (take (unat (mCurrentOffset p)) (chunk_data (tempBuffer p)) @ take n (drop k ptr) @
         drop (unat (mCurrentOffset p) + n) (chunk_data (tempBuffer p)))"
    unfolding k n_def uint_nat by (intro memcpy_at_ok) simp_all
  show "unat (mCurrentOffset p + write_length rem p) = unat (mCurrentOffset p) + n"
    using off n unfolding n_def by (intro unat_add_bounded) simp
qed

lemma write_step_ok:
  assumes inv: "has_written before bytes p" and src: "unat tot = length ptr" and le: "rem \<le> tot"
  defines "n \<equiv> unat (write_length rem p)" and "k \<equiv> length ptr - unat rem"
  shows "\<exists>p'. write_step ptr tot rem p = Inr p' \<and>
           has_written before (bytes @ take n (drop k ptr)) p' \<and> mMustExit p' = mMustExit p"
proof -
  let ?off = "unat (mCurrentOffset p)" and ?off' = "mCurrentOffset p + write_length rem p"
  obtain qs where off: "?off < 9024" and qs: "queuedBuffers p = before @ qs" "list_all full_chunk qs"
    "stream_bytes (map q_buffer qs) @ take ?off (chunk_data (tempBuffer p)) = bytes"
    using inv by (auto simp: has_written_def)
  note copy = write_step_copies [OF off src le, folded n_def k_def]
  let ?new = "take ?off (chunk_data (tempBuffer p)) @ take n (drop k ptr) @
    drop (?off + n) (chunk_data (tempBuffer p))"
  have "?off + n \<le> 9024" using off copy(2) by linarith
  then have new: "length ?new = 9024"
    unfolding length_append copy(3) using off by simp
  have front: "take (?off + n) ?new = take ?off (chunk_data (tempBuffer p)) @ take n (drop k ptr)"
    using off copy(3) by simp
  show ?thesis
  proof (cases "?off' = BUFFER_CHUNK_SIZE")
    case True
    then have "?off + n = 9024" using copy(4) by simp
    then have whole: "?new = take ?off (chunk_data (tempBuffer p)) @ take n (drop k ptr)"
      using front new by simp
    let ?p' = "(queueBuffer (chunk_of ?new) False BUFFER_CHUNK_SIZE
      (p\<lparr>tempBuffer := chunk_of ?new, mCurrentOffset := ?off'\<rparr>))\<lparr>mCurrentOffset := 0\<rparr>"
    have "write_step ptr tot rem p = Inr ?p'"
      using True copy(1) by (simp add: write_step_def Let_def)
    moreover have "has_written before (bytes @ take n (drop k ptr)) ?p'"
      unfolding has_written_def
      using qs new whole
      by (intro conjI exI [of _ "qs @ [\<lparr>q_buffer = chunk_of ?new, q_last = False, q_size = BUFFER_CHUNK_SIZE\<rparr>]"])
        (simp_all add: queueBuffer_def full_chunk_def)
    ultimately show ?thesis by (intro exI [of _ ?p']) (simp add: queueBuffer_def)
  next
    case False
    then have "?off + n \<noteq> 9024" using copy(4) by (simp add: word_unat_eq_iff)
    then have small: "?off + n < 9024" using off copy(2) by simp
    let ?p' = "p\<lparr>tempBuffer := chunk_of ?new, mCurrentOffset := ?off'\<rparr>"
    have "write_step ptr tot rem p = Inr ?p'"
      using False copy(1) by (simp add: write_step_def Let_def)
    moreover have "has_written before (bytes @ take n (drop k ptr)) ?p'"
      unfolding has_written_def
      using qs new front small copy(4) by (intro conjI exI [of _ qs]) (simp_all del: take_append)
    ultimately show ?thesis by (intro exI [of _ ?p']) simp
  qed
qed

lemma write_loop_ok:
  assumes "has_written before bytes p" and "unat tot = length ptr" and "rem \<le> tot"
  shows "\<exists>p'. write_loop ptr tot rem p = Inr p' \<and>
           has_written before (bytes @ drop (length ptr - unat rem) ptr) p' \<and> mMustExit p' = mMustExit p"
  using assms
proof (induction "unat rem" arbitrary: rem bytes p rule: less_induct)
  case less
  show ?case
  proof (cases "0 < rem")
    case False
    then have "rem = 0" by (simp add: word_gt_0)
    with less.prems(1) show ?thesis by (simp add: write_loop.simps [of ptr tot])
  next
    case True
    let ?n = "unat (write_length rem p)" and ?k = "length ptr - unat rem"
    have "unat (mCurrentOffset p) < 9024" using less.prems(1) by (simp add: has_written_def)
    note copy = write_step_copies [OF this less.prems(2,3)]
    have n: "0 < ?n" "?n \<le> unat rem"
      using copy(2) \<open>unat (mCurrentOffset p) < 9024\<close> True by (auto simp: word_less_nat_alt)
    from write_step_ok [OF less.prems] obtain p1 where p1: "write_step ptr tot rem p = Inr p1"
      "has_written before (bytes @ take ?n (drop ?k ptr)) p1" "mMustExit p1 = mMustExit p" by blast
    let ?rem = "rem - write_length rem p"
    have rem: "unat ?rem = unat rem - ?n"
      using n(2) by (intro unat_sub_le) (simp add: word_le_nat_alt)
    have le: "unat rem \<le> length ptr" using less.prems(2,3) by (simp add: word_le_nat_alt)
    have "unat ?rem < unat rem" "?rem \<le> tot"
      using n rem less.prems(3) by (simp_all add: word_le_nat_alt)
    from less.hyps [OF this(1) p1(2) less.prems(2) this(2)] obtain p' where
      p': "write_loop ptr tot ?rem p1 = Inr p'" "mMustExit p' = mMustExit p1"
      "has_written before ((bytes @ take ?n (drop ?k ptr)) @ drop (length ptr - unat ?rem) ptr) p'" by blast
    have "length ptr - unat ?rem = ?k + ?n" using rem n(2) le by simp
    then have "drop (length ptr - unat ?rem) ptr = drop ?n (drop ?k ptr)"
      by (simp only: drop_drop add.commute)
    then have "take ?n (drop ?k ptr) @ drop (length ptr - unat ?rem) ptr = drop ?k ptr"
      by (simp only: append_take_drop_id)
    with p' p1(1,3) True show ?thesis by (simp add: write_loop.simps [of ptr tot rem])
  qed
qed

lemma producer_write_ok:
  assumes "has_written before bytes p" and "unat (nmemb * size') = length ptr"
  shows "\<exists>p'. producer_write ptr size' nmemb p = Inr (size' * nmemb, p') \<and>
           has_written before (bytes @ ptr) p' \<and> mMustExit p' = mMustExit p"
  using write_loop_ok [OF assms order_refl] assms(2) by (auto simp: producer_write_def)

section \<open>What has been queued at the end\<close>

text \<open>
  A queue delivers some bytes: full chunks first, then one last buffer with the number of
  its bytes that count.
\<close>

definition delivers :: "queued list \<Rightarrow> u8 list \<Rightarrow> bool" where
  "delivers queue bytes \<longleftrightarrow>
     (\<exists>qs last_q. queue = qs @ [last_q] \<and> list_all full_chunk qs \<and> q_last last_q \<and>
       unat (q_size last_q) < 9024 \<and>
       stream_bytes (map q_buffer qs) @ take (unat (q_size last_q)) (chunk_data (q_buffer last_q)) = bytes)"

lemma producer_transfer_extends:
  assumes "has_written before bytes p" and "list_all (\<lambda>b. length b < 2 ^ 64) blocks"
  shows "\<exists>p' queue. producer_transfer blocks p = Inr p' \<and> queuedBuffers p' = before @ queue \<and>
           delivers queue (bytes @ concat blocks)"
  using assms
proof (induction blocks arbitrary: bytes p)
  case Nil
  then show ?case
    by (auto simp: has_written_def delivers_def queueBuffer_def)
next
  case (Cons block blocks)
  have "unat (of_nat (length block) * 1 :: u64) = length block"
    using Cons.prems(2) by (simp add: unat_of_nat_u64 del: unsigned_of_nat)
  from producer_write_ok [OF Cons.prems(1) this] obtain p1 where
    "producer_write block 1 (of_nat (length block)) p = Inr (1 * of_nat (length block), p1)"
    "has_written before (bytes @ block) p1" by blast
  moreover from Cons.IH [OF this(2)] Cons.prems(2) obtain p' queue where
    "producer_transfer blocks p1 = Inr p'" "queuedBuffers p' = before @ queue"
    "delivers queue (bytes @ block @ concat blocks)"
    by auto
  ultimately show ?case by auto
qed

lemma producer_transfer_ok:
  assumes "has_written [] bytes p" and "list_all (\<lambda>b. length b < 2 ^ 64) blocks"
  shows "\<exists>p'. producer_transfer blocks p = Inr p' \<and> delivers (queuedBuffers p') (bytes @ concat blocks)"
  using producer_transfer_extends [OF assms] by auto

lemma producer_readFile_ok:
  assumes "\<not> mMustExit p"
  shows "\<exists>queue. queuedBuffers (producer_readFile content chunk p) = queuedBuffers p @ queue \<and>
           delivers queue content"
  using assms
proof (induction "length content" arbitrary: content chunk p rule: less_induct)
  case less
  let ?res = "take 9024 content"
  let ?chunk = "chunk_of (?res @ drop (length ?res) (chunk_data chunk))"
  let ?p = "queueBuffer ?chunk (length ?res \<noteq> 9024) (of_nat (length ?res)) p"
  have data: "chunk_data ?chunk = ?res @ drop (length ?res) (chunk_data chunk)"
    by (intro chunk_data_of) (simp add: min_def)
  have size': "unat (of_nat (length ?res) :: u64) = length ?res"
    by (intro unat_of_nat_u64) (simp add: min_def)
  show ?case
  proof (cases "length content < 9024")
    case True
    then have "producer_readFile content chunk p = ?p"
      using less.prems by (simp add: producer_readFile.simps [of content chunk p] Let_def queueBuffer_def)
    moreover define q where "q = \<lparr>q_buffer = ?chunk, q_last = True, q_size = (of_nat (length ?res) :: u64)\<rparr>"
    moreover have "q_last q" "q_buffer q = ?chunk" "unat (q_size q) = length content"
      using size' True by (simp_all add: q_def)
    then have "delivers [q] content"
      unfolding delivers_def using True data by (intro exI [of _ "[]"] exI [of _ q]) simp
    ultimately show ?thesis using True by (simp add: queueBuffer_def)
  next
    case False
    then have full: "length ?res = 9024" by simp
    then have step: "producer_readFile content chunk p = producer_readFile (drop 9024 content) ?chunk ?p"
      using less.prems by (subst producer_readFile.simps) (simp add: Let_def queueBuffer_def)
    have "length (drop 9024 content) < length content" "\<not> mMustExit ?p"
      using False less.prems by (simp_all add: queueBuffer_def)
    from less.hyps [OF this] obtain queue where
      IH: "queuedBuffers (producer_readFile (drop 9024 content) ?chunk ?p) = queuedBuffers ?p @ queue"
      "delivers queue (drop 9024 content)" by blast
    let ?q = "\<lparr>q_buffer = ?chunk, q_last = False, q_size = (of_nat (length ?res) :: u64)\<rparr>"
    have "chunk_data ?chunk = take 9024 content" using data full by simp
    moreover have "full_chunk ?q" using full by (simp add: full_chunk_def BUFFER_CHUNK_SIZE_eq)
    ultimately have "delivers (?q # queue) content"
      using IH(2) unfolding delivers_def
      by (elim exE) (rule exI [of _ "?q # _"], auto)
    then show ?thesis
      using step IH(1) full by (intro exI [of _ "?q # queue"]) (simp add: queueBuffer_def)
  qed
qed

end
