(* ===== verification/Sample_Delivery.thy ===== *)
theory Sample_Delivery
  imports Sample_Producer Pool_Properties
begin

text \<open>
  From the producer of the sample plugin to its readers: the buffers it queues are pushed
  into the pool one by one, and a read gives back the bytes of the transfer.
\<close>

section \<open>Pushing what was queued\<close>

text \<open>Each queued buffer with the time of its push.\<close>

fun push_queue ::
  "('c, buffer_chunk) circ_ops \<Rightarrow> ('t, u32) circ_ops \<Rightarrow> (int \<times> queued) list \<Rightarrow> ('c, 't) pool \<Rightarrow>
     ('c, 't) pool outcome" where
  "push_queue C T [] p = Inr p"
| "push_queue C T (c # cs) p =
     andthen (pushBuffer C T (fst c) (q_buffer (snd c)) (q_last (snd c)) (q_size (snd c)) p)
       (\<lambda>(front, p'). push_queue C T cs p')"

text \<open>What pushing leaves alone, and what it sets.\<close>

definition pushed_from :: "('c, 't) pool \<Rightarrow> ('c, 't) pool \<Rightarrow> bool" where
  "pushed_from p q \<longleftrightarrow>
     exitPending q = exitPending p \<and> mAborting q = mAborting p \<and>
     mReadAheadCount (mThrottle q) = mReadAheadCount (mThrottle p) \<and>
     mEnableThrottling (mThrottle q) = mEnableThrottling (mThrottle p)"

lemma register_keeps [simp]:
  "mReadAheadCount (registerTimePeriod T now t) = mReadAheadCount t"
  "mEnableThrottling (registerTimePeriod T now t) = mEnableThrottling t"
  by (simp_all add: registerTimePeriod_def Let_def case_prod_beta)

context boost_rings
begin

lemma pushBuffer_ok:
  assumes "pool_holds C stream p" and "\<not> exitPending p" and "0 < capacity p" and "length stream + 1 < 2 ^ 64"
  shows "\<exists>q. pushBuffer C T now b lastBuffer n p = Inr (Some (hd (chunks q)), q) \<and>
           pool_holds C (stream @ [b]) q \<and> capacity q = capacity p \<and> pushed_from p q \<and>
           mGotLastBuffer q = (mGotLastBuffer p \<or> lastBuffer) \<and>
           mLastBufferSize q = (if lastBuffer then n else mLastBufferSize p)"
proof -
  let ?p = "push_register T now p"
  have p: "pool_holds C stream ?p" "0 < capacity ?p"
    using assms by (simp_all add: pool_holds_def push_register_def)
  from push_commit_ok [OF p assms(4), of b lastBuffer n] obtain q where
    q: "push_commit C b lastBuffer n ?p = Inr (hd (chunks q), q)" "pool_holds C (stream @ [b]) q"
    "capacity q = capacity ?p" "mGotLastBuffer q = (mGotLastBuffer ?p \<or> lastBuffer)"
    "mLastBufferSize q = (if lastBuffer then n else mLastBufferSize ?p)" "mThrottle q = mThrottle ?p"
    "mAborting q = mAborting ?p" "exitPending q = exitPending ?p" by blast
  then show ?thesis
    using assms(2)
    by (intro exI [of _ q]) (simp add: pushBuffer_def pushed_from_def push_register_def)
qed

lemma push_queue_ok:
  assumes "pool_holds C stream p" and "\<not> exitPending p" and "0 < capacity p"
    and "length stream + length cs < 2 ^ 64"
  shows "\<exists>q. push_queue C T cs p = Inr q \<and>
           pool_holds C (stream @ map (q_buffer \<circ> snd) cs) q \<and> capacity q = capacity p \<and> pushed_from p q \<and>
           mGotLastBuffer q = (mGotLastBuffer p \<or> (\<exists>c \<in> set cs. q_last (snd c))) \<and>
           (cs \<noteq> [] \<longrightarrow> q_last (snd (last cs)) \<longrightarrow> mLastBufferSize q = q_size (snd (last cs)))"
  using assms
proof (induction cs arbitrary: stream p)
  case Nil
  then show ?case by (simp add: pushed_from_def)
next
  case (Cons c cs)
  have "length stream + 1 < 2 ^ 64" using Cons.prems(4) by simp
  from pushBuffer_ok [OF Cons.prems(1-3) this, of "fst c" "q_buffer (snd c)" "q_last (snd c)" "q_size (snd c)"]
  obtain p1 where p1:
    "pushBuffer C T (fst c) (q_buffer (snd c)) (q_last (snd c)) (q_size (snd c)) p = Inr (Some (hd (chunks p1)), p1)"
    "pool_holds C (stream @ [q_buffer (snd c)]) p1" "capacity p1 = capacity p" "pushed_from p p1"
    "mGotLastBuffer p1 = (mGotLastBuffer p \<or> q_last (snd c))"
    "mLastBufferSize p1 = (if q_last (snd c) then q_size (snd c) else mLastBufferSize p)" by blast
  have exit: "\<not> exitPending p1" using p1(4) Cons.prems(2) by (simp add: pushed_from_def)
  have room: "length (stream @ [q_buffer (snd c)]) + length cs < 2 ^ 64" using Cons.prems(4) by simp
  have cap: "0 < capacity p1" using p1(3) Cons.prems(3) by simp
  from Cons.IH [OF p1(2) exit cap room] obtain q where q:
    "push_queue C T cs p1 = Inr q"
    "pool_holds C ((stream @ [q_buffer (snd c)]) @ map (q_buffer \<circ> snd) cs) q" "capacity q = capacity p1"
    "pushed_from p1 q" "mGotLastBuffer q = (mGotLastBuffer p1 \<or> (\<exists>c \<in> set cs. q_last (snd c)))"
    "cs \<noteq> [] \<longrightarrow> q_last (snd (last cs)) \<longrightarrow> mLastBufferSize q = q_size (snd (last cs))" by blast
  have run: "push_queue C T (c # cs) p = Inr q" using p1(1) q(1) by simp
  have "pool_holds C (stream @ map (q_buffer \<circ> snd) (c # cs)) q" using q(2) by simp
  moreover have "pushed_from p q" using p1(4) q(4) unfolding pushed_from_def by metis
  moreover have "mGotLastBuffer q = (mGotLastBuffer p \<or> (\<exists>c' \<in> set (c # cs). q_last (snd c')))"
    unfolding q(5) p1(5) by auto
  moreover have "mLastBufferSize q = q_size (snd (last (c # cs)))" if "q_last (snd (last (c # cs)))"
  proof (cases "cs = []")
    case True
    then have "q = p1" using q(1) by simp
    with True that p1(6) show ?thesis by simp
  next
    case False
    with that q(6) show ?thesis by simp
  qed
  ultimately show ?case using run q(3) p1(3) by metis
qed

text \<open>A queue that delivers some bytes, pushed into a new pool and read back whole.\<close>

lemma last_zip_snd: "length xs = length ys \<Longrightarrow> ys \<noteq> [] \<Longrightarrow> snd (last (zip xs ys)) = last ys"
  by (induction xs ys rule: list_induct2) auto

lemma delivered_read:
  assumes del: "delivers queue bytes" and last: "0 < unat (q_size (last queue))"
    and arrivals: "length arrivals = length queue" and fits: "length queue \<le> unat n"
    and room: "length bytes \<le> length out" and small: "length out < 2 ^ 31"
  shows "\<exists>p q. push_queue C T (zip arrivals queue) (pool_new C T n) = Inr p \<and>
           read C T undisturbed (of_nat (length queue)) 0 0 0 out p =
             Inr (Some (of_nat (length bytes)), bytes @ drop (length bytes) out, q)"
proof -
  obtain qs z where q: "queue = qs @ [z]" "q_last z" "unat (q_size z) < 9024"
    "stream_bytes (map q_buffer qs) @ take (unat (q_size z)) (chunk_data (q_buffer z)) = bytes"
    using del unfolding delivers_def by blast
  let ?p0 = "pool_new C T n" and ?stream = "map q_buffer queue"
  have cap: "0 < capacity ?p0" "capacity ?p0 = unat n" using fits q(1) by (simp_all add: pool_new_def)
  have len: "length (zip arrivals queue) = length queue" using arrivals by simp
  have "length queue < 18446744073709551616"
    using fits by (rule le_less_trans [OF _ unat_less_u64])
  then have bound: "length queue < 2 ^ 64" by simp
  then have lens: "length ([] :: buffer_chunk list) + length (zip arrivals queue) < 2 ^ 64"
    using len by simp
  have exit0: "\<not> exitPending ?p0" by (simp add: pool_new_def)
  from push_queue_ok [OF holds_new exit0 cap(1) lens] obtain p where
    p: "push_queue C T (zip arrivals queue) ?p0 = Inr p"
    "pool_holds C ([] @ map (q_buffer \<circ> snd) (zip arrivals queue)) p" "capacity p = capacity ?p0"
    "pushed_from ?p0 p" "mGotLastBuffer p = (mGotLastBuffer ?p0 \<or> (\<exists>c \<in> set (zip arrivals queue). q_last (snd c)))"
    "zip arrivals queue \<noteq> [] \<longrightarrow> q_last (snd (last (zip arrivals queue))) \<longrightarrow>
       mLastBufferSize p = q_size (snd (last (zip arrivals queue)))" by blast
  have snds: "map snd (zip arrivals queue) = queue" using arrivals by simp
  then have hold: "pool_holds C ?stream p"
    using p(2) by (simp add: map_map [symmetric] del: map_map)
  have zne: "zip arrivals queue \<noteq> []" using q(1) len by (metis length_0_conv snoc_eq_iff_butlast)
  have lastz: "snd (last (zip arrivals queue)) = z" using last_zip_snd [OF arrivals] q(1) by simp
  have size_z: "mLastBufferSize p = q_size z" using p(6) zne q(2) lastz by simp
  have "last (zip arrivals queue) \<in> set (zip arrivals queue)" using zne by simp
  then have got: "mGotLastBuffer p" using p(5) q(2) lastz by metis
  have exit: "\<not> exitPending p" and ahead: "mReadAheadCount (mThrottle p) = 0"
    using p(4) by (simp_all add: pushed_from_def pool_new_def throttle_new_def)
  let ?len = "of_nat (length queue) :: u64"
  have lq: "unat ?len = length ?stream" using bound by (simp add: unat_of_nat_u64 del: unsigned_of_nat)
  have bytes: "(length ?stream - 1) * 9024 + unat (mLastBufferSize p) = length bytes"
    "take (length bytes) (stream_bytes ?stream) = bytes"
    using q size_z by auto
  have copy: "read_copy C ?len 0 0 0 out p =
      Inr (Some (of_nat (length bytes)), bytes @ drop (length bytes) out, after_copy C ?len 0 p)"
  proof -
    have l1: "0 < unat (mLastBufferSize p)" and l2: "unat (mLastBufferSize p) < 9024"
      using last q(1,3) size_z by simp_all
    have ne: "?stream \<noteq> []" and fit: "length ?stream \<le> capacity p" using q(1) fits p(3) cap(2) by simp_all
    have rm: "(length ?stream - 1) * 9024 + unat (mLastBufferSize p) \<le> length out"
      unfolding bytes by (rule room)
    from read_whole_closed [OF hold exit got lq l1 l2 ne fit rm small] show ?thesis unfolding bytes .
  qed
  have "\<not> throttled C T ?len 0 p"
    unfolding throttled_def
    by (rule wait_read_ahead)
      (simp add: after_copy_def at_position_def setReadPosition_def ahead READ_AHEAD_COUNT_def)
  moreover have "padding_ok ?len 0 0" using lq q(1) by (simp add: padding_ok_def word_less_nat_alt)
  from read_enter_available [OF hold exit this, of 0] lq fits p(3) cap(2)
  have "read_enter C ?len 0 0 0 p = CopyNow" by simp
  moreover have "length bytes < 2 ^ 31" using room small by linarith
  ultimately have "\<exists>q. read C T undisturbed ?len 0 0 0 out p =
      Inr (Some (of_nat (length bytes)), bytes @ drop (length bytes) out, q)"
    using copy
    by (simp add: read_def read_finish_def undisturbed_def case_prod_beta Let_def throttled_def scast_small)
  with p(1) show ?thesis by blast
qed

end

section \<open>Properties\<close>

text \<open>
  The write callback takes every byte it is handed, whatever the size of the block, and
  the bytes taken so far are those of the chunks queued, in order, and of the part of the
  chunk under way. No copy leaves the chunk or the block.
\<close>

theorem producer_write_takes_all:
  assumes "has_written before bytes p" and "unat (nmemb * size') = length ptr"
  shows "\<exists>p'. producer_write ptr size' nmemb p = Inr (size' * nmemb, p') \<and>
           has_written before (bytes @ ptr) p'"
  using producer_write_ok [OF assms] by blast

theorem producer_write_takes_all_witness:
  "\<exists>p'. producer_write (replicate 10000 5) 1 10000 (producer_new (chunk_fill 0)) = Inr (10000, p') \<and>
     has_written [] (replicate 10000 5) p'"
  using producer_write_takes_all [OF has_written_new, of 10000 1 "replicate 10000 5" "chunk_fill 0"]
  by simp

text \<open>
  Reading a file queues its content: full chunks, and at the end of the file one last
  buffer, with the number of bytes of it that count. A file that cannot be opened queues nothing.
\<close>

theorem producer_file_delivered:
  assumes "\<not> mMustExit p"
  shows "\<exists>queue. queuedBuffers (readFile (Some content) chunk p) = queuedBuffers p @ queue \<and>
           delivers queue content \<and> readFile None chunk p = p"
  using producer_readFile_ok [OF assms] by (simp add: readFile_def)

theorem producer_file_delivered_witness:
  "\<exists>queue. queuedBuffers (readFile (Some [1, 2, 3]) (chunk_fill 0) (producer_new (chunk_fill 0))) = queue \<and>
     delivers queue [1, 2, 3]"
  using producer_file_delivered [of "producer_new (chunk_fill 0)" "[1, 2, 3]" "chunk_fill 0"]
  by (simp add: producer_new_def)

text \<open>
  C9: end to end. The blocks of a transfer go through the write callback, its chunks into a
  pool that can hold them, and a read of the whole closed stream returns the bytes of the
  transfer, as many as there were.
\<close>

theorem sample_transfer_roundtrip:
  fixes C :: "('c, buffer_chunk) circ_ops" and T :: "('t, u32) circ_ops"
  assumes rings: "boost_rings C T" and blocks: "list_all (\<lambda>b. length b < 2 ^ 64) blocks"
    and run: "producer_transfer blocks (producer_new garbage) = Inr p"
    and last: "0 < unat (q_size (last (queuedBuffers p)))"
    and "length arrivals = length (queuedBuffers p)" and "length (queuedBuffers p) \<le> unat n"
    and "length (concat blocks) \<le> length out" and "length out < 2 ^ 31"
  shows "\<exists>pool q. push_queue C T (zip arrivals (queuedBuffers p)) (pool_new C T n) = Inr pool \<and>
           read C T undisturbed (of_nat (length (queuedBuffers p))) 0 0 0 out pool =
             Inr (Some (of_nat (length (concat blocks))), concat blocks @ drop (length (concat blocks)) out, q)"
proof -
  have "delivers (queuedBuffers p) ([] @ concat blocks)"
    using producer_transfer_ok [OF has_written_new [of garbage] blocks] run by auto
  then show ?thesis
    using boost_rings.delivered_read [OF rings _ last assms(5,6) _ assms(8)] assms(7) by simp
qed

theorem sample_transfer_roundtrip_witness:
  "\<exists>pool q. push_queue list_ring list_ring [(0, \<lparr>q_buffer = chunk_of (9 # 8 # replicate 9022 0), q_last = True, q_size = 2\<rparr>)]
       (pool_new list_ring list_ring 4) = Inr pool \<and>
     read list_ring list_ring undisturbed 1 0 0 0 [0, 0, 7] pool = Inr (Some 2, [9, 8, 7], q)"
proof -
  let ?q = "\<lparr>q_buffer = chunk_of (9 # 8 # replicate 9022 0), q_last = True, q_size = 2\<rparr>"
  let ?p = "\<lparr>tempBuffer = chunk_of (9 # 8 # replicate 9022 0), mCurrentOffset = 2, mMustExit = False, queuedBuffers = [?q]\<rparr>"
  have step: "write_step [9, 8] 2 2 (producer_new (chunk_fill 0)) =
      Inr \<lparr>tempBuffer = chunk_of (9 # 8 # replicate 9022 0), mCurrentOffset = 2, mMustExit = False, queuedBuffers = []\<rparr>"
    by (simp add: write_step_def write_length_def producer_new_def memcpy_at_def BUFFER_CHUNK_SIZE_eq)
  have run: "producer_transfer [[9, 8]] (producer_new (chunk_fill 0)) = Inr ?p"
    using step
    by (simp add: producer_write_def write_loop.simps [of _ _ 2] write_loop.simps [of _ _ 0]
        write_length_def queueBuffer_def BUFFER_CHUNK_SIZE_eq producer_new_def)
  show ?thesis
    using sample_transfer_roundtrip [OF lbr.boost_rings_axioms _ run, of "[0]" 4 "[0, 0, 7]"] by simp
qed

end
