(* ===== verification/Producer_Thread.thy ===== *)
theory Producer_Thread
  imports Sample_Delivery
begin

text \<open>
  The thread of the sample producer (sample/SamplePlugin.cpp): \<open>start\<close>, \<open>stop\<close> and what
  they mean for the pool, whose abort and destructor call \<open>stop\<close>.

  A join waits for the thread to end. What the thread does meanwhile is an argument: the
  blocks the transfer still hands over.
\<close>

section \<open>The thread\<close>

text \<open>\<open>NoThread\<close>: \<open>mThreadLoop\<close> is null. A thread that has been joined cannot be joined again.\<close>

datatype thread_state = NoThread | Running | Finished | Joined

text \<open>\<open>loop\<close>, from where it is to its end: the blocks to come and the push of the rest.\<close>

definition thread_finish :: "u8 list list \<Rightarrow> thread_state \<times> producer \<Rightarrow> (thread_state \<times> producer) outcome" where
  "thread_finish blocks = (\<lambda>(thread, p).
     if thread = Running then andthen (producer_transfer blocks p) (\<lambda>p'. Inr (Finished, p'))
     else Inr (thread, p))"

definition thread_join :: "u8 list list \<Rightarrow> thread_state \<times> producer \<Rightarrow> (thread_state \<times> producer) outcome" where
  "thread_join blocks s =
     andthen (thread_finish blocks s) (\<lambda>(thread, p).
       if thread = Finished then Inr (Joined, p) else Inl ThreadNotJoinable)"

definition producer_start :: "u8 list list \<Rightarrow> thread_state \<times> producer \<Rightarrow> (thread_state \<times> producer) outcome" where
  "producer_start blocks s =
     andthen (if fst s \<noteq> NoThread then thread_join blocks s else Inr s) (\<lambda>(thread, p). Inr (Running, p))"

text \<open>The base class's \<open>stop\<close>.\<close>

definition base_stop :: "producer \<Rightarrow> producer" where
  "base_stop p = p"

definition producer_stop :: "u8 list list \<Rightarrow> thread_state \<times> producer \<Rightarrow> (thread_state \<times> producer) outcome" where
  "producer_stop blocks = (\<lambda>(thread, p).
     let s = (thread, base_stop p)
     in if thread \<noteq> NoThread then thread_join blocks s else Inr s)"

section \<open>The producer with its pool\<close>

record ('c, 't) sample_stream =
  ss_pool :: "('c, 't) pool"
  ss_producer :: producer
  ss_thread :: thread_state

text \<open>
  The destructor of the pool: \<open>stop\<close>, with the pushes of what the transfer still queues, the
  \<open>i\<close>-th at the time \<open>clock i\<close>, and then the flag.
\<close>

definition timed :: "(nat \<Rightarrow> int) \<Rightarrow> queued list \<Rightarrow> (int \<times> queued) list" where
  "timed clock qs = zip (map clock [0..<length qs]) qs"

definition stream_destroy ::
  "('c, buffer_chunk) circ_ops \<Rightarrow> ('t, u32) circ_ops \<Rightarrow> u8 list list \<Rightarrow> (nat \<Rightarrow> int) \<Rightarrow>
     ('c, 't) sample_stream \<Rightarrow> ('c, 't) sample_stream outcome" where
  "stream_destroy C T blocks clock e =
     andthen (producer_stop blocks (ss_thread e, ss_producer e)) (\<lambda>(thread, p).
     andthen (push_queue C T (timed clock (drop (length (queuedBuffers (ss_producer e))) (queuedBuffers p)))
               (ss_pool e)) (\<lambda>pool.
       Inr \<lparr>ss_pool = pool_destroy pool, ss_producer = p, ss_thread = thread\<rparr>))"

text \<open>
  \<open>abortAllOperations\<close>. While the thread is still running this call does not return: the
  thread's last push needs the lock that is held here.
\<close>

definition stream_abort :: "('c, 't) sample_stream \<Rightarrow> ('c, 't) sample_stream outcome option" where
  "stream_abort e =
     (if ss_thread e = Running then None
      else Some (andthen (producer_stop [] (ss_thread e, ss_producer e)) (\<lambda>(thread, p).
        Inr \<lparr>ss_pool = abortAllOperations (ss_pool e), ss_producer = p, ss_thread = thread\<rparr>)))"

section \<open>Lemmas\<close>

lemma start_new [simp]: "producer_start blocks (NoThread, p) = Inr (Running, p)"
  by (simp add: producer_start_def)

lemma stop_running:
  "producer_stop blocks (Running, p) = andthen (producer_transfer blocks p) (\<lambda>p'. Inr (Joined, p'))"
  by (cases "producer_transfer blocks p")
    (simp_all add: producer_stop_def base_stop_def thread_join_def thread_finish_def)

lemma stop_finished [simp]: "producer_stop blocks (Finished, p) = Inr (Joined, p)"
  by (simp add: producer_stop_def base_stop_def thread_join_def thread_finish_def)

lemma stop_joined [simp]: "producer_stop blocks (Joined, p) = Inl ThreadNotJoinable"
  by (simp add: producer_stop_def base_stop_def thread_join_def thread_finish_def)

lemma stop_none [simp]: "producer_stop blocks (NoThread, p) = Inr (NoThread, p)"
  by (simp add: producer_stop_def base_stop_def)

lemma timed_queue [simp]: "map (q_buffer \<circ> snd) (timed clock qs) = map q_buffer qs"
  by (simp add: timed_def map_map [symmetric] del: map_map)

lemma timed_set [simp]: "snd ` set (timed clock qs) = set qs"
  unfolding set_map [symmetric] by (simp add: timed_def)

lemma delivers_length: "delivers queue bytes \<Longrightarrow> length queue \<le> length bytes + 1"
  unfolding delivers_def by (elim exE conjE, hypsubst) simp

section \<open>Properties\<close>

text \<open>
  C24: destroying the pool of a running producer waits for the whole rest of the transfer:
  what was written before and what the transfer still hands over has all reached the pool
  when the destructor goes on, the last buffer included, and only then the pool refuses
  calls.
\<close>

theorem destroy_drains_transfer:
  fixes C :: "('c, buffer_chunk) circ_ops" and T :: "('t, u32) circ_ops"
  assumes rings: "boost_rings C T" and running: "ss_thread e = Running"
    and written: "has_written [] bytes (ss_producer e)"
    and blocks: "list_all (\<lambda>b. length b < 2 ^ 64) blocks"
    and pool: "pool_holds C (map q_buffer (queuedBuffers (ss_producer e))) (ss_pool e)"
    and "\<not> exitPending (ss_pool e)" and "0 < unat (cb_capacity C (mCircBuf (ss_pool e)))"
    and long: "length (bytes @ concat blocks) < 2 ^ 64 - 1"
  shows "\<exists>e'. stream_destroy C T blocks clock e = Inr e' \<and> ss_thread e' = Joined \<and>
           delivers (queuedBuffers (ss_producer e')) (bytes @ concat blocks) \<and>
           pool_holds C (map q_buffer (queuedBuffers (ss_producer e'))) (ss_pool e') \<and>
           mGotLastBuffer (ss_pool e') \<and> exitPending (ss_pool e')"
proof -
  let ?p = "ss_producer e" and ?before = "queuedBuffers (ss_producer e)"
  have "has_written ?before (take (unat (mCurrentOffset ?p)) (chunk_data (tempBuffer ?p))) ?p"
    using written by (auto simp: has_written_def)
  from producer_transfer_extends [OF this blocks] obtain p' queue where
    p': "producer_transfer blocks ?p = Inr p'" "queuedBuffers p' = ?before @ queue" "\<exists>q \<in> set queue. q_last q"
    by (auto simp: delivers_def)
  have del: "delivers (queuedBuffers p') (bytes @ concat blocks)"
    using producer_transfer_ok [OF written blocks] p'(1) by auto
  then have "length (queuedBuffers p') \<le> length (bytes @ concat blocks) + 1"
    by (rule delivers_length)
  then have "length (map q_buffer ?before) + length (timed clock queue) < 2 ^ 64"
    using long p'(2) by (simp add: timed_def)
  from boost_rings.push_queue_ok [OF rings pool assms(6,7) this] obtain q where
    q: "push_queue C T (timed clock queue) (ss_pool e) = Inr q"
    "pool_holds C (map q_buffer ?before @ map q_buffer queue) q"
    "mGotLastBuffer q = (mGotLastBuffer (ss_pool e) \<or> (\<exists>c \<in> set (timed clock queue). q_last (snd c)))"
    by auto
  have "mGotLastBuffer q" using p'(3) timed_set [of clock queue] unfolding q(3) by (metis image_iff)
  then show ?thesis
    using p' q(1,2) del by (simp add: stream_destroy_def running stop_running pool_destroy_def pool_holds_def)
qed

theorem destroy_drains_transfer_witness:
  "\<exists>e'. stream_destroy list_ring list_ring [[1, 2], [3]] (\<lambda>i. 0)
       \<lparr>ss_pool = pool_new list_ring list_ring 4, ss_producer = producer_new (chunk_fill 0), ss_thread = Running\<rparr> = Inr e' \<and>
     delivers (queuedBuffers (ss_producer e')) [1, 2, 3] \<and> exitPending (ss_pool e')"
  using destroy_drains_transfer [OF lbr.boost_rings_axioms, of
      "\<lparr>ss_pool = pool_new list_ring list_ring 4, ss_producer = producer_new (chunk_fill 0), ss_thread = Running\<rparr>"
      "[]" "[[1, 2], [3]]" "\<lambda>i. 0"]
    has_written_new [of "chunk_fill 0"] lbr.holds_new [of 4]
  by (auto simp: producer_new_def pool_new_def)

text \<open>
  An abort that does return, because the transfer is over, joins the thread. The
  destructor of the same pool joins it once more, and that is an error.
\<close>

theorem abort_then_destroy_fails:
  assumes "ss_thread e = Finished"
  shows "\<exists>e1. stream_abort e = Some (Inr e1) \<and> mAborting (ss_pool e1) \<and>
           stream_destroy C T blocks clock e1 = Inl ThreadNotJoinable"
  using assms by (simp add: stream_abort_def stream_destroy_def abortAllOperations_def)

theorem abort_then_destroy_fails_witness:
  "\<exists>e1. stream_abort \<lparr>ss_pool = pool_new list_ring list_ring 4, ss_producer = producer_new (chunk_fill 0),
       ss_thread = Finished\<rparr> = Some (Inr e1) \<and>
     stream_destroy list_ring list_ring [] (\<lambda>i. 0) e1 = Inl ThreadNotJoinable"
  using abort_then_destroy_fails [of "\<lparr>ss_pool = pool_new list_ring list_ring 4,
      ss_producer = producer_new (chunk_fill 0), ss_thread = Finished\<rparr>" list_ring list_ring "[]" "\<lambda>i. 0"]
  by auto

end
