(* ===== verification/Sample_Plugin.thy ===== *)
theory Sample_Plugin
  imports Producer_Thread Virtual_FS
begin

text \<open>
  The sample plugin (sample/SamplePlugin.h, sample/SamplePlugin.cpp): one buffer pool and
  one producer for each stream that has been opened.
\<close>

section \<open>State and operations\<close>

record PluginConfig =
  configVars :: "string \<rightharpoonup> string"
  seek_buffer_size_ms :: u64

record ('c, 't) sample_plugin =
  mBufferPool :: "string \<rightharpoonup> ('c, 't) sample_stream"
  mAvailableStreams :: "string list"
  mConfig :: PluginConfig
  read_offset_c :: c_int

text \<open>\<open>100 * 1024\<close> chunks.\<close>

definition BUFFER_POOL_SIZE :: u64 where
  "BUFFER_POOL_SIZE = 100 * 1024"

definition sample_new :: "('c, 't) sample_plugin" where
  "sample_new =
     \<lparr>mBufferPool = Map.empty, mAvailableStreams = [''test1.tst'', ''test2.tst'', ''test3.tst''],
      mConfig = \<lparr>configVars = Map.empty, seek_buffer_size_ms = 0\<rparr>, read_offset_c = 0\<rparr>"

text \<open>The constructor announces the streams through the callback object it is given.\<close>

definition sample_init :: "plugin_cb \<Rightarrow> ('c, 't) sample_plugin plugin" where
  "sample_init cb =
     \<lparr>pl_state = sample_new, pl_cb = cb_setAvailableStreams (mAvailableStreams (sample_new :: ('c, 't) sample_plugin)) cb\<rparr>"

definition sample_updateConfiguration ::
  "PluginConfig \<Rightarrow> ('c, 't) sample_plugin \<Rightarrow> ('c, 't) sample_plugin" where
  "sample_updateConfiguration config s = s\<lparr>mConfig := config\<rparr>"

definition sample_stopPlayback :: "('c, 't) sample_plugin \<Rightarrow> ('c, 't) sample_plugin" where
  "sample_stopPlayback s = s"

definition sample_newBufferNotify ::
  "buffer_chunk \<Rightarrow> ('c, 't) sample_plugin \<Rightarrow> ('c, 't) sample_plugin" where
  "sample_newBufferNotify buffer s = s"

definition sample_getId :: string where
  "sample_getId = ''sample_plugin''"

text \<open>The consumer of the plugin passes each new buffer on; nothing is done with it.\<close>

definition consumer_newBufferAvailable ::
  "buffer_chunk \<Rightarrow> ('c, 't) sample_plugin \<Rightarrow> ('c, 't) sample_plugin" where
  "consumer_newBufferAvailable buffer s = sample_newBufferNotify buffer s"

text \<open>\<open>open\<close> starts the transfer in a thread of its own.\<close>

definition sample_open ::
  "('c, buffer_chunk) circ_ops \<Rightarrow> ('t, u32) circ_ops \<Rightarrow> buffer_chunk \<Rightarrow> string \<Rightarrow>
     ('c, 't) sample_plugin \<Rightarrow> (c_int \<times> ('c, 't) sample_plugin) outcome" where
  "sample_open C T garbage uri s =
     (let s1 = s\<lparr>read_offset_c := 0\<rparr>
      in if uri \<in> dom (mBufferPool s1) then Inr (0, s1)
         else
           let s2 = s1\<lparr>mBufferPool := (mBufferPool s1)(uri := None)\<rparr>;
               pool = pool_new C T BUFFER_POOL_SIZE
           in andthen (producer_start [] (NoThread, producer_new garbage)) (\<lambda>(thread, p).
                Inr (0, s2\<lparr>mBufferPool := (mBufferPool s2)(uri \<mapsto>
                  \<lparr>ss_pool = pool, ss_producer = p, ss_thread = thread\<rparr>)\<rparr>)))"

text \<open>
  \<open>read\<close> returns the byte count as an \<open>int\<close>; \<open>None\<close> when the reader is still throttled
  at the end of the schedule.
\<close>

definition sample_read ::
  "('c, buffer_chunk) circ_ops \<Rightarrow> ('t, u32) circ_ops \<Rightarrow> schedule \<Rightarrow> u64 \<Rightarrow> string \<Rightarrow> u8 list \<Rightarrow>
     u64 \<Rightarrow> u64 \<Rightarrow> ('c, 't) sample_plugin \<Rightarrow>
     (c_int option \<times> u8 list \<times> ('c, 't) sample_plugin) outcome" where
  "sample_read C T sched handle path buf size' offset s =
     (let s1 = s\<lparr>read_offset_c := read_offset_c s + 1\<rparr>
      in case mBufferPool s1 path of
           None \<Rightarrow> Inr (Some 0, buf, s1)
         | Some e \<Rightarrow>
             andthen (readRandomAccess C T sched buf size' offset (ss_pool e)) (\<lambda>(ret, buf', pool).
               Inr (map_option ucast ret, buf',
                    s1\<lparr>mBufferPool := (mBufferPool s1)(path \<mapsto> e\<lparr>ss_pool := pool\<rparr>)\<rparr>)))"

definition sample_write ::
  "string \<Rightarrow> u8 list \<Rightarrow> u64 \<Rightarrow> ('c, 't) sample_plugin \<Rightarrow> c_int \<times> ('c, 't) sample_plugin" where
  "sample_write node buf offset s = (0, s)"

definition sample_release ::
  "u64 \<Rightarrow> string \<Rightarrow> ('c, 't) sample_plugin \<Rightarrow> c_int \<times> ('c, 't) sample_plugin" where
  "sample_release handle path s = (0, s)"

definition sample_getSize :: "string \<Rightarrow> ('c, 't) sample_plugin \<Rightarrow> u64" where
  "sample_getSize path s = 0"

text \<open>The producer's thread hands a queued buffer of an open stream to its pool.\<close>

definition sample_deliver ::
  "('c, buffer_chunk) circ_ops \<Rightarrow> ('t, u32) circ_ops \<Rightarrow> string \<Rightarrow> (int \<times> queued) list \<Rightarrow>
     ('c, 't) sample_plugin \<Rightarrow> ('c, 't) sample_plugin outcome" where
  "sample_deliver C T uri cs s =
     (case mBufferPool s uri of
        None \<Rightarrow> Inr s
      | Some e \<Rightarrow>
          andthen (push_queue C T cs (ss_pool e)) (\<lambda>pool.
            Inr (s\<lparr>mBufferPool := (mBufferPool s)(uri \<mapsto> e\<lparr>ss_pool := pool\<rparr>)\<rparr>)))"

section \<open>Opening and reading a stream\<close>

lemma fresh_unthrottled:
  "mReadAheadCount (mThrottle p) = 0 \<Longrightarrow> \<not> throttled C T len offset p"
  unfolding throttled_def
  by (rule wait_read_ahead)
    (simp add: after_copy_def at_position_def setReadPosition_def READ_AHEAD_COUNT_def)

text \<open>
  Opening a stream that is open leaves its pool alone, so that its readers keep what has
  been buffered.
\<close>

lemma sample_open_keeps:
  assumes "mBufferPool s path = Some e"
  shows "\<exists>s'. sample_open C T garbage uri s = Inr (0, s') \<and> mBufferPool s' path = Some e"
  using assms by (auto simp: sample_open_def Let_def)

text \<open>
  A stream that is opened, filled by its producer and read returns the bytes that the
  producer queued, at the offset asked for.
\<close>

lemma sample_stream_read:
  fixes C :: "('c, buffer_chunk) circ_ops" and T :: "('t, u32) circ_ops"
  assumes rings: "boost_rings C T" and new: "mBufferPool s uri = None"
    and full: "list_all (full_chunk \<circ> snd) cs" and room: "length cs \<le> 102400"
    and "0 < n" and "unat ob + unat n \<le> length cs * 9024"
    and "unat n \<le> length buf" and "length buf < 2 ^ 31"
  shows "\<exists>s0 s' s''. sample_open C T garbage uri s = Inr (0, s0) \<and> sample_deliver C T uri cs s0 = Inr s' \<and>
           sample_read C T undisturbed handle uri buf n ob s' =
             Inr (Some (ucast n), take (unat n) (drop (unat ob) (stream_bytes (map (q_buffer \<circ> snd) cs))) @
               drop (unat n) buf, s'')"
proof -
  let ?p0 = "pool_new C T BUFFER_POOL_SIZE"
  have cap: "unat (cb_capacity C (mCircBuf ?p0)) = 102400"
    using rings circular_buffer.capacity_new [of C] boost_rings.axioms(1) [OF rings]
    by (simp add: pool_new_def BUFFER_POOL_SIZE_def)
  have hold0: "pool_holds C [] ?p0" by (rule boost_rings.holds_new [OF rings])
  have exit0: "\<not> exitPending ?p0" by (simp add: pool_new_def)
  have cap0: "0 < unat (cb_capacity C (mCircBuf ?p0))" using cap by simp
  have len0: "length ([] :: buffer_chunk list) + length cs < 2 ^ 64" using room by simp
  from boost_rings.push_queue_ok [OF rings hold0 exit0 cap0 len0] obtain p where
    p: "push_queue C T cs ?p0 = Inr p" "pool_holds C ([] @ map (q_buffer \<circ> snd) cs) p"
    "unat (cb_capacity C (mCircBuf p)) = unat (cb_capacity C (mCircBuf ?p0))" "pushed_from ?p0 p"
    "mGotLastBuffer p = (mGotLastBuffer ?p0 \<or> (\<exists>c \<in> set cs. q_last (snd c)))" by blast
  have hold: "pool_holds C (map (q_buffer \<circ> snd) cs) p" using p(2) by simp
  have exit: "\<not> exitPending p" and ahead: "mReadAheadCount (mThrottle p) = 0"
    using p(4) by (simp_all add: pushed_from_def pool_new_def throttle_new_def)
  have "\<not> mGotLastBuffer p"
    using p(5) full by (auto simp: pool_new_def list_all_iff full_chunk_def)
  then have whole: "whole_chunks p len" for len by (simp add: whole_chunks_def)
  have avail: "unat ob + unat n \<le> length (map (q_buffer \<circ> snd) cs) * 9024" using assms(6) by simp
  have kept: "length (map (q_buffer \<circ> snd) cs) - unat ob div 9024 \<le> unat (cb_capacity C (mCircBuf p))"
    using room p(3) cap by simp
  have s: "beforeCopy undisturbed = []" by (simp add: undisturbed_def)
  from boost_rings.random_access_read(1) [OF rings hold exit assms(5) avail kept whole assms(7,8) s]
    fresh_unthrottled [OF ahead, of C T "access_length n ob" "ob div BUFFER_CHUNK_SIZE"]
  have "\<exists>q. readRandomAccess C T undisturbed buf n ob p =
      Inr (Some n, take (unat n) (drop (unat ob) (stream_bytes (map (q_buffer \<circ> snd) cs))) @
        drop (unat n) buf, q)" by auto
  then obtain q where q: "readRandomAccess C T undisturbed buf n ob p =
      Inr (Some n, take (unat n) (drop (unat ob) (stream_bytes (map (q_buffer \<circ> snd) cs))) @
        drop (unat n) buf, q)" by blast
  have "uri \<notin> dom (mBufferPool s)" using new by auto
  then show ?thesis
    using p(1) q by (simp add: sample_open_def sample_deliver_def sample_read_def Let_def)
qed

end
