(* ===== verification/Plugin_Manager.thy ===== *)
theory Plugin_Manager
  imports Fuse_FS
begin

text \<open>
  Loading and unloading of plugins (include/streamfs/StreamPluginManager.h,
  src/StreamPluginManager.cpp, PluginManagerConfig.h), the removal of a directory
  (\<open>~VirtualFSProvider\<close>) and the part of main.cpp that starts and stops them.

  The shared libraries are outside the repository: what the dynamic linker finds in a file
  is a parameter, as is the content of the directories. A library that has been opened is
  named by its path, since each path is opened at most once.
\<close>

section \<open>Shared libraries and directories\<close>

text \<open>
  \<open>None\<close> for a symbol that is missing. The second \<open>option\<close> is the pointer the function
  returns: a null pointer is \<open>None\<close>.
\<close>

record 'p shared_lib =
  sl_opens :: bool
  INIT_STREAMFS_PLUGIN :: "(plugin_cb \<Rightarrow> 'p plugin option) option"
  GET_STREAMFS_PLUGIN_ID :: "string option option"
  UNLOAD_STREAMFS_PLUGIN :: bool

type_synonym 'p libs = "string \<Rightarrow> 'p shared_lib"

record dir_entry =
  de_path :: string
  de_regular :: bool
  de_extension :: string

type_synonym directories = "string \<Rightarrow> dir_entry list option"

record PluginManagerConfig =
  pluginDirectories :: "string list"

definition config :: PluginManagerConfig where
  "config = \<lparr>pluginDirectories = [''.'', ''/usr/lib/streamfs/'', ''/usr/local/lib/streamfs'']\<rparr>"

definition STREAMFS_INTERFACE_VERSION :: u32 where
  "STREAMFS_INTERFACE_VERSION = 4"

text \<open>The set of the libraries found, as the keys of a map.\<close>

definition add_entry :: "dir_entry \<Rightarrow> (string, unit) std_map \<Rightarrow> (string, unit) std_map" where
  "add_entry e s = (if de_regular e \<and> de_extension e = ''.so'' then sm_insert (de_path e) () s else s)"

definition add_directory :: "directories \<Rightarrow> string \<Rightarrow> (string, unit) std_map \<Rightarrow> (string, unit) std_map" where
  "add_directory dirs dir s = (case dirs dir of None \<Rightarrow> s | Some es \<Rightarrow> fold add_entry es s)"

definition sharedLibs :: "directories \<Rightarrow> PluginManagerConfig \<Rightarrow> string list" where
  "sharedLibs dirs configuration = sm_keys (fold (add_directory dirs) (pluginDirectories configuration) [])"

section \<open>State\<close>

text \<open>
  The plugin object and the directory are shared with the file system, which holds their
  current state; here they are as they were when the plugin was loaded.
\<close>

record 'p plugin_state =
  interface :: "'p plugin"
  ps_provider :: "'p provider"
  libraryPath :: string

datatype dl_effect = DlOpen string | DlClose string | UnloadCall string

text \<open>Of the handle array, the entries that have been set.\<close>

record 'p manager =
  mPlugins :: "(string, 'p plugin_state) std_map"
  mHandleArray :: "string list option"
  mHandleCount :: nat
  dl_effects :: "dl_effect list"

definition manager_new :: "'p manager" where
  "manager_new = \<lparr>mPlugins = [], mHandleArray = None, mHandleCount = 0, dl_effects = []\<rparr>"

definition dl_note :: "dl_effect \<Rightarrow> 'p manager \<Rightarrow> 'p manager" where
  "dl_note e m = m\<lparr>dl_effects := dl_effects m @ [e]\<rparr>"

definition getPluginState :: "string \<Rightarrow> 'p manager \<Rightarrow> 'p plugin_state option" where
  "getPluginState pluginId m = sm_find pluginId (mPlugins m)"

text \<open>The destructor of a directory takes its name out of the file system.\<close>

definition provider_destroy :: "'p provider \<Rightarrow> 'p fuse_state \<Rightarrow> 'p fuse_state" where
  "provider_destroy v f = (if mIsPluginHandler v then removeFsProvider (getName v) f else f)"

section \<open>Loading\<close>

text \<open>
  The end of an iteration, for a plugin object that has been created: its directory
  registers itself, and unless the plugin state ends in the map, it is destroyed with the
  directory when the iteration ends. The callback object is shared with the plugin.
  \<open>None\<close>: the program ends.
\<close>

definition load_created ::
  "'p plugin_ops \<Rightarrow> string \<Rightarrow> 'p plugin \<Rightarrow> 'p manager \<times> 'p fuse_state \<Rightarrow> ('p manager \<times> 'p fuse_state) option" where
  "load_created I soFile plugin = (\<lambda>(m, f).
     let plugin' = plugin\<lparr>pl_cb := cb_registerCallbackHandler (pl_cb plugin)\<rparr>
     in case provider_new (pi_getId I plugin) (Some plugin') True of
          None \<Rightarrow> None
        | Some (v, registered) \<Rightarrow>
            (let f1 = (if registered then registerFsProvider v f else f);
                 pluginState = \<lparr>interface = plugin', ps_provider = v, libraryPath = soFile\<rparr>
             in if pi_getInterfaceVersion I plugin' \<noteq> STREAMFS_INTERFACE_VERSION
                then Some (m, provider_destroy v f1)
                else Some
                  (m\<lparr>mPlugins := sm_insert (pi_getId I plugin') pluginState (mPlugins m),
                     mHandleArray := map_option (\<lambda>hs. hs @ [soFile]) (mHandleArray m),
                     mHandleCount := mHandleCount m + 1\<rparr>,
                   if sm_find (pi_getId I plugin') (mPlugins m) = None then f1 else provider_destroy v f1)))"

text \<open>One iteration of the loop over the libraries.\<close>

definition load_one ::
  "'p plugin_ops \<Rightarrow> 'p libs \<Rightarrow> string \<Rightarrow> 'p manager \<times> 'p fuse_state \<Rightarrow> ('p manager \<times> 'p fuse_state) option" where
  "load_one I libs soFile = (\<lambda>(m, f).
     if \<not> sl_opens (libs soFile) then Some (m, f)
     else
       let m1 = dl_note (DlOpen soFile) m;
           closed = dl_note (DlClose soFile) m1
       in case (INIT_STREAMFS_PLUGIN (libs soFile), GET_STREAMFS_PLUGIN_ID (libs soFile)) of
            (Some creator, Some (Some pluginId)) \<Rightarrow>
              if sm_find pluginId (mPlugins m1) \<noteq> None then Some (closed, f)
              else (case creator (plugin_cb_new pluginId) of
                      None \<Rightarrow> Some (closed, f)
                    | Some plugin \<Rightarrow> load_created I soFile plugin (m1, f))
          | _ \<Rightarrow> Some (closed, f))"

fun load_all ::
  "'p plugin_ops \<Rightarrow> 'p libs \<Rightarrow> string list \<Rightarrow> 'p manager \<times> 'p fuse_state \<Rightarrow> ('p manager \<times> 'p fuse_state) option" where
  "load_all I libs [] s = Some s"
| "load_all I libs (soFile # soFiles) s =
     (case load_one I libs soFile s of None \<Rightarrow> None | Some s' \<Rightarrow> load_all I libs soFiles s')"

text \<open>The plugins of an earlier call are dropped with their directories; their handles are forgotten.\<close>

definition loadPlugins ::
  "'p plugin_ops \<Rightarrow> 'p libs \<Rightarrow> directories \<Rightarrow> PluginManagerConfig \<Rightarrow> 'p manager \<times> 'p fuse_state \<Rightarrow>
     (c_int \<times> 'p manager \<times> 'p fuse_state) option" where
  "loadPlugins I libs dirs configuration = (\<lambda>(m, f).
     let f1 = fold provider_destroy (map (ps_provider \<circ> snd) (mPlugins m)) f;
         m1 = m\<lparr>mPlugins := [], mHandleCount := 0, mHandleArray := Some []\<rparr>
     in map_option (\<lambda>s. (0, s)) (load_all I libs (sharedLibs dirs configuration) (m1, f1)))"

definition initPlugins :: "'p manager \<Rightarrow> 'p manager" where
  "initPlugins m = m"

section \<open>Unloading\<close>

definition unload_one :: "'p libs \<Rightarrow> string \<Rightarrow> 'p manager \<Rightarrow> 'p manager" where
  "unload_one libs h m =
     (if \<not> UNLOAD_STREAMFS_PLUGIN (libs h) then m
      else case GET_STREAMFS_PLUGIN_ID (libs h) of
             Some (Some pluginStr) \<Rightarrow>
               if sm_find pluginStr (mPlugins m) = None then m
               else dl_note (DlClose h) (dl_note (UnloadCall h) m)
           | _ \<Rightarrow> m)"

definition unloadPlugins :: "'p libs \<Rightarrow> 'p manager \<Rightarrow> 'p manager" where
  "unloadPlugins libs m =
     (case mHandleArray m of
        None \<Rightarrow> m
      | Some hs \<Rightarrow> (fold (unload_one libs) (take (mHandleCount m) hs) m)\<lparr>mHandleArray := None\<rparr>)"

section \<open>The program\<close>

datatype main_effect = Umount string | Raise c_int

record sig_state =
  sighandler_locked :: bool
  isSigtermTriggered :: bool
  fuseMountPoint :: "string option"
  main_effects :: "main_effect list"

text \<open>The handler may interrupt itself: then the lock is held and it does nothing.\<close>

definition sigterm_handler :: "'p libs \<Rightarrow> c_int \<Rightarrow> sig_state \<times> 'p manager \<Rightarrow> sig_state \<times> 'p manager" where
  "sigterm_handler libs sig_received = (\<lambda>(s, m).
     if \<not> sighandler_locked s \<and> \<not> isSigtermTriggered s
     then (s\<lparr>isSigtermTriggered := True,
             main_effects := main_effects s @
               (case fuseMountPoint s of None \<Rightarrow> [] | Some p \<Rightarrow> [Umount p]) @ [Raise sig_received]\<rparr>,
           unloadPlugins libs m)
     else (s, m))"

record options =
  opt_debug_level :: u32
  opt_ts_dump :: bool

definition main_options :: "options \<Rightarrow> debug_options" where
  "main_options opts = \<lparr>debugLevel = opt_debug_level opts, tsDumpEnable = opt_ts_dump opts\<rparr>"

text \<open>What \<open>main\<close> does before it hands the callbacks to the FUSE library.\<close>

definition main_start ::
  "'p plugin_ops \<Rightarrow> 'p libs \<Rightarrow> directories \<Rightarrow> options \<Rightarrow> ('p manager \<times> 'p fuse_state) option" where
  "main_start I libs dirs opts =
     (let f = fuse_new (main_options opts)
      in map_option (\<lambda>(res, m, f'). (initPlugins m, f')) (loadPlugins I libs dirs config (manager_new, f)))"

section \<open>What a library provides\<close>

text \<open>The identifier of the plugin that can be loaded from a library, if any.\<close>

definition provides :: "'p plugin_ops \<Rightarrow> 'p libs \<Rightarrow> string \<Rightarrow> string option" where
  "provides I libs p =
     (if \<not> sl_opens (libs p) then None
      else case (INIT_STREAMFS_PLUGIN (libs p), GET_STREAMFS_PLUGIN_ID (libs p)) of
             (Some creator, Some (Some i)) \<Rightarrow>
               (case creator (plugin_cb_new i) of
                  None \<Rightarrow> None
                | Some x \<Rightarrow> if pi_getInterfaceVersion I x = STREAMFS_INTERFACE_VERSION then Some i else None)
           | _ \<Rightarrow> None)"

text \<open>
  A plugin object names itself as its library does, its name is not empty, and name and
  version do not depend on whether the callback handler is registered.
\<close>

definition true_names :: "'p plugin_ops \<Rightarrow> 'p libs \<Rightarrow> bool" where
  "true_names I libs \<longleftrightarrow>
     (\<forall>p creator i x. INIT_STREAMFS_PLUGIN (libs p) = Some creator \<and>
        GET_STREAMFS_PLUGIN_ID (libs p) = Some (Some i) \<and> creator (plugin_cb_new i) = Some x \<longrightarrow>
        i \<noteq> [] \<and> pi_getId I x = i \<and>
        (let x' = x\<lparr>pl_cb := cb_registerCallbackHandler (pl_cb x)\<rparr>
         in pi_getId I x' = i \<and> pi_getInterfaceVersion I x' = pi_getInterfaceVersion I x))"

end
