(* ===== verification/Fuse_Session.thy ===== *)
theory Fuse_Session
  imports Fuse_Lookup "HOL-Library.Multiset"
begin

text \<open>
  Runs of the file system: the callbacks of the kernel, the registration of plugins and
  their notifications, in any order. What holds after every run: the maps are in order,
  a provider is registered under its name, the file handles handed out are consecutive,
  and each poll handle that has been kept is pending or has been destroyed, once.
\<close>

section \<open>Events\<close>

text \<open>A plugin may also announce a new list of streams, through its callback object.\<close>

definition set_streams :: "string list \<Rightarrow> 'p provider \<Rightarrow> 'p provider" where
  "set_streams ids v = v\<lparr>mCb := map_option (\<lambda>x. x\<lparr>pl_cb := cb_setAvailableStreams ids (pl_cb x)\<rparr>) (mCb v)\<rparr>"

definition announceStreams :: "string \<Rightarrow> string list \<Rightarrow> 'p fuse_state \<Rightarrow> 'p fuse_state" where
  "announceStreams k ids f =
     (case sm_find k (fsProviders f) of None \<Rightarrow> f | Some v \<Rightarrow> set_provider k (set_streams ids v) f)"

datatype 'p fuse_event =
    FsRegister "'p provider"
  | FsRemove string
  | FsStreams string "string list"
  | FsGetAttr string
  | FsReadDir string
  | FsTruncate string u64
  | FsOpen string
  | FsRead "fuse_context option" string "u8 list" u64 u64 u64
  | FsWrite string "u8 list" u64
  | FsRelease string u64
  | FsPoll "fuse_context option" string "poll_handle option" u32
  | FsNotify plugin_cb string

text \<open>
  One event: the file handle it hands out, if any, and the next state. The calls of the
  kernel are those of \<open>getFuseOperations\<close>.
\<close>

definition fuse_do ::
  "path_ops \<Rightarrow> 'p plugin_ops \<Rightarrow> 'p fuse_event \<Rightarrow> 'p fuse_state \<Rightarrow> (u64 list \<times> 'p fuse_state) outcome" where
  "fuse_do P I ev f =
     (case ev of
        FsRegister v \<Rightarrow> Inr ([], registerFsProvider v f)
      | FsRemove i \<Rightarrow> Inr ([], removeFsProvider i f)
      | FsStreams k ids \<Rightarrow> Inr ([], announceStreams k ids f)
      | FsGetAttr path \<Rightarrow> andthen (getAttrCallback P I path f) (\<lambda>(res, st). Inr ([], f))
      | FsReadDir path \<Rightarrow> andthen (readDirCallback P path f) (\<lambda>(res, names). Inr ([], f))
      | FsTruncate path n \<Rightarrow> Inr ([], snd (fuse_truncate path n f))
      | FsOpen path \<Rightarrow> andthen (openCallback P I path f)
          (\<lambda>(res, fh, f'). Inr ((case fh of None \<Rightarrow> [] | Some h \<Rightarrow> [h]), f'))
      | FsRead ctx path buf n offset fh \<Rightarrow>
          andthen (readCallback P I ctx path buf n offset fh f) (\<lambda>(res, buf', f'). Inr ([], f'))
      | FsWrite path buf offset \<Rightarrow>
          andthen (writeFileCallback P I path buf offset f) (\<lambda>(res, f'). Inr ([], f'))
      | FsRelease path fh \<Rightarrow> andthen (fuse_release P I path fh f) (\<lambda>(res, f'). Inr ([], f'))
      | FsPoll ctx path ph revents \<Rightarrow>
          andthen (fuse_poll P ctx path ph revents f) (\<lambda>(res, revents', f'). Inr ([], f'))
      | FsNotify cb path \<Rightarrow> Inr ([], notifyUpdate cb path f))"

text \<open>The poll handle that an event leaves with the file system: that of a known file.\<close>

definition kept_handles :: "path_ops \<Rightarrow> 'p fuse_event \<Rightarrow> 'p fuse_state \<Rightarrow> poll_handle list" where
  "kept_handles P ev f =
     (case ev of
        FsPoll (Some c) path (Some h) revents \<Rightarrow>
          (case andthen (findProvider P path f) (\<lambda>v. findNode P (map_option snd v) path) of
             Inl e \<Rightarrow> []
           | Inr node \<Rightarrow> if node = [] then [] else [h])
      | _ \<Rightarrow> [])"

inductive fuse_trace ::
  "path_ops \<Rightarrow> 'p plugin_ops \<Rightarrow> debug_options \<Rightarrow> u64 list \<Rightarrow> poll_handle list \<Rightarrow> 'p fuse_state \<Rightarrow> bool"
  for P I opts where
  trace_start: "fuse_trace P I opts [] [] (fuse_new opts)"
| trace_step: "fuse_trace P I opts issued kept f \<Longrightarrow> fuse_do P I ev f = Inr (i, f') \<Longrightarrow>
     fuse_trace P I opts (issued @ i) (kept @ kept_handles P ev f) f'"

section \<open>Well-formed states\<close>

definition polls_ok :: "poll_handles \<Rightarrow> bool" where
  "polls_ok m \<longleftrightarrow> sm_ok m \<and> (\<forall>i ctxMap. sm_find i m = Some ctxMap \<longrightarrow> sm_ok ctxMap)"

definition fuse_ok :: "'p fuse_state \<Rightarrow> bool" where
  "fuse_ok f \<longleftrightarrow>
     sm_ok (fsProviders f) \<and> (\<forall>k v. sm_find k (fsProviders f) = Some v \<longrightarrow> getName v = k) \<and>
     polls_ok (mPollHandles f) \<and> sm_ok (mEofReached f)"

lemma read_nodes_keep:
  "read_nodes I fh n offset ns (res, buf, v) = (res', buf', w) \<Longrightarrow> mName w = mName v"
proof (induction ns arbitrary: res buf v)
  case Nil
  then show ?case by simp
next
  case (Cons a ns)
  obtain r b u where u: "vfs_read I fh a buf n offset v = (r, b, u)" by (metis prod_cases3)
  with Cons.prems Cons.IH have "mName w = mName u" by simp
  with u vfs_calls_keep(2) [of v I fh a buf n offset] show ?case by (simp add: same_directory_def)
qed

lemma release_nodes_keep:
  "release_nodes I fh ns (res, v) = (res', w) \<Longrightarrow> mName w = mName v"
proof (induction ns arbitrary: res v)
  case Nil
  then show ?case by simp
next
  case (Cons a ns)
  obtain r u where u: "vfs_release I fh a v = (r, u)" by fastforce
  with Cons.prems Cons.IH have "mName w = mName u" by simp
  with u vfs_calls_keep(4) [of v I fh a] show ?case by (simp add: same_directory_def)
qed

lemma vfs_keep_name:
  "vfs_open I node v = (r, w) \<Longrightarrow> mName w = mName v"
  "vfs_write I node buf n offset v = (r, w) \<Longrightarrow> mName w = mName v"
  using vfs_calls_keep(1) [of v I node] vfs_calls_keep(3) [of v I node buf n offset]
  by (simp_all add: same_directory_def)

text \<open>How the events other than a poll and a notification change the state.\<close>

definition providers_only :: "'p fuse_state \<Rightarrow> 'p fuse_state \<Rightarrow> bool" where
  "providers_only f f' \<longleftrightarrow>
     mPollHandles f' = mPollHandles f \<and> poll_effects f' = poll_effects f \<and>
     (fuse_ok f \<longrightarrow> fuse_ok f')"

lemma findProvider_found:
  "findProvider P path f = Inr (Some (k, v)) \<Longrightarrow> sm_find k (fsProviders f) = Some v"
  by (auto simp: findProvider_def andthen_Inr_iff)

lemma set_provider_same_name:
  assumes "sm_find k (fsProviders f) = Some v" and "mName w = mName v"
  shows "providers_only f (set_provider k w f)"
  using assms
  by (auto simp: providers_only_def fuse_ok_def set_provider_def sm_ok_assign sm_find_assign getName_def
      split: if_splits)

lemma providers_only_trans: "providers_only f g \<Longrightarrow> providers_only g h \<Longrightarrow> providers_only f h"
  by (simp add: providers_only_def)

lemma providers_only_counter: "providers_only f (f\<lparr>fh_counter_g := n\<rparr>)"
  by (simp add: providers_only_def fuse_ok_def)

lemma providers_only_debug: "providers_only f (f\<lparr>mDebugOptions := d\<rparr>)"
  by (simp add: providers_only_def fuse_ok_def)

lemma providers_only_eof: "providers_only f (f\<lparr>mEofReached := sm_assign i b (mEofReached f)\<rparr>)"
  by (simp add: providers_only_def fuse_ok_def sm_ok_assign)

lemma providers_only_refl: "providers_only f f"
  by (simp add: providers_only_def)

lemma registration_keeps: "providers_only f (registerFsProvider v f)"
  by (auto simp: providers_only_def fuse_ok_def registerFsProvider_def sm_ok_insert sm_find_insert
      split: if_splits)

lemma removal_keeps: "providers_only f (removeFsProvider i f)"
  by (auto simp: providers_only_def fuse_ok_def removeFsProvider_def sm_ok_erase sm_find_erase
      split: if_splits)

lemma announcement_keeps: "providers_only f (announceStreams k ids f)"
  by (auto simp: announceStreams_def set_streams_def providers_only_refl
      intro: set_provider_same_name split: option.splits)

text \<open>What a callback that goes on to a plugin has done.\<close>

lemma open_effect:
  assumes "openCallback P I path f = Inr (res, fh, f')"
  shows "fh = None \<and> f' = f \<or>
    (\<exists>k v node w. sm_find k (fsProviders f) = Some v \<and> vfs_open I node v = (res, w) \<and>
       (fh, f') = (if 0 \<le>s res
         then (Some (fh_counter_g f), (set_provider k w f)\<lparr>fh_counter_g := fh_counter_g f + 1\<rparr>)
         else (None, set_provider k w f)))"
proof -
  from assms obtain pr where pr: "findProvider P path f = Inr pr"
    by (auto simp: openCallback_def andthen_Inr_iff)
  show ?thesis
  proof (cases pr)
    case None
    with assms pr show ?thesis by (auto simp: openCallback_def andthen_Inr_iff split: if_splits)
  next
    case (Some kv)
    obtain k v where kv: "kv = (k, v)" by fastforce
    have found: "sm_find k (fsProviders f) = Some v"
      using findProvider_found [of P path f k v] pr Some kv by simp
    let ?go = "\<exists>node w. vfs_open I node v = (res, w) \<and> (fh, f') = (if 0 \<le>s res
        then (Some (fh_counter_g f), (set_provider k w f)\<lparr>fh_counter_g := fh_counter_g f + 1\<rparr>)
        else (None, set_provider k w f))"
    have "fh = None \<and> f' = f \<or> ?go"
      using assms pr Some kv
      by (auto simp: openCallback_def andthen_Inr_iff Let_def set_provider_def prod_eq_iff case_prod_beta
          split: if_splits option.splits)
    with found show ?thesis by blast
  qed
qed

lemma read_effect:
  assumes "readCallback P I ctx path buf n offset fh f = Inr (res, buf', f')"
  shows "f' = f \<or>
    (\<exists>g. (g = f \<or> (\<exists>k v ns b r w. sm_find k (fsProviders f) = Some v \<and>
            read_nodes I fh n offset ns (0, b, v) = (r, buf', w) \<and> g = set_provider k w f)) \<and>
         (f' = g \<or> (\<exists>i b. f' = g\<lparr>mEofReached := sm_assign i b (mEofReached g)\<rparr>)))"
proof -
  let ?eof = "\<lambda>g. f' = g \<or> (\<exists>i b. f' = g\<lparr>mEofReached := sm_assign i b (mEofReached g)\<rparr>)"
  from assms obtain pr where pr: "findProvider P path f = Inr pr"
    by (auto simp: readCallback_def andthen_Inr_iff)
  show ?thesis
  proof (cases pr)
    case None
    with assms pr have "f' = f \<or> ?eof f"
      by (auto simp: readCallback_def andthen_Inr_iff split: if_splits option.splits)
    then show ?thesis by blast
  next
    case (Some kv)
    obtain k v where kv: "kv = (k, v)" by fastforce
    have found: "sm_find k (fsProviders f) = Some v"
      using findProvider_found [of P path f k v] pr Some kv by simp
    show ?thesis
    proof (cases "path_equal P path DEBUG_FILE_PATH \<or> path_equal P path TS_DUMP_FILE_PATH")
      case True
      with assms pr have "f' = f" by (auto simp: readCallback_def andthen_Inr_iff split: if_splits)
      then show ?thesis by blast
    next
      case False
      with assms pr Some kv obtain b where b: "node_element P path (getNodes v) = Inr b"
        by (auto simp: readCallback_def andthen_Inr_iff)
      obtain r c w where out: "read_nodes I fh n offset (matching b v) (0, buf, v) = (r, c, w)"
        by (metis prod_cases3)
      have eof: "c = buf' \<and> ?eof (set_provider k w f)"
        using assms pr Some kv False b out
        by (auto simp: readCallback_def andthen_Inr_iff split: option.splits)
      then have out': "read_nodes I fh n offset (matching b v) (0, buf, v) = (r, buf', w)"
        using out by simp
      have "set_provider k w f = f \<or> (\<exists>k' v ns b r w'. sm_find k' (fsProviders f) = Some v \<and>
          read_nodes I fh n offset ns (0, b, v) = (r, buf', w') \<and> set_provider k w f = set_provider k' w' f)"
        by (intro disjI2 exI conjI) (rule found, rule out', rule refl)
      with eof show ?thesis by (intro disjI2) (rule exI, rule conjI, assumption, rule conjunct2)
    qed
  qed
qed

lemma write_effect:
  assumes "writeFileCallback P I path buf offset f = Inr (res, f')"
  shows "f' = f \<or> (\<exists>d. f' = f\<lparr>mDebugOptions := d\<rparr>) \<or>
    (\<exists>k v node b w. sm_find k (fsProviders f) = Some v \<and>
       vfs_write I node b (of_nat (length buf)) offset v = (res, w) \<and> f' = set_provider k w f)"
  using assms
  by (auto simp: writeFileCallback_def andthen_Inr_iff Let_def case_prod_beta prod_eq_iff
      dest!: findProvider_found split: if_splits option.splits) metis+

lemma release_effect:
  assumes "fuse_release P I path fh f = Inr (res, f')"
  shows "f' = f \<or>
    (\<exists>k v ns w. sm_find k (fsProviders f) = Some v \<and>
       release_nodes I fh ns (0, v) = (res, w) \<and> f' = set_provider k w f)"
  using assms
  by (auto simp: fuse_release_def andthen_Inr_iff Let_def case_prod_beta prod_eq_iff
      dest!: findProvider_found split: if_splits option.splits) metis+

lemma callbacks_keep:
  "openCallback P I path f = Inr (res, h, f') \<Longrightarrow> providers_only f f'"
  "readCallback P I ctx path buf n offset fh f = Inr (res, buf', f') \<Longrightarrow> providers_only f f'"
  "writeFileCallback P I path buf offset f = Inr (res, f') \<Longrightarrow> providers_only f f'"
  "fuse_release P I path fh f = Inr (res, f') \<Longrightarrow> providers_only f f'"
proof -
  note keep = set_provider_same_name providers_only_refl providers_only_debug
    providers_only_trans [OF _ providers_only_counter] providers_only_trans [OF _ providers_only_eof]
  show "openCallback P I path f = Inr (res, h, f') \<Longrightarrow> providers_only f f'"
    by (drule open_effect) (auto intro!: keep dest: vfs_keep_name split: if_splits)
  show "readCallback P I ctx path buf n offset fh f = Inr (res, buf', f') \<Longrightarrow> providers_only f f'"
    by (drule read_effect) (auto intro!: keep dest: read_nodes_keep)
  show "writeFileCallback P I path buf offset f = Inr (res, f') \<Longrightarrow> providers_only f f'"
    by (drule write_effect) (auto intro!: keep dest: vfs_keep_name)
  show "fuse_release P I path fh f = Inr (res, f') \<Longrightarrow> providers_only f f'"
    by (drule release_effect) (auto intro!: keep dest: release_nodes_keep)
qed

end
