(* ===== verification/Fuse_Polls.thy ===== *)
theory Fuse_Polls
  imports Fuse_Session
begin

text \<open>
  The accounting of poll handles and of file handles along the runs of \<open>Fuse_Session\<close>: a
  handle that is kept is pending until it is destroyed, a destroyed handle is not touched
  again, and file handles are the values of the counter in order.
\<close>

section \<open>The contents of a map of maps\<close>

definition sm_sum :: "('v \<Rightarrow> 'a multiset) \<Rightarrow> ('k, 'v) std_map \<Rightarrow> 'a multiset" where
  "sm_sum g m = sum_mset (image_mset (\<lambda>e. g (snd e)) (mset m))"

lemma sm_sum_erase:
  "sm_ok m \<Longrightarrow> sm_sum g m = sm_sum g (sm_erase k m) + (case sm_find k m of None \<Rightarrow> {#} | Some v \<Rightarrow> g v)"
proof (induction m)
  case Nil
  then show ?case by (simp add: sm_sum_def sm_erase_def sm_find_def)
next
  case (Cons e m)
  then have IH: "sm_sum g m = sm_sum g (sm_erase k m) + (case sm_find k m of None \<Rightarrow> {#} | Some v \<Rightarrow> g v)"
    and new: "fst e \<notin> fst ` set m" by (auto simp: sm_ok_def sm_keys_def)
  have e: "fst e = k \<Longrightarrow> sm_erase k m = m" using new
    by (auto simp: sm_erase_def filter_id_conv image_iff)
  show ?case
    using IH e new
    by (cases e; cases "fst e = k")
      (auto simp: sm_sum_def sm_find_def sm_erase_def map_of_eq_None_iff split: option.splits)
qed

lemma sm_sum_assign:
  assumes "sm_ok m"
  shows "sm_sum g (sm_assign k v m) + (case sm_find k m of None \<Rightarrow> {#} | Some w \<Rightarrow> g w) = g v + sm_sum g m"
  using sm_sum_erase [OF assms, of g k] by (simp add: sm_sum_def sm_assign_def)

section \<open>Pending and destroyed handles\<close>

abbreviation client_handles :: "(string, poll_handle) std_map \<Rightarrow> poll_handle multiset" where
  "client_handles \<equiv> sm_sum (\<lambda>h. {#h#})"

definition pending :: "'p fuse_state \<Rightarrow> poll_handle multiset" where
  "pending f = sm_sum client_handles (mPollHandles f)"

fun destroyed :: "poll_effect list \<Rightarrow> poll_handle list" where
  "destroyed [] = []"
| "destroyed (DestroyHandle h # es) = h # destroyed es"
| "destroyed (NotifyPoll h # es) = destroyed es"

fun effect_handle :: "poll_effect \<Rightarrow> poll_handle" where
  "effect_handle (DestroyHandle h) = h"
| "effect_handle (NotifyPoll h) = h"

text \<open>No handle is used after it has been destroyed.\<close>

fun effects_safe :: "poll_effect list \<Rightarrow> bool" where
  "effects_safe [] \<longleftrightarrow> True"
| "effects_safe (DestroyHandle h # es) \<longleftrightarrow> h \<notin> effect_handle ` set es \<and> effects_safe es"
| "effects_safe (NotifyPoll h # es) \<longleftrightarrow> effects_safe es"

lemma destroyed_append: "destroyed (xs @ ys) = destroyed xs @ destroyed ys"
  by (induction xs rule: destroyed.induct) auto

lemma effects_safe_append:
  "effects_safe (xs @ ys) \<longleftrightarrow>
     effects_safe xs \<and> effects_safe ys \<and> set (destroyed xs) \<inter> effect_handle ` set ys = {}"
  by (induction xs rule: effects_safe.induct) auto

definition notify_effects :: "poll_handle list \<Rightarrow> poll_effect list" where
  "notify_effects hs = concat (map (\<lambda>h. [NotifyPoll h, DestroyHandle h]) hs)"

lemma notify_effects:
  shows destroyed_notify: "destroyed (notify_effects hs) = hs"
    and "effect_handle ` set (notify_effects hs) = set hs"
    and safe_notify: "effects_safe (notify_effects hs) \<longleftrightarrow> distinct hs"
proof -
  show "destroyed (notify_effects hs) = hs" by (induction hs) (simp_all add: notify_effects_def)
  show *: "effect_handle ` set (notify_effects hs) = set hs" for hs
    by (induction hs) (simp_all add: notify_effects_def)
  show "effects_safe (notify_effects hs) \<longleftrightarrow> distinct hs"
    using * by (induction hs) (auto simp: notify_effects_def)
qed

lemma fold_notify_client:
  "fold notify_client ctxMap f =
     f\<lparr>mEofReached := fold (\<lambda>e. sm_assign (fst e) False) ctxMap (mEofReached f),
       poll_effects := poll_effects f @ notify_effects (map snd ctxMap)\<rparr>"
  by (induction ctxMap arbitrary: f) (simp_all add: notify_client_def notify_effects_def)

lemma client_handles_mset: "client_handles m = mset (map snd m)"
  by (induction m) (simp_all add: sm_sum_def)

text \<open>No element more than once.\<close>

definition once :: "'a multiset \<Rightarrow> bool" where
  "once M \<longleftrightarrow> (\<forall>x. count M x \<le> 1)"

lemma once_sub: "A \<subseteq># B \<Longrightarrow> once B \<Longrightarrow> once A"
  unfolding once_def by (meson le_trans mset_subset_eq_count)

lemma once_mset: "once (mset xs) \<longleftrightarrow> distinct xs"
proof
  show "once (mset xs) \<Longrightarrow> distinct xs"
    by (auto simp: distinct_count_atmost_1 once_def) (metis One_nat_def count_mset_0_iff le_Suc_eq le_zero_eq)
  show "distinct xs \<Longrightarrow> once (mset xs)" by (simp add: distinct_count_atmost_1 once_def)
qed

section \<open>A poll and a notification\<close>

text \<open>What is pending and what has been destroyed, together.\<close>

definition owned :: "'p fuse_state \<Rightarrow> poll_handle multiset" where
  "owned f = pending f + mset (destroyed (poll_effects f))"

lemma register_owned:
  assumes "polls_ok (mPollHandles f)" and "registerPoll (Some c) n p (Some h) r f = (r', f')"
  shows "owned f' = {#h#} + owned f" and "polls_ok (mPollHandles f')"
    and "\<exists>es. poll_effects f' = poll_effects f @ es \<and> effects_safe es \<and>
           (\<forall>e \<in> set es. effect_handle e \<in># pending f)"
proof -
  let ?i = "getCbId p n" and ?id = "fuseContextToId c"
  define ctxMap where "ctxMap = (case sm_find ?i (mPollHandles f) of None \<Rightarrow> [] | Some m \<Rightarrow> m)"
  define ds where "ds = (case sm_find ?id ctxMap of None \<Rightarrow> [] | Some old \<Rightarrow> [DestroyHandle old])"
  have f': "mPollHandles f' = sm_assign ?i (sm_assign ?id h ctxMap) (mPollHandles f)"
    "poll_effects f' = poll_effects f @ ds"
    using assms(2) by (auto simp: registerPoll_def Let_def ctxMap_def ds_def)
  have outer: "sm_ok (mPollHandles f)" and inner: "sm_ok ctxMap"
    using assms(1) by (cases "sm_find ?i (mPollHandles f)"; simp add: polls_ok_def ctxMap_def sm_ok_empty del: split_paired_All)+
  have ctx: "(case sm_find ?i (mPollHandles f) of None \<Rightarrow> {#} | Some m \<Rightarrow> client_handles m) = client_handles ctxMap"
    by (simp add: ctxMap_def sm_sum_def split: option.splits)
  have old: "mset (destroyed ds) = (case sm_find ?id ctxMap of None \<Rightarrow> {#} | Some old \<Rightarrow> {#old#})"
    by (simp add: ds_def split: option.splits)
  have "pending f' + client_handles ctxMap = client_handles (sm_assign ?id h ctxMap) + pending f"
    using sm_sum_assign [OF outer, of client_handles ?i "sm_assign ?id h ctxMap"]
    unfolding pending_def f' ctx .
  moreover have "client_handles (sm_assign ?id h ctxMap) + mset (destroyed ds) = {#h#} + client_handles ctxMap"
    using sm_sum_assign [OF inner, of "\<lambda>h. {#h#}" ?id h] unfolding old .
  ultimately have "client_handles ctxMap + (pending f' + mset (destroyed ds)) =
      client_handles ctxMap + ({#h#} + pending f)"
    by (metis (no_types, lifting) add.assoc add.commute)
  then have "pending f' + mset (destroyed ds) = {#h#} + pending f" by (rule add_left_imp_eq)
  then show "owned f' = {#h#} + owned f" by (simp add: owned_def f' destroyed_append ac_simps)
  show "polls_ok (mPollHandles f')"
    using assms(1) inner by (auto simp: polls_ok_def f' sm_ok_assign sm_find_assign)
  have "x \<in># pending f" if "sm_find ?id ctxMap = Some x" for x
  proof -
    have "x \<in># client_handles ctxMap" using that sm_sum_erase [OF inner, of "\<lambda>h. {#h#}" ?id] by simp
    moreover have "client_handles ctxMap \<subseteq># pending f"
      using sm_sum_erase [OF outer, of client_handles ?i] unfolding pending_def ctx by simp
    ultimately show ?thesis by (rule mset_subset_eqD [rotated])
  qed
  then show "\<exists>es. poll_effects f' = poll_effects f @ es \<and> effects_safe es \<and>
      (\<forall>e \<in> set es. effect_handle e \<in># pending f)"
    by (intro exI [of _ ds]) (auto simp: f' ds_def split: option.splits)
qed

lemma notify_owned:
  assumes "polls_ok (mPollHandles f)"
  shows "owned (notifyPoll p n f) = owned f" and "polls_ok (mPollHandles (notifyPoll p n f))"
    and "once (pending f) \<Longrightarrow> \<exists>es. poll_effects (notifyPoll p n f) = poll_effects f @ es \<and> effects_safe es \<and>
           (\<forall>e \<in> set es. effect_handle e \<in># pending f)"
proof -
  let ?f' = "notifyPoll p n f"
  have all: "owned ?f' = owned f \<and> polls_ok (mPollHandles ?f') \<and> (once (pending f) \<longrightarrow>
    (\<exists>es. poll_effects ?f' = poll_effects f @ es \<and> effects_safe es \<and>
       (\<forall>e \<in> set es. effect_handle e \<in># pending f)))"
  proof (cases "sm_find (p, n) (mPollHandles f)")
    case None
    then have "?f' = f" by (simp add: notifyPoll_def)
    with assms(1) show ?thesis by simp
  next
    case (Some ctxMap)
    have outer: "sm_ok (mPollHandles f)" using assms(1) by (simp add: polls_ok_def)
    have f': "mPollHandles ?f' = sm_assign (p, n) [] (mPollHandles f)"
      "poll_effects ?f' = poll_effects f @ notify_effects (map snd ctxMap)"
      by (simp_all add: notifyPoll_def Some fold_notify_client)
    have part: "pending ?f' + client_handles ctxMap = pending f"
      using sm_sum_assign [OF outer, of client_handles "(p, n)" "[]"] Some
      by (simp add: pending_def f' sm_sum_def)
    have "owned ?f' = owned f"
      using part by (simp add: owned_def f' destroyed_append destroyed_notify client_handles_mset ac_simps)
    moreover have "polls_ok (mPollHandles ?f')"
      using assms(1) by (auto simp: polls_ok_def f' sm_ok_assign sm_find_assign sm_ok_empty split: if_splits)
    moreover have "distinct (map snd ctxMap)" "\<forall>h \<in> set (map snd ctxMap). h \<in># pending f"
      if "once (pending f)"
    proof -
      have "client_handles ctxMap \<subseteq># pending f" using part by (metis mset_subset_eq_add_right)
      then show "distinct (map snd ctxMap)" "\<forall>h \<in> set (map snd ctxMap). h \<in># pending f"
        using that once_sub [of "client_handles ctxMap" "pending f"] once_mset [of "map snd ctxMap"]
          mset_subset_eqD [of "client_handles ctxMap" "pending f"]
        by (auto simp: client_handles_mset simp del: mset_map)
    qed
    ultimately show ?thesis
      using f'(2) notify_effects(2) [of "map snd ctxMap"] safe_notify [of "map snd ctxMap"] by blast
  qed
  show "owned ?f' = owned f" and "polls_ok (mPollHandles ?f')"
    and "once (pending f) \<Longrightarrow> \<exists>es. poll_effects ?f' = poll_effects f @ es \<and> effects_safe es \<and>
           (\<forall>e \<in> set es. effect_handle e \<in># pending f)"
    using all by simp_all
qed

section \<open>Along a run\<close>

text \<open>A step moves handles between the two and appends effects on pending handles only.\<close>

definition polls_step :: "poll_handle list \<Rightarrow> 'p fuse_state \<Rightarrow> 'p fuse_state \<Rightarrow> bool" where
  "polls_step hs f f' \<longleftrightarrow>
     fuse_ok f' \<and> owned f' = mset hs + owned f \<and>
     (once (pending f) \<longrightarrow>
        (\<exists>es. poll_effects f' = poll_effects f @ es \<and> effects_safe es \<and>
           (\<forall>e \<in> set es. effect_handle e \<in># pending f)))"

lemma providers_only_step: "providers_only f f' \<Longrightarrow> fuse_ok f \<Longrightarrow> polls_step [] f f'"
  by (simp add: providers_only_def polls_step_def owned_def pending_def)

lemma polls_step_refl: "fuse_ok f \<Longrightarrow> polls_step [] f f"
  by (rule providers_only_step [OF providers_only_refl])

lemma poll_effect:
  assumes "fuse_poll P ctx path ph revents f = Inr (res, revents', f')"
  shows "f' = f \<and> kept_handles P (FsPoll ctx path ph revents) f = [] \<or>
    (\<exists>c h n p. kept_handles P (FsPoll ctx path ph revents) f = [h] \<and>
       registerPoll (Some c) n p (Some h) revents f = (revents', f'))"
proof -
  from assms obtain pr node where pr: "findProvider P path f = Inr pr"
    and node: "findNode P (map_option snd pr) path = Inr node"
    by (auto simp: fuse_poll_def andthen_Inr_iff)
  show ?thesis
  proof (cases "pr = None \<or> node = [] \<or> ctx = None \<or> ph = None")
    case True
    have "pr = None \<Longrightarrow> node = []" using node by (auto simp: findNode_def andthen_Inr_iff)
    with True assms pr node show ?thesis
      by (auto simp: fuse_poll_def kept_handles_def registerPoll_def Let_def split: if_splits option.splits)
  next
    case False
    then obtain k v c h where "pr = Some (k, v)" "ctx = Some c" "ph = Some h" "node \<noteq> []"
      by fastforce
    with assms pr node show ?thesis
      by (auto simp: fuse_poll_def kept_handles_def case_prod_beta prod_eq_iff)
  qed
qed

lemma register_rest:
  "registerPoll ctx n p ph r f = (r', f') \<Longrightarrow>
     fsProviders f' = fsProviders f \<and> mEofReached f' = mEofReached f"
  by (auto simp: registerPoll_def Let_def split: option.splits)

lemma sm_ok_fold_assign:
  "sm_ok (m :: (string, bool) std_map) \<Longrightarrow> sm_ok (fold (\<lambda>e. sm_assign (fst e) False) es m)"
  by (induction es arbitrary: m) (simp_all add: sm_ok_assign)

lemma notify_rest:
  "fsProviders (notifyPoll p n f) = fsProviders f \<and>
     (sm_ok (mEofReached f) \<longrightarrow> sm_ok (mEofReached (notifyPoll p n f)))"
  by (simp add: notifyPoll_def fold_notify_client sm_ok_fold_assign split: option.splits)

lemma fuse_do_step:
  assumes step: "fuse_do P I ev f = Inr (i, f')" and ok: "fuse_ok f"
  shows "polls_step (kept_handles P ev f) f f'"
proof (cases ev)
  case (FsPoll ctx path ph revents)
  with step obtain res revents' where "fuse_poll P ctx path ph revents f = Inr (res, revents', f')"
    by (auto simp: fuse_do_def andthen_Inr_iff)
  from poll_effect [OF this] show ?thesis
  proof (elim disjE exE conjE)
    assume "f' = f" "kept_handles P (FsPoll ctx path ph revents) f = []"
    then show ?thesis using ok FsPoll by (simp add: polls_step_def)
  next
    fix c h n p
    assume h: "kept_handles P (FsPoll ctx path ph revents) f = [h]"
      and r: "registerPoll (Some c) n p (Some h) revents f = (revents', f')"
    have "polls_ok (mPollHandles f)" using ok by (simp add: fuse_ok_def)
    from register_owned [OF this r] register_rest [OF r] ok h show ?thesis
      unfolding FsPoll by (simp add: polls_step_def fuse_ok_def)
  qed
next
  case (FsNotify cb path)
  then have f': "f' = notifyPoll (mId cb) path f" using step by (simp add: fuse_do_def notifyUpdate_def)
  have "polls_ok (mPollHandles f)" using ok by (simp add: fuse_ok_def)
  from notify_owned [OF this, of "mId cb" path] notify_rest [of "mId cb" path f] ok f'
  show ?thesis by (simp add: polls_step_def fuse_ok_def FsNotify kept_handles_def)
qed (use step ok in \<open>auto simp: fuse_do_def kept_handles_def andthen_Inr_iff
      fuse_truncate_def intro!: polls_step_refl providers_only_step [OF _ ok] registration_keeps removal_keeps announcement_keeps dest: callbacks_keep\<close>)

lemma fuse_ok_new: "fuse_ok (fuse_new opts)"
  by (simp add: fuse_ok_def fuse_new_def polls_ok_def sm_ok_empty)

lemma fuse_trace_ok:
  "fuse_trace P I opts issued kept f \<Longrightarrow> fuse_ok f \<and> owned f = mset kept"
proof (induction rule: fuse_trace.induct)
  case trace_start
  then show ?case using fuse_ok_new by (simp add: owned_def pending_def fuse_new_def sm_sum_def)
next
  case (trace_step issued kept f ev i f')
  with fuse_do_step [OF trace_step.hyps(2)] show ?case by (simp add: polls_step_def)
qed

lemma fuse_trace_effects:
  assumes "fuse_trace P I opts issued kept f" and "distinct kept"
  shows "effects_safe (poll_effects f)"
  using assms
proof (induction rule: fuse_trace.induct)
  case trace_start
  then show ?case by (simp add: fuse_new_def)
next
  case (trace_step issued kept f ev i f')
  have safe: "effects_safe (poll_effects f)" using trace_step by simp
  from fuse_trace_ok [OF trace_step.hyps(1)] have ok: "fuse_ok f" and own: "owned f = mset kept" by auto
  have all: "once (owned f)" using own trace_step.prems by (simp add: once_mset)
  then have "once (pending f)" by (rule once_sub [rotated]) (simp add: owned_def)
  with fuse_do_step [OF trace_step.hyps(2) ok] obtain es where
    es: "poll_effects f' = poll_effects f @ es" "effects_safe es" "\<forall>e \<in> set es. effect_handle e \<in># pending f"
    unfolding polls_step_def by blast
  have "h \<notin># pending f" if "h \<in> set (destroyed (poll_effects f))" for h
  proof
    assume "h \<in># pending f"
    with that have "0 < count (pending f) h" "0 < count (mset (destroyed (poll_effects f))) h" by simp_all
    then have "1 < count (owned f) h" unfolding owned_def plus_multiset.rep_eq by linarith
    with all show False by (simp add: once_def leD)
  qed
  with es safe show ?case by (auto simp: effects_safe_append)
qed

section \<open>File handles\<close>

lemma fuse_do_counter:
  assumes "fuse_do P I ev f = Inr (i, f')"
  shows "i = [] \<and> fh_counter_g f' = fh_counter_g f \<or>
         i = [fh_counter_g f] \<and> fh_counter_g f' = fh_counter_g f + 1"
proof (cases ev)
  case (FsOpen path)
  with assms obtain res fh where "openCallback P I path f = Inr (res, fh, f')" "i = (case fh of None \<Rightarrow> [] | Some h \<Rightarrow> [h])"
    by (auto simp: fuse_do_def andthen_Inr_iff)
  with open_effect [OF this(1)] show ?thesis by (auto simp: set_provider_def split: if_splits)
next
  case (FsRead ctx path buf n offset fh)
  with assms obtain res buf' where "readCallback P I ctx path buf n offset fh f = Inr (res, buf', f')" "i = []"
    by (auto simp: fuse_do_def andthen_Inr_iff)
  with read_effect [OF this(1)] show ?thesis by (auto simp: set_provider_def)
next
  case (FsWrite path buf offset)
  with assms obtain res where "writeFileCallback P I path buf offset f = Inr (res, f')" "i = []"
    by (auto simp: fuse_do_def andthen_Inr_iff)
  with write_effect [OF this(1)] show ?thesis by (auto simp: set_provider_def)
next
  case (FsRelease path fh)
  with assms obtain res where "fuse_release P I path fh f = Inr (res, f')" "i = []"
    by (auto simp: fuse_do_def andthen_Inr_iff)
  with release_effect [OF this(1)] show ?thesis by (auto simp: set_provider_def)
next
  case (FsPoll ctx path ph revents)
  with assms obtain res r' where p: "fuse_poll P ctx path ph revents f = Inr (res, r', f')" "i = []"
    by (auto simp: fuse_do_def andthen_Inr_iff)
  have "registerPoll c n q h r f = (r', f') \<Longrightarrow> fh_counter_g f' = fh_counter_g f" for c n q h r r'
    by (auto simp: registerPoll_def Let_def split: option.splits)
  with p poll_effect [OF p(1)] show ?thesis by blast
qed (use assms in \<open>auto simp: fuse_do_def andthen_Inr_iff fuse_truncate_def registerFsProvider_def removeFsProvider_def announceStreams_def
      set_provider_def notifyUpdate_def notifyPoll_def fold_notify_client split: option.splits\<close>)

lemma fuse_trace_handles:
  "fuse_trace P I opts issued kept f \<Longrightarrow>
     issued = map of_nat [0..<length issued] \<and> fh_counter_g f = of_nat (length issued)"
proof (induction rule: fuse_trace.induct)
  case trace_start
  then show ?case by (simp add: fuse_new_def)
next
  case (trace_step issued kept f ev i f')
  from fuse_do_counter [OF trace_step.hyps(2)] trace_step.IH show ?case by (auto simp: add.commute)
qed

lemma distinct_of_nat:
  assumes "n \<le> 2 ^ 64"
  shows "distinct (map (of_nat :: nat \<Rightarrow> u64) [0..<n])"
proof -
  have "inj_on (of_nat :: nat \<Rightarrow> u64) {0..<n}"
  proof (rule inj_onI)
    fix x y assume "x \<in> {0..<n}" "y \<in> {0..<n}" "(of_nat x :: u64) = of_nat y"
    then have "unat (of_nat x :: u64) = unat (of_nat y :: u64)" "x < 2 ^ 64" "y < 2 ^ 64" using assms by auto
    then show "x = y" by (simp add: unat_of_nat take_bit_nat_eq_self)
  qed
  then show ?thesis by (simp add: distinct_map)
qed

end
