(* ===== verification/Fuse_Properties.thy ===== *)
theory Fuse_Properties
  imports Fuse_Polls
begin

text \<open>
  What the file system promises its clients: directories agree with the attributes, file
  and poll handles are managed, polling follows the end of file, the control files read
  back what was written, and a call on a file reaches its plugin. The witnesses use a
  plugin with one file in memory, and paths split at their slashes.
\<close>

section \<open>A small file system\<close>

definition memory_ops :: "u8 list plugin_ops" where
  "memory_ops =
     \<lparr>pi_getId = (\<lambda>x. ''p''), pi_getInterfaceVersion = (\<lambda>x. 4), pi_open = (\<lambda>n x. (0, x)),
      pi_read = (\<lambda>h n buf k off x.
        let bs = take (unat k) (drop (unat off) (pl_state x))
        in (of_nat (length bs), bs @ drop (length bs) buf, x)),
      pi_write = (\<lambda>n buf k off x. (of_nat (length buf), x\<lparr>pl_state := buf\<rparr>)),
      pi_release = (\<lambda>h n x. (0, x)), pi_getSize = (\<lambda>n x. of_nat (length (pl_state x)))\<rparr>"

definition memory_provider :: "u8 list provider" where
  "memory_provider =
     \<lparr>mName = ''p'',
      mCb = Some \<lparr>pl_state = [1, 2, 3], pl_cb = cb_setAvailableStreams [''f''] (plugin_cb_new ''p'')\<rparr>,
      mSubProviders = [], mIsPluginHandler = True\<rparr>"

definition memory_fuse :: "u8 list fuse_state" where
  "memory_fuse = registerFsProvider memory_provider (fuse_new \<lparr>debugLevel = 0, tsDumpEnable = False\<rparr>)"

definition demo_client :: fuse_context where
  "demo_client = \<lparr>ctx_gid = 100, ctx_pid = 4711\<rparr>"

abbreviation slashes :: path_ops where
  "slashes \<equiv> slash_paths (Inl PathPastEnd)"

lemma memory_simps:
  "sm_find ''p'' (fsProviders memory_fuse) = Some memory_provider"
  "sm_keys (fsProviders memory_fuse) = [''p'']"
  "vfs_files memory_provider = [''f'']" "mSubProviders memory_provider = []"
  "getName memory_provider = ''p''"
  "mPollHandles memory_fuse = []" "mEofReached memory_fuse = []" "poll_effects memory_fuse = []"
  "debugLevel (mDebugOptions memory_fuse) = 0"
  by (simp_all add: memory_fuse_def fuse_new_def registerFsProvider_def memory_provider_def getName_def
      sm_insert_def sm_find_def sm_keys_def vfs_files_def getAvailableStreams_def cb_getAvailableStreams_def
      cb_setAvailableStreams_def)

lemma names_ok: "name_ok ''p''" "name_ok ''f''"
  by (simp_all add: name_ok_def)

section \<open>Directories and attributes\<close>

text \<open>
  C10: the directory of a plugin lists exactly the names for which \<open>getattr\<close> finds a file;
  for each of them it reports a regular file with the size the plugin gives, for any other
  name that there is no such entry. The plugin's own entry is a directory.
\<close>

theorem directory_lists_files:
  assumes "boost_path P" and "name_ok a" and "sm_find a (fsProviders f) = Some v"
  shows "getAttrCallback P I (top_path a) f = Inr (0, dir_stat) \<and>
    (\<exists>names. readDirCallback P (top_path a) f = Inr (0, [''.'', ''..''] @ names) \<and>
      (\<forall>b. name_ok b \<longrightarrow> getAttrCallback P I (file_path a b) f =
         Inr (if b \<in> set names then (0, file_stat (vfs_getSize I b v)) else (- ENOENT, stat_zero))))"
proof -
  let ?names = "vfs_files v @ replicate (length (mSubProviders v)) []"
  have "readDirCallback P (top_path a) f = Inr (0, [''.'', ''..''] @ ?names)"
    using boost_path.readDir_directory [OF assms(1,2), of f] assms(3) by simp
  moreover have "b \<in> set ?names \<longleftrightarrow> b \<in> set (vfs_files v)" if "name_ok b" for b
    using that by (auto simp: name_ok_def)
  moreover note boost_path.getAttr_file [OF assms(1,2) _ assms(3)]
    boost_path.getAttr_directory [OF assms(1,2), of f I] assms(3)
  ultimately show ?thesis by fastforce
qed

theorem directory_lists_files_witness:
  "getAttrCallback slashes memory_ops ''/p'' memory_fuse = Inr (0, dir_stat)"
  using directory_lists_files [OF sp.boost_path_axioms names_ok(1) memory_simps(1), of _ memory_ops] by simp

text \<open>
  Every name that the root directory lists, besides itself and its parent, is found by
  \<open>getattr\<close>. For the root itself, \<open>getattr\<close> reads the element behind the last one of its
  path first, and reports a directory when that has no consequence.
\<close>

theorem root_lists_entries:
  assumes "boost_path P" and "\<forall>k \<in> set (sm_keys (fsProviders f)). name_ok k"
  shows "getAttrCallback P I ROOT_PATH f = andthen (fs_past_end P) (\<lambda>_. Inr (0, dir_stat)) \<and>
    (\<exists>names. readDirCallback P ROOT_PATH f = Inr (0, [''.'', ''..''] @ names) \<and>
      (\<forall>n \<in> set names. \<exists>st. getAttrCallback P I (top_path n) f = Inr (0, st)))"
proof -
  have entry: "\<exists>st. getAttrCallback P I (top_path n) f = Inr (0, st)"
    if "n \<in> set (sm_keys (fsProviders f) @ [TS_DUMP_FILE_NAME, DEBUG_FILE_NAME])" for n
  proof (cases "sm_find n (fsProviders f)")
    case None
    then have "n \<notin> set (sm_keys (fsProviders f))" by (simp add: sm_keys_find)
    with that have "n = DEBUG_FILE_NAME \<or> n = TS_DUMP_FILE_NAME" by auto
    from boost_path.getAttr_control [OF assms(1) this None, of I] show ?thesis by blast
  next
    case (Some v)
    then have "n \<in> set (sm_keys (fsProviders f))" by (simp add: sm_keys_find)
    with assms(2) have "name_ok n" by blast
    from boost_path.getAttr_directory [OF assms(1) this, of f I] Some show ?thesis by auto
  qed
  show ?thesis
    using boost_path.getAttr_root [OF assms(1)] boost_path.readDir_root [OF assms(1), of f] entry
    by blast
qed

theorem root_lists_entries_witness:
  "getAttrCallback slashes memory_ops ROOT_PATH memory_fuse = Inl PathPastEnd"
proof -
  have "\<forall>k \<in> set (sm_keys (fsProviders memory_fuse)). name_ok k" by (simp add: memory_simps names_ok)
  from root_lists_entries [OF sp.boost_path_axioms this, of _ memory_ops] show ?thesis
    by (simp add: slash_paths_def)
qed

section \<open>Handles\<close>

text \<open>
  No file handle is handed out twice, however opens and other calls are mixed, for as
  long as the 64-bit counter has not come round.
\<close>

theorem file_handles_fresh:
  assumes "fuse_trace P I opts issued kept f" and "length issued \<le> 2 ^ 64"
  shows "distinct issued"
  using distinct_of_nat [OF assms(2)] fuse_trace_handles [OF assms(1)] by simp

lemma memory_do:
  "fuse_do slashes memory_ops (FsRegister memory_provider) (fuse_new \<lparr>debugLevel = 0, tsDumpEnable = False\<rparr>) =
     Inr ([], memory_fuse)"
  by (simp add: fuse_do_def memory_fuse_def)

lemma memory_trace:
  "fuse_trace slashes memory_ops \<lparr>debugLevel = 0, tsDumpEnable = False\<rparr> [] [] memory_fuse"
  using trace_step [OF trace_start memory_do] by (simp add: kept_handles_def)

lemma memory_node: "findNode slashes (Some memory_provider) ''/p/f'' = Inr ''f''"
  using sp.findNode_file [OF names_ok, of _ "Some memory_provider"] by (simp add: memory_simps)

lemma memory_poll_trace:
  "fuse_trace slashes memory_ops \<lparr>debugLevel = 0, tsDumpEnable = False\<rparr> [] [5]
     (snd (registerPoll (Some c) ''f'' ''p'' (Some 5) 0 memory_fuse))"
proof -
  have do: "fuse_do slashes memory_ops (FsPoll (Some c) ''/p/f'' (Some 5) 0) memory_fuse =
      Inr ([], snd (registerPoll (Some c) ''f'' ''p'' (Some 5) 0 memory_fuse))"
    using sp.fuse_poll_file [OF names_ok memory_simps(1)]
    by (simp add: fuse_do_def memory_simps case_prod_beta)
  have kept: "kept_handles slashes (FsPoll (Some c) ''/p/f'' (Some 5) 0) memory_fuse = [5]"
    using sp.findProvider_file [OF names_ok, of _ memory_fuse]
    by (simp add: kept_handles_def memory_simps memory_node)
  from trace_step [OF memory_trace do] show ?thesis unfolding kept by simp
qed

lemma memory_open:
  "vfs_open memory_ops n memory_provider = (0, memory_provider)"
  by (simp add: vfs_open_def memory_ops_def memory_provider_def)

lemma memory_open_do:
  "fuse_do slashes memory_ops (FsOpen ''/p/f'') (memory_fuse\<lparr>fh_counter_g := n\<rparr>) =
     Inr ([n], memory_fuse\<lparr>fh_counter_g := n + 1\<rparr>)"
proof -
  have "sm_find ''p'' (fsProviders (memory_fuse\<lparr>fh_counter_g := n\<rparr>)) = Some memory_provider"
    by (simp add: memory_simps)
  note opened = sp.openCallback_file [OF names_ok this, of "Inl PathPastEnd" memory_ops]
  have "set_provider ''p'' memory_provider (memory_fuse\<lparr>fh_counter_g := m\<rparr>) = memory_fuse\<lparr>fh_counter_g := m\<rparr>" for m
    by (simp add: set_provider_def memory_fuse_def registerFsProvider_def fuse_new_def sm_insert_def
        sm_assign_def sm_erase_def memory_provider_def getName_def)
  with opened show ?thesis by (simp add: fuse_do_def memory_simps memory_open)
qed

lemma memory_open_trace:
  "fuse_trace slashes memory_ops \<lparr>debugLevel = 0, tsDumpEnable = False\<rparr> [0, 1] []
     (memory_fuse\<lparr>fh_counter_g := 2\<rparr>)"
proof -
  have "memory_fuse\<lparr>fh_counter_g := 0\<rparr> = memory_fuse"
    by (simp add: memory_fuse_def registerFsProvider_def fuse_new_def)
  then have one: "fuse_do slashes memory_ops (FsOpen ''/p/f'') memory_fuse =
      Inr ([0], memory_fuse\<lparr>fh_counter_g := 1\<rparr>)" using memory_open_do [of 0] by simp
  have two: "fuse_do slashes memory_ops (FsOpen ''/p/f'') (memory_fuse\<lparr>fh_counter_g := 1\<rparr>) =
      Inr ([1], memory_fuse\<lparr>fh_counter_g := 2\<rparr>)" using memory_open_do [of 1] by simp
  from trace_step [OF trace_step [OF memory_trace one] two] show ?thesis by (simp add: kept_handles_def)
qed

theorem file_handles_fresh_witness:
  "distinct [0 :: u64, 1]"
  by (rule file_handles_fresh [OF memory_open_trace]) simp

text \<open>
  C7: every poll handle that the file system keeps is waiting for a notification or has
  been destroyed, and each only once; as long as the kernel does not reuse a handle, none
  is notified or destroyed after it has been destroyed.
\<close>

theorem poll_handles_owned:
  assumes "fuse_trace P I opts issued kept f"
  shows "mset kept = pending f + mset (destroyed (poll_effects f)) \<and>
         (distinct kept \<longrightarrow> effects_safe (poll_effects f))"
  using fuse_trace_ok [OF assms] fuse_trace_effects [OF assms] by (simp add: owned_def)

theorem poll_handles_owned_witness:
  "{#5#} = pending (snd (registerPoll (Some demo_client) ''f'' ''p'' (Some 5) 0 memory_fuse))"
proof -
  have "poll_effects (snd (registerPoll (Some demo_client) ''f'' ''p'' (Some 5) 0 memory_fuse)) = []"
    by (simp add: registerPoll_def memory_simps)
  with poll_handles_owned [OF memory_poll_trace [of demo_client]] show ?thesis by simp
qed



section \<open>Polling\<close>

lemma fuseContextToId_inject:
  assumes "fuseContextToId c = fuseContextToId d"
  shows "c = d"
proof -
  let ?sep = "CHR ''_''"
  have split: "takeWhile (\<lambda>x. x \<noteq> ?sep) (fuseContextToId e) = dec_digits (unat (ctx_gid e))" for e :: fuse_context
  proof -
    have "\<forall>x \<in> set (dec_digits (unat (ctx_gid e))). x \<noteq> ?sep" using dec_digits_no_sign by blast
    then show ?thesis by (simp add: fuseContextToId_def takeWhile_append)
  qed
  from assms have "dec_digits (unat (ctx_gid c)) = dec_digits (unat (ctx_gid d))" using split by metis
  moreover from this assms have "int_to_string (sint (ctx_pid c)) = int_to_string (sint (ctx_pid d))"
    by (simp add: fuseContextToId_def)
  ultimately have "ctx_gid c = ctx_gid d" "ctx_pid c = ctx_pid d"
    using dec_digits_inject int_to_string_inject unsigned_word_eqI signed_word_eqI by blast+
  then show ?thesis by simp
qed

lemma registerPoll_reports:
  "fst (registerPoll (Some d) n p (Some h) r f) =
     (if sm_find (fuseContextToId d) (mEofReached f) = Some True then r else or r POLLIN)"
  by (auto simp: registerPoll_def Let_def)


lemma memory_same: "set_provider ''p'' memory_provider memory_fuse = memory_fuse"
  by (simp add: set_provider_def memory_fuse_def registerFsProvider_def fuse_new_def sm_insert_def
      sm_assign_def sm_erase_def memory_provider_def getName_def)

lemma memory_read_node:
  "vfs_read memory_ops fh ''f'' [0, 0, 0, 0] 4 0 memory_provider = (3, [1, 2, 3, 0], memory_provider)"
  by (simp add: vfs_read_def memory_ops_def memory_provider_def)

lemma memory_read:
  "readCallback slashes memory_ops (Some c) ''/p/f'' [0, 0, 0, 0] 4 0 fh memory_fuse =
     Inr (3, [1, 2, 3, 0], memory_fuse\<lparr>mEofReached := sm_assign (fuseContextToId c) True []\<rparr>)"
proof -
  have "matching ''f'' memory_provider = [''f'']" by (simp add: matching_distinct memory_simps)
  with sp.readCallback_file [OF names_ok memory_simps(1), of "Inl PathPastEnd" memory_ops "Some c" "[0, 0, 0, 0]" 4 0 fh]
  show ?thesis by (simp add: memory_read_node memory_same memory_simps)
qed


lemma notified_poll_ready:
  assumes "boost_path P" and "name_ok a" and "name_ok b"
    and "sm_find a (fsProviders f) = Some v" and "getName v = a" and "b \<in> set (vfs_files v)"
    and poll: "fuse_poll P (Some d) (file_path a b) (Some h) r f = Inr (0, r', f1)"
    and "mId cb = a"
  shows "(\<exists>es. poll_effects (notifyUpdate cb b f1) = poll_effects f1 @ es \<and> NotifyPoll h \<in> set es) \<and>
    (\<exists>f2. fuse_poll P (Some d) (file_path a b) (Some h') 0 (notifyUpdate cb b f1) = Inr (0, POLLIN, f2))"
proof -
  have reg: "registerPoll (Some d) b a (Some h) r f = (r', f1)"
    using poll boost_path.fuse_poll_file [OF assms(1-4)] assms(5,6) by simp
  obtain ctxMap where m: "sm_find (a, b) (mPollHandles f1) = Some ctxMap"
    "sm_find (fuseContextToId d) ctxMap = Some h"
    using reg by (auto simp: registerPoll_def Let_def getCbId_def sm_find_assign)
  have f2: "notifyUpdate cb b f1 = f1\<lparr>mEofReached := fold (\<lambda>e. sm_assign (fst e) False) ctxMap (mEofReached f1),
      poll_effects := poll_effects f1 @ notify_effects (map snd ctxMap),
      mPollHandles := sm_assign (a, b) [] (mPollHandles f1)\<rparr>"
    using m(1) assms(8) by (simp add: notifyUpdate_def notifyPoll_def fold_notify_client)
  have mem: "(fuseContextToId d, h) \<in> set ctxMap" using m(2) by (simp add: sm_find_def map_of_SomeD)
  have "NotifyPoll h \<in> set (notify_effects hs)" if "h \<in> set hs" for hs
    using that by (auto simp: notify_effects_def)
  then have notified: "NotifyPoll h \<in> set (notify_effects (map snd ctxMap))" using mem by force
  have eof: "sm_find (fuseContextToId d) (fold (\<lambda>e. sm_assign (fst e) False) es m) = Some False"
    if "(fuseContextToId d, h) \<in> set es" for es :: "(string, poll_handle) std_map" and m
    using that
    by (induction es rule: rev_induct) (auto simp: sm_find_assign)
  have rest: "fsProviders f1 = fsProviders f" using register_rest [OF reg] by simp
  obtain x y where xy: "registerPoll (Some d) b a (Some h') 0 (notifyUpdate cb b f1) = (x, y)" by fastforce
  have "x = POLLIN"
    using registerPoll_reports [of d b a h' 0 "notifyUpdate cb b f1"] xy eof [OF mem] by (simp add: f2)
  moreover have "sm_find a (fsProviders (notifyUpdate cb b f1)) = Some v" using assms(4) rest by (simp add: f2)
  ultimately show ?thesis
    using boost_path.fuse_poll_file [OF assms(1-3), of "notifyUpdate cb b f1" v] assms(5,6) xy notified
    by (simp add: f2)
qed



section \<open>The control files\<close>

text \<open>
  C26: a debug level that is written to the control file as text, a line feed or other text
  that does not go on with the number behind it, is the level in force, and is read back as
  its text, whose length is the size that \<open>getattr\<close> reports.
\<close>

theorem debug_level_roundtrip:
  assumes "boost_path P" and "ends_number 16 rest" and "4 \<le> n"
    and "length (intToHex v) \<le> length buf" and "sm_find DEBUG_FILE_NAME (fsProviders f) = None"
  shows "\<exists>r f1. writeFileCallback P I DEBUG_FILE_PATH (bytes_of (intToHex v @ rest)) 0 f = Inr (r, f1) \<and>
    debugLevel (mDebugOptions f1) = v \<and>
    readCallback P I ctx DEBUG_FILE_PATH buf n 0 fh f1 =
      Inr (of_nat (length (intToHex v)), bytes_of (intToHex v) @ drop (length (intToHex v)) buf, f1) \<and>
    getAttrCallback P I DEBUG_FILE_PATH f1 =
      Inr (0, \<lparr>st_mode = reg_mode, st_nlink = 0, st_size = of_nat (length (intToHex v))\<rparr>)"
proof -
  let ?f1 = "f\<lparr>mDebugOptions := (mDebugOptions f)\<lparr>debugLevel := v\<rparr>\<rparr>" and ?t = "intToHex v"
  have "ucast (ucast v :: u64) = v" by (rule bit_word_eqI) (auto simp: bit_simps)
  then have w: "writeFileCallback P I DEBUG_FILE_PATH (bytes_of (?t @ rest)) 0 f =
      Inr (ucast (of_nat (length (bytes_of (?t @ rest))) :: u64), ?f1)"
    by (simp add: boost_path.write_debug [OF assms(1)] stoul16_intToHex [OF assms(2)])
  have "unat (of_nat (length ?t) :: u64) = length ?t"
    using length_intToHex [of v] by (simp add: unat_of_nat take_bit_nat_eq_self)
  then have copy: "copy_text ?t buf = Inr (of_nat (length ?t), bytes_of ?t @ drop (length ?t) buf)"
    using memcpy_at_ok [of "of_nat (length ?t)" "bytes_of ?t" 0 buf] assms(4) by (simp add: copy_text_def)
  have "\<not> n < 4" using assms(3) by simp
  then have "readCallback P I ctx DEBUG_FILE_PATH buf n 0 fh ?f1 =
      Inr (of_nat (length ?t), bytes_of ?t @ drop (length ?t) buf, ?f1)"
    by (simp add: boost_path.read_debug [OF assms(1)] copy)
  moreover have "getAttrCallback P I DEBUG_FILE_PATH ?f1 =
      Inr (0, \<lparr>st_mode = reg_mode, st_nlink = 0, st_size = of_nat (length ?t)\<rparr>)"
    using boost_path.elems_top [OF assms(1) name_ok_control(1)] boost_path.top_at [OF assms(1) name_ok_control(1)]
      assms(5)
    by (simp add: getAttrCallback_def ROOT_PATH_def control_paths name_ok_control stat_zero_def)
  ultimately show ?thesis using w by fastforce
qed

theorem debug_level_roundtrip_witness:
  "\<exists>r f1. writeFileCallback slashes memory_ops DEBUG_FILE_PATH (bytes_of (intToHex 26 @ [CHR 0x0A])) 0 memory_fuse =
       Inr (r, f1) \<and> debugLevel (mDebugOptions f1) = 26"
proof -
  have "ends_number 16 [CHR 0x0A]" by code_simp
  moreover have "sm_find DEBUG_FILE_NAME (fsProviders memory_fuse) = None"
    by (simp add: memory_fuse_def registerFsProvider_def fuse_new_def sm_insert_def sm_find_def
        memory_provider_def getName_def DEBUG_FILE_NAME_def)
  moreover have "length (intToHex 26) \<le> length (replicate 10 0 :: u8 list)"
    using length_intToHex [of 26] by simp
  ultimately show ?thesis
    using debug_level_roundtrip [OF sp.boost_path_axioms, of "[CHR 0x0A]" 4 26 "replicate 10 0" memory_fuse]
    by (metis order_refl)
qed

text \<open>
  C39: a read of the debug level with a size of at least four bytes that is less than the
  length of the text writes behind the end of the caller's buffer.
\<close>

theorem debug_read_overruns:
  assumes "boost_path P" and "4 \<le> unat n" and "length buf = unat n"
    and "unat n < length (intToHex (debugLevel (mDebugOptions f)))"
  shows "readCallback P I ctx DEBUG_FILE_PATH buf n 0 fh f = Inl DestinationOverrun"
proof -
  let ?t = "intToHex (debugLevel (mDebugOptions f))"
  have "unat (of_nat (length ?t) :: u64) = length ?t"
    using length_intToHex [of "debugLevel (mDebugOptions f)"] by (simp add: unat_of_nat take_bit_nat_eq_self)
  then have "copy_text ?t buf = Inl DestinationOverrun"
    using assms(2-4) by (auto simp: copy_text_def memcpy_at_def simp flip: unat_eq_zero)
  moreover have "\<not> n < 4" using assms(2) by (simp add: word_less_nat_alt)
  ultimately show ?thesis by (simp add: boost_path.read_debug [OF assms(1)])
qed

theorem debug_read_overruns_witness:
  "readCallback slashes memory_ops None DEBUG_FILE_PATH [0, 0, 0, 0] 4 0 0
     (memory_fuse\<lparr>mDebugOptions := \<lparr>debugLevel = 0x123, tsDumpEnable = False\<rparr>\<rparr>) = Inl DestinationOverrun"
proof -
  have "length (intToHex 0x123) = 5" by (simp add: intToHex_def hex_digits.simps)
  then show ?thesis by (intro debug_read_overruns [OF sp.boost_path_axioms]) simp_all
qed

section \<open>Calls on the files of a plugin\<close>

text \<open>
  C14: a read or a write of a file that a plugin lists is one call of the plugin's own read
  or write, with the buffer, size and offset of the caller, and its result; the plugin's
  new state is registered in its place and no other plugin changes.
\<close>

theorem file_calls_reach_plugin:
  assumes "boost_path P" and "name_ok a" and "name_ok b" and "sm_find a (fsProviders f) = Some v"
    and "mCb v = Some x" and "b \<in> set (vfs_files v)" and "distinct (vfs_files v)"
    and "pi_read I fh b buf n offset x = (r, buf', x')"
    and "pi_write I b data (of_nat (length data)) offset x = (r2, x'')"
  shows "(\<exists>f1. readCallback P I ctx (file_path a b) buf n offset fh f = Inr (r, buf', f1) \<and>
           (\<forall>k. sm_find k (fsProviders f1) = (if k = a then Some (v\<lparr>mCb := Some x'\<rparr>) else sm_find k (fsProviders f)))) \<and>
         (\<exists>f2. writeFileCallback P I (file_path a b) data offset f = Inr (r2, f2) \<and>
           (\<forall>k. sm_find k (fsProviders f2) = (if k = a then Some (v\<lparr>mCb := Some x''\<rparr>) else sm_find k (fsProviders f))))"
proof -
  have "matching b v = [b]" using assms(3,6,7) by (simp add: matching_distinct name_ok_def)
  moreover have "vfs_read I fh b buf n offset v = (r, buf', v\<lparr>mCb := Some x'\<rparr>)"
    using assms(5,8) by (simp add: vfs_read_def)
  ultimately have rd: "\<exists>f1. readCallback P I ctx (file_path a b) buf n offset fh f = Inr (r, buf', f1) \<and>
      (\<forall>k. sm_find k (fsProviders f1) = (if k = a then Some (v\<lparr>mCb := Some x'\<rparr>) else sm_find k (fsProviders f)))"
    by (cases ctx) (simp_all add: boost_path.readCallback_file [OF assms(1-4)] set_provider_def sm_find_assign)
  have "vfs_write I b data (of_nat (length data)) offset v = (r2, v\<lparr>mCb := Some x''\<rparr>)"
    using assms(5,9) by (simp add: vfs_write_def)
  then have "\<exists>f2. writeFileCallback P I (file_path a b) data offset f = Inr (r2, f2) \<and>
      (\<forall>k. sm_find k (fsProviders f2) = (if k = a then Some (v\<lparr>mCb := Some x''\<rparr>) else sm_find k (fsProviders f)))"
    using assms(6) by (simp add: boost_path.writeFileCallback_file [OF assms(1-4)] set_provider_def sm_find_assign)
  with rd show ?thesis by blast
qed

theorem file_calls_reach_plugin_witness:
  "\<exists>f1. readCallback slashes memory_ops None ''/p/f'' [0, 0] 2 1 9 memory_fuse = Inr (2, [2, 3], f1)"
proof -
  obtain x where x: "mCb memory_provider = Some x" "pl_state x = [1, 2, 3]"
    by (simp add: memory_provider_def)
  have "pi_read memory_ops 9 ''f'' [0, 0] 2 1 x = (2, [2, 3], x)" using x by (simp add: memory_ops_def)
  from file_calls_reach_plugin [OF sp.boost_path_axioms names_ok memory_simps(1) x(1) _ _ this]
  show ?thesis by (force simp: memory_simps memory_ops_def)
qed

end
