(* ===== verification/Manager_Properties.thy ===== *)
theory Manager_Properties
  imports Plugin_Manager Fuse_Properties
begin

text \<open>
  What \<open>Plugin_Manager\<close> loads, how the loaded plugins and the directories of the file system
  correspond, and what is released when the program ends.
\<close>

section \<open>One library\<close>

text \<open>What a loaded library adds.\<close>

definition adds :: "string \<Rightarrow> string \<Rightarrow> 'p manager \<times> 'p fuse_state \<Rightarrow> 'p manager \<times> 'p fuse_state \<Rightarrow> bool" where
  "adds i p s s' \<longleftrightarrow>
     sm_find i (mPlugins (fst s)) = None \<and>
     (\<exists>st. libraryPath st = p \<and> getName (ps_provider st) = i \<and>
       mPlugins (fst s') = sm_insert i st (mPlugins (fst s)) \<and>
       mHandleArray (fst s') = map_option (\<lambda>hs. hs @ [p]) (mHandleArray (fst s)) \<and>
       mHandleCount (fst s') = mHandleCount (fst s) + 1 \<and>
       fsProviders (snd s') = sm_insert i (ps_provider st) (fsProviders (snd s)))"

definition keeps :: "'p manager \<times> 'p fuse_state \<Rightarrow> 'p manager \<times> 'p fuse_state \<Rightarrow> bool" where
  "keeps s s' \<longleftrightarrow>
     mPlugins (fst s') = mPlugins (fst s) \<and> mHandleArray (fst s') = mHandleArray (fst s) \<and>
     mHandleCount (fst s') = mHandleCount (fst s) \<and> fsProviders (snd s') = fsProviders (snd s)"

lemma adds_note: "adds i p (dl_note e m, f) s' \<longleftrightarrow> adds i p (m, f) s'"
  by (simp add: adds_def dl_note_def)

lemma keeps_note: "keeps (dl_note e m, f) s' \<longleftrightarrow> keeps (m, f) s'" "keeps s (dl_note e m, f) \<longleftrightarrow> keeps s (m, f)"
  by (simp_all add: keeps_def dl_note_def)

lemma keeps_refl: "keeps s s"
  by (simp add: keeps_def)

text \<open>
  The directories of the file system are those of the loaded plugins.
\<close>

definition same_names :: "'p manager \<times> 'p fuse_state \<Rightarrow> bool" where
  "same_names s \<longleftrightarrow>
     sm_ok (mPlugins (fst s)) \<and> sm_ok (fsProviders (snd s)) \<and>
     (\<forall>k. sm_find k (fsProviders (snd s)) = None \<longleftrightarrow> sm_find k (mPlugins (fst s)) = None)"

lemma erase_inserted:
  assumes "sm_find k m = None"
  shows "sm_erase k (sm_insert k v m) = m"
proof -
  have new: "k \<notin> fst ` set m" using assms by (simp add: sm_find_None)
  then have "filter (\<lambda>e. fst e \<noteq> k) (insort_key fst (k, v) m) = m"
    by (induction m) (auto simp: filter_id_conv)
  with assms show ?thesis by (simp add: sm_insert_def sm_erase_def)
qed

lemma load_created_effect:
  assumes x: "pi_getId I x = i" "i \<noteq> []"
    and x': "pi_getId I (x\<lparr>pl_cb := cb_registerCallbackHandler (pl_cb x)\<rparr>) = i"
      "pi_getInterfaceVersion I (x\<lparr>pl_cb := cb_registerCallbackHandler (pl_cb x)\<rparr>) = pi_getInterfaceVersion I x"
    and same: "same_names s" and new: "sm_find i (mPlugins (fst s)) = None"
  shows "\<exists>s'. load_created I p x s = Some s' \<and>
    (if pi_getInterfaceVersion I x = STREAMFS_INTERFACE_VERSION then adds i p s s' else keeps s s')"
proof -
  obtain m f where s: "s = (m, f)" by fastforce
  have "sm_find i (fsProviders f) = None" using same new by (simp add: same_names_def s)
  then show ?thesis
    using new x x'
    by (auto simp: s load_created_def provider_new_def Let_def adds_def keeps_def registerFsProvider_def
        provider_destroy_def removeFsProvider_def getName_def erase_inserted intro!: exI)
qed

lemma load_one_effect:
  assumes names: "true_names I libs" and same: "same_names s"
  shows "\<exists>s'. load_one I libs p s = Some s' \<and>
    (case provides I libs p of
       None \<Rightarrow> keeps s s'
     | Some i \<Rightarrow> if sm_find i (mPlugins (fst s)) = None then adds i p s s' else keeps s s')"
proof -
  obtain m f where s: "s = (m, f)" by fastforce
  let ?lib = "libs p"
  show ?thesis
  proof (cases "sl_opens ?lib")
    case False
    then show ?thesis by (simp add: load_one_def provides_def s keeps_refl)
  next
    case opens: True
    show ?thesis
    proof (cases "\<exists>creator i x. INIT_STREAMFS_PLUGIN ?lib = Some creator \<and>
        GET_STREAMFS_PLUGIN_ID ?lib = Some (Some i) \<and> sm_find i (mPlugins m) = None \<and>
        creator (plugin_cb_new i) = Some x")
      case True
      then obtain creator i x where lib: "INIT_STREAMFS_PLUGIN ?lib = Some creator"
        "GET_STREAMFS_PLUGIN_ID ?lib = Some (Some i)" "sm_find i (mPlugins m) = None"
        "creator (plugin_cb_new i) = Some x" by blast
      have id: "i \<noteq> []" "pi_getId I x = i"
        "pi_getId I (x\<lparr>pl_cb := cb_registerCallbackHandler (pl_cb x)\<rparr>) = i"
        "pi_getInterfaceVersion I (x\<lparr>pl_cb := cb_registerCallbackHandler (pl_cb x)\<rparr>) = pi_getInterfaceVersion I x"
        using names lib unfolding true_names_def Let_def by blast+
      let ?s = "(dl_note (DlOpen p) m, f)"
      have one: "load_one I libs p s = load_created I p x ?s"
        using opens lib by (simp add: load_one_def s dl_note_def Let_def)
      have "same_names ?s" "sm_find i (mPlugins (fst ?s)) = None"
        using same lib(3) by (simp_all add: same_names_def s dl_note_def)
      from load_created_effect [OF id(2,1,3,4) this, of p] obtain s' where
        s': "load_created I p x ?s = Some s'"
        "if pi_getInterfaceVersion I x = STREAMFS_INTERFACE_VERSION then adds i p s s' else keeps s s'"
        unfolding adds_note keeps_note s by blast
      with s' one opens lib s show ?thesis by (auto simp: provides_def split: if_splits)
    next
      case False
      then have "\<exists>s'. load_one I libs p s = Some s' \<and> keeps s s'"
        using opens
        by (auto simp: load_one_def s Let_def keeps_def dl_note_def split: option.splits)
      moreover have "provides I libs p = None \<or>
          (\<exists>i. provides I libs p = Some i \<and> sm_find i (mPlugins m) \<noteq> None)"
        using False opens by (auto simp: provides_def split: option.splits)
      ultimately show ?thesis by (auto simp: s)
    qed
  qed
qed

lemma same_names_step:
  assumes "same_names s" and "adds i p s s' \<or> keeps s s'"
  shows "same_names s'"
  using assms by (auto simp: same_names_def adds_def keeps_def sm_ok_insert sm_find_insert)

section \<open>All libraries\<close>

text \<open>From which library a plugin was loaded, given what had been loaded before.\<close>

definition loaded_from :: "'p manager \<Rightarrow> string \<Rightarrow> string option" where
  "loaded_from m i = map_option libraryPath (getPluginState i m)"

text \<open>The handle array holds the libraries of the loaded plugins, each once.\<close>

definition handles_ok :: "'p libs \<Rightarrow> string set \<Rightarrow> 'p manager \<Rightarrow> bool" where
  "handles_ok libs D m \<longleftrightarrow>
     (\<exists>hs. mHandleArray m = Some hs \<and> mHandleCount m = length hs \<and> distinct hs \<and> set hs \<subseteq> D \<and>
       set hs = {p. \<exists>i. loaded_from m i = Some p} \<and>
       (\<forall>h \<in> set hs. \<exists>i. GET_STREAMFS_PLUGIN_ID (libs h) = Some (Some i) \<and> sm_find i (mPlugins m) \<noteq> None))"

lemma provides_id: "provides I libs p = Some i \<Longrightarrow> GET_STREAMFS_PLUGIN_ID (libs p) = Some (Some i)"
  by (auto simp: provides_def split: option.splits if_splits)

lemma loaded_from_adds:
  "adds i p s s' \<Longrightarrow> loaded_from (fst s') j = (if j = i then Some p else loaded_from (fst s) j)"
  by (auto simp: loaded_from_def getPluginState_def adds_def sm_find_insert)

lemma handles_step:
  assumes ok: "handles_ok libs D (fst s)" and p: "p \<notin> D"
    and step: "(\<exists>i. provides I libs p = Some i \<and> adds i p s s') \<or> keeps s s'"
  shows "handles_ok libs (insert p D) (fst s')"
  using step
proof
  assume "keeps s s'"
  then show ?thesis
    using ok by (auto simp: handles_ok_def keeps_def loaded_from_def getPluginState_def)
next
  assume "\<exists>i. provides I libs p = Some i \<and> adds i p s s'"
  then obtain i where i: "provides I libs p = Some i" and a: "adds i p s s'" by blast
  from ok obtain hs where hs: "mHandleArray (fst s) = Some hs" "mHandleCount (fst s) = length hs"
    "distinct hs" "set hs \<subseteq> D" "set hs = {p. \<exists>i. loaded_from (fst s) i = Some p}"
    "\<forall>h \<in> set hs. \<exists>i. GET_STREAMFS_PLUGIN_ID (libs h) = Some (Some i) \<and> sm_find i (mPlugins (fst s)) \<noteq> None"
    unfolding handles_ok_def by blast
  have new: "loaded_from (fst s) i = None" using a by (simp add: adds_def loaded_from_def getPluginState_def)
  have "(\<exists>j. (if j = i then Some p else g j) = Some q) \<longleftrightarrow> q = p \<or> (\<exists>j. g j = Some q)"
    if "g i = None" for g and q :: string
    using that by (metis option.distinct(1) option.inject)
  then have set: "set (hs @ [p]) = {q. \<exists>j. loaded_from (fst s') j = Some q}"
    using hs(5) new unfolding loaded_from_adds [OF a] by simp blast
  have kept: "sm_find j (mPlugins (fst s')) \<noteq> None" if "sm_find j (mPlugins (fst s)) \<noteq> None \<or> j = i" for j
    using a that by (auto simp: adds_def sm_find_insert)
  have ids: "\<forall>h \<in> set (hs @ [p]). \<exists>j. GET_STREAMFS_PLUGIN_ID (libs h) = Some (Some j) \<and>
      sm_find j (mPlugins (fst s')) \<noteq> None"
  proof
    fix h assume "h \<in> set (hs @ [p])"
    then consider "h \<in> set hs" | "h = p" by auto
    then show "\<exists>j. GET_STREAMFS_PLUGIN_ID (libs h) = Some (Some j) \<and> sm_find j (mPlugins (fst s')) \<noteq> None"
    proof cases
      case 1
      with hs(6) kept show ?thesis by blast
    next
      case 2
      with provides_id [OF i] kept show ?thesis by blast
    qed
  qed
  have "mHandleArray (fst s') = Some (hs @ [p])" "mHandleCount (fst s') = length (hs @ [p])"
    using a hs(1,2) by (auto simp: adds_def)
  moreover have "distinct (hs @ [p])" "set (hs @ [p]) \<subseteq> insert p D" using hs(3,4) p by auto
  ultimately show ?thesis unfolding handles_ok_def using set ids by blast
qed

lemma load_all_effect:
  assumes "true_names I libs" and "same_names s" and "handles_ok libs D (fst s)"
    and "distinct ps" and "D \<inter> set ps = {}"
  shows "\<exists>s'. load_all I libs ps s = Some s' \<and> same_names s' \<and> handles_ok libs (D \<union> set ps) (fst s') \<and>
    (\<forall>i. loaded_from (fst s') i =
       (case loaded_from (fst s) i of Some p \<Rightarrow> Some p
        | None \<Rightarrow> find (\<lambda>p. provides I libs p = Some i) ps))"
  using assms(2-)
proof (induction ps arbitrary: s D)
  case Nil
  then show ?case by (simp split: option.splits)
next
  case (Cons p ps)
  from load_one_effect [OF assms(1) Cons.prems(1), of p] obtain s1 where
    one: "load_one I libs p s = Some s1" and
    e: "case provides I libs p of
       None \<Rightarrow> keeps s s1
     | Some i \<Rightarrow> if sm_find i (mPlugins (fst s)) = None then adds i p s s1 else keeps s s1"
    by blast
  have step: "(\<exists>i. provides I libs p = Some i \<and> adds i p s s1) \<or> keeps s s1"
    using e by (cases "provides I libs p") (auto split: if_splits)
  then have same: "same_names s1" using same_names_step [OF Cons.prems(1)] by blast
  have "p \<notin> D" using Cons.prems(4) by simp
  from handles_step [OF Cons.prems(2) this step] have h1: "handles_ok libs (insert p D) (fst s1)" .
  have "distinct ps" "insert p D \<inter> set ps = {}" using Cons.prems(3,4) by auto
  from Cons.IH [OF same h1 this] obtain s' where
    s': "load_all I libs ps s1 = Some s'" "same_names s'" "handles_ok libs (insert p D \<union> set ps) (fst s')" and
    from':    "\<And>i. loaded_from (fst s') i = (case loaded_from (fst s1) i of Some p \<Rightarrow> Some p
        | None \<Rightarrow> find (\<lambda>p. provides I libs p = Some i) ps)" by blast
  have "loaded_from (fst s1) i = (case loaded_from (fst s) i of Some q \<Rightarrow> Some q
      | None \<Rightarrow> if provides I libs p = Some i then Some p else None)" for i
    using e
    by (cases "provides I libs p")
      (auto simp: loaded_from_def getPluginState_def adds_def keeps_def sm_find_insert split: option.splits if_splits)
  then have "\<forall>i. loaded_from (fst s') i = (case loaded_from (fst s) i of Some q \<Rightarrow> Some q
      | None \<Rightarrow> find (\<lambda>p. provides I libs p = Some i) (p # ps))"
    by (simp add: from' split: option.splits)
  moreover have "insert p D \<union> set ps = D \<union> set (p # ps)" by simp
  ultimately show ?case using one s'(1-3) by (intro exI [of _ s']) simp
qed

lemma same_names_keys:
  assumes "same_names s"
  shows "sm_keys (fsProviders (snd s)) = sm_keys (mPlugins (fst s))"
proof (rule sorted_distinct_set_unique)
  show "set (sm_keys (fsProviders (snd s))) = set (sm_keys (mPlugins (fst s)))"
    using assms by (auto simp: same_names_def sm_keys_find)
qed (use assms in \<open>simp_all add: same_names_def sm_ok_def\<close>)

lemma start_names: "same_names (manager_new, fuse_new opts)"
  by (simp add: same_names_def manager_new_def fuse_new_def sm_ok_empty)

section \<open>The libraries found\<close>

lemma add_directory_keys:
  assumes "sm_ok s"
  shows "sm_ok (add_directory dirs dir s)"
    and "set (sm_keys (add_directory dirs dir s)) =
      set (sm_keys s) \<union> {de_path e |e es. dirs dir = Some es \<and> e \<in> set es \<and> de_regular e \<and> de_extension e = ''.so''}"
proof -
  have "sm_ok (fold add_entry es s) \<and> set (sm_keys (fold add_entry es s)) =
      set (sm_keys s) \<union> {de_path e |e. e \<in> set es \<and> de_regular e \<and> de_extension e = ''.so''}" for es
    using assms
    by (induction es arbitrary: s) (auto simp: add_entry_def sm_ok_insert sm.keys_insert)
  with assms show "sm_ok (add_directory dirs dir s)"
    and "set (sm_keys (add_directory dirs dir s)) =
      set (sm_keys s) \<union> {de_path e |e es. dirs dir = Some es \<and> e \<in> set es \<and> de_regular e \<and> de_extension e = ''.so''}"
    by (cases "dirs dir"; simp add: add_directory_def)+
qed

lemma sharedLibs_found:
  "sorted (sharedLibs dirs c) \<and> distinct (sharedLibs dirs c) \<and>
   set (sharedLibs dirs c) = {de_path e |e es dir. dir \<in> set (pluginDirectories c) \<and> dirs dir = Some es \<and>
     e \<in> set es \<and> de_regular e \<and> de_extension e = ''.so''}"
proof -
  have "sm_ok (fold (add_directory dirs) ds s) \<and> set (sm_keys (fold (add_directory dirs) ds s)) =
      set (sm_keys s) \<union> {de_path e |e es dir. dir \<in> set ds \<and> dirs dir = Some es \<and>
        e \<in> set es \<and> de_regular e \<and> de_extension e = ''.so''}"
    if "sm_ok s" for ds s
    using that
    by (induction ds arbitrary: s) (auto simp: add_directory_keys)
  from this [OF sm_ok_empty, of "pluginDirectories c"] show ?thesis
    by (simp add: sharedLibs_def sm_ok_def) (simp add: sm_keys_def)
qed

lemma main_start_loads:
  fixes I :: "'p plugin_ops"
  assumes "true_names I libs"
  shows "\<exists>m f. main_start I libs dirs opts = Some (m, f) \<and> same_names (m, f) \<and>
    handles_ok libs (set (sharedLibs dirs config)) m \<and>
    (\<forall>i. loaded_from m i = find (\<lambda>p. provides I libs p = Some i) (sharedLibs dirs config))"
proof -
  let ?m = "(manager_new :: 'p manager)\<lparr>mPlugins := [], mHandleCount := 0, mHandleArray := Some []\<rparr>"
  let ?f = "fuse_new (main_options opts) :: 'p fuse_state"
  have none: "loaded_from ?m i = None" for i by (simp add: loaded_from_def getPluginState_def)
  have "same_names (?m, ?f)" using start_names [of "main_options opts"]
    by (simp add: same_names_def manager_new_def)
  moreover have "handles_ok libs {} (fst (?m, ?f))" by (simp add: handles_ok_def none)
  ultimately obtain s' where "load_all I libs (sharedLibs dirs config) (?m, ?f) = Some s'" "same_names s'"
    "handles_ok libs ({} \<union> set (sharedLibs dirs config)) (fst s')"
    "\<And>i. loaded_from (fst s') i = (case loaded_from (fst (?m, ?f)) i of Some p \<Rightarrow> Some p
       | None \<Rightarrow> find (\<lambda>p. provides I libs p = Some i) (sharedLibs dirs config))"
    using load_all_effect [OF assms, of "(?m, ?f)" "{}" "sharedLibs dirs config"] sharedLibs_found [of dirs config]
    by blast
  moreover have "fold provider_destroy (map (ps_provider \<circ> snd) (mPlugins (manager_new :: 'p manager))) ?f = ?f"
    by (simp add: manager_new_def)
  ultimately show ?thesis
    by (cases s') (auto simp: main_start_def loadPlugins_def initPlugins_def Let_def none)
qed

section \<open>Properties\<close>

definition memory_lib :: "u8 list shared_lib" where
  "memory_lib =
     \<lparr>sl_opens = True,
      INIT_STREAMFS_PLUGIN = Some (\<lambda>cb. Some \<lparr>pl_state = [1, 2, 3], pl_cb = cb_setAvailableStreams [''f''] cb\<rparr>),
      GET_STREAMFS_PLUGIN_ID = Some (Some ''p''), UNLOAD_STREAMFS_PLUGIN = True\<rparr>"

definition memory_dirs :: directories where
  "memory_dirs dir =
     (if dir = ''.''
      then Some [\<lparr>de_path = ''./b.so'', de_regular = True, de_extension = ''.so''\<rparr>,
                 \<lparr>de_path = ''./a.so'', de_regular = True, de_extension = ''.so''\<rparr>]
      else None)"

definition demo_options :: options where
  "demo_options = \<lparr>opt_debug_level = 0, opt_ts_dump = False\<rparr>"

lemma memory_true_names: "true_names memory_ops (\<lambda>p. memory_lib)"
  by (simp add: true_names_def memory_lib_def memory_ops_def)

lemma memory_provides: "provides memory_ops (\<lambda>p. memory_lib) p = Some ''p''"
  by (simp add: provides_def memory_lib_def memory_ops_def STREAMFS_INTERFACE_VERSION_def)

lemma memory_sharedLibs: "sharedLibs memory_dirs config = [''./a.so'', ''./b.so'']"
  by code_simp

text \<open>
  C11: at the start of the program the libraries with the extension \<open>.so\<close> in the configured
  directories are tried in the order of their paths; the first that provides a plugin of
  the right version for an identifier is the one whose plugin is loaded under it.
\<close>

theorem main_loads_first:
  assumes "true_names I libs"
  shows "\<exists>m f. main_start I libs dirs opts = Some (m, f) \<and>
    (\<forall>i. map_option libraryPath (getPluginState i m) =
       find (\<lambda>p. provides I libs p = Some i) (sharedLibs dirs config)) \<and>
    sorted (sharedLibs dirs config) \<and>
    set (sharedLibs dirs config) = {de_path e |e es dir. dir \<in> set (pluginDirectories config) \<and>
      dirs dir = Some es \<and> e \<in> set es \<and> de_regular e \<and> de_extension e = ''.so''}"
  using main_start_loads [OF assms, of dirs opts] sharedLibs_found [of dirs config]
  unfolding loaded_from_def by blast

theorem main_loads_first_witness:
  "\<exists>m f. main_start memory_ops (\<lambda>p. memory_lib) memory_dirs demo_options = Some (m, f) \<and>
     map_option libraryPath (getPluginState ''p'' m) = Some ''./a.so''"
proof -
  from main_loads_first [OF memory_true_names, of memory_dirs demo_options] obtain m f where
    "main_start memory_ops (\<lambda>p. memory_lib) memory_dirs demo_options = Some (m, f)"
    "\<And>i. map_option libraryPath (getPluginState i m) =
       find (\<lambda>p. provides memory_ops (\<lambda>p. memory_lib) p = Some i) (sharedLibs memory_dirs config)" by blast
  moreover from this(2) [of "''p''"] have "map_option libraryPath (getPluginState ''p'' m) = Some ''./a.so''"
    unfolding memory_provides memory_sharedLibs find.simps by (simp only: simp_thms if_True)
  ultimately show ?thesis by blast
qed

text \<open>
  C15: the root directory of the file system lists the loaded plugins and the two control
  files, and nothing else.
\<close>

theorem root_lists_plugins:
  assumes "boost_path P" and "true_names I libs" and "main_start I libs dirs opts = Some (m, f)"
  shows "readDirCallback P ROOT_PATH f =
    Inr (0, [''.'', ''..''] @ sm_keys (mPlugins m) @ [TS_DUMP_FILE_NAME, DEBUG_FILE_NAME])"
proof -
  have "same_names (m, f)" using main_start_loads [OF assms(2), of dirs opts] assms(3) by auto
  from same_names_keys [OF this] boost_path.readDir_root [OF assms(1), of f] show ?thesis by simp
qed

theorem root_lists_plugins_witness:
  "\<exists>m f. main_start memory_ops (\<lambda>p. memory_lib) memory_dirs demo_options = Some (m, f) \<and>
     readDirCallback slashes ROOT_PATH f =
       Inr (0, [''.'', ''..''] @ sm_keys (mPlugins m) @ [TS_DUMP_FILE_NAME, DEBUG_FILE_NAME])"
  using root_lists_plugins [OF sp.boost_path_axioms memory_true_names]
    main_start_loads [OF memory_true_names, of memory_dirs demo_options] by blast

lemma unload_fold:
  "fold (unload_one libs) hs m = m\<lparr>dl_effects := dl_effects m @
     concat (map (\<lambda>h. if UNLOAD_STREAMFS_PLUGIN (libs h) \<and>
         (\<exists>i. GET_STREAMFS_PLUGIN_ID (libs h) = Some (Some i) \<and> sm_find i (mPlugins m) \<noteq> None)
       then [UnloadCall h, DlClose h] else []) hs)\<rparr>"
  by (induction hs arbitrary: m) (auto simp: unload_one_def dl_note_def split: option.splits)

text \<open>
  C27: a termination signal unloads each library of a loaded plugin that can be unloaded,
  once, and then closes it; a second signal does nothing.
\<close>

theorem signal_unloads_once:
  assumes "true_names I libs" and "main_start I libs dirs opts = Some (m, f)"
    and "\<not> sighandler_locked s" and "\<not> isSigtermTriggered s"
    and "sigterm_handler libs sig_received (s, m) = (s', m')"
  shows "(\<exists>hs. distinct hs \<and> set hs = {p. \<exists>i. map_option libraryPath (getPluginState i m) = Some p} \<and>
      dl_effects m' = dl_effects m @ concat (map (\<lambda>h. if UNLOAD_STREAMFS_PLUGIN (libs h)
        then [UnloadCall h, DlClose h] else []) hs)) \<and>
    sigterm_handler libs sig2 (s', m') = (s', m')"
proof -
  have "handles_ok libs (set (sharedLibs dirs config)) m"
    using main_start_loads [OF assms(1), of dirs opts] assms(2) by auto
  then obtain hs where hs: "mHandleArray m = Some hs" "mHandleCount m = length hs" "distinct hs"
    "set hs = {p. \<exists>i. loaded_from m i = Some p}"
    "\<forall>h \<in> set hs. \<exists>i. GET_STREAMFS_PLUGIN_ID (libs h) = Some (Some i) \<and> sm_find i (mPlugins m) \<noteq> None"
    unfolding handles_ok_def by blast
  have effects: "map (\<lambda>h. if UNLOAD_STREAMFS_PLUGIN (libs h) \<and>
        (\<exists>i. GET_STREAMFS_PLUGIN_ID (libs h) = Some (Some i) \<and> sm_find i (mPlugins m) \<noteq> None)
      then [UnloadCall h, DlClose h] else []) hs =
    map (\<lambda>h. if UNLOAD_STREAMFS_PLUGIN (libs h) then [UnloadCall h, DlClose h] else []) hs"
    using hs(5) by (intro map_cong) auto
  have s': "isSigtermTriggered s'" and m': "m' = unloadPlugins libs m"
    using assms(3-5) by (auto simp: sigterm_handler_def)
  have "dl_effects m' = dl_effects m @ concat (map (\<lambda>h. if UNLOAD_STREAMFS_PLUGIN (libs h)
      then [UnloadCall h, DlClose h] else []) hs)"
    using arg_cong [OF effects, of concat] unfolding m' unloadPlugins_def
    by (simp add: hs(1,2) unload_fold del: map_eq_conv)
  moreover have "sigterm_handler libs sig2 (s', m') = (s', m')" using s' by (simp add: sigterm_handler_def)
  ultimately show ?thesis using hs(3,4) unfolding loaded_from_def by blast
qed

theorem signal_unloads_once_witness:
  "\<exists>m f m'. main_start memory_ops (\<lambda>p. memory_lib) memory_dirs demo_options = Some (m, f) \<and>
     snd (sigterm_handler (\<lambda>p. memory_lib) 15 (\<lparr>sighandler_locked = False, isSigtermTriggered = False,
       fuseMountPoint = None, main_effects = []\<rparr>, m)) = m' \<and>
     dl_effects m' = dl_effects m @ [UnloadCall ''./a.so'', DlClose ''./a.so'']"
proof -
  let ?s = "\<lparr>sighandler_locked = False, isSigtermTriggered = False, fuseMountPoint = None, main_effects = []\<rparr>"
  from main_start_loads [OF memory_true_names, of memory_dirs demo_options] obtain m f where
    m: "main_start memory_ops (\<lambda>p. memory_lib) memory_dirs demo_options = Some (m, f)"
    and from': "\<And>i. loaded_from m i = find (\<lambda>p. Some ''p'' = Some i) [''./a.so'', ''./b.so'']"
    unfolding memory_provides memory_sharedLibs by blast
  have one: "{p. \<exists>i. loaded_from m i = Some p} = {''./a.so''}"
    unfolding from' by (auto split: if_splits)
  obtain s' m' where s': "sigterm_handler (\<lambda>p. memory_lib) 15 (?s, m) = (s', m')" by fastforce
  from signal_unloads_once [OF memory_true_names m _ _ s'] obtain hs where
    hs: "distinct hs" "set hs = {p. \<exists>i. loaded_from m i = Some p}"
    "dl_effects m' = dl_effects m @ concat (map (\<lambda>h. if UNLOAD_STREAMFS_PLUGIN memory_lib
       then [UnloadCall h, DlClose h] else []) hs)"
    unfolding loaded_from_def by force
  have "hs = [''./a.so'']"
  proof (cases hs)
    case (Cons h t)
    with hs(1,2) one show ?thesis by (cases t) auto
  qed (use hs(2) one in simp)
  with hs(3) have "dl_effects m' = dl_effects m @ [UnloadCall ''./a.so'', DlClose ''./a.so'']"
    by (simp add: memory_lib_def)
  with m s' show ?thesis by (intro exI [of _ m] exI [of _ f] exI [of _ m']) simp
qed

text \<open>
  Where the names are not true: a plugin of the wrong version that names itself after one
  that is loaded takes the directory of that one out of the file system, as does a second
  plugin of the same name whose library gives another identifier.
\<close>

lemma false_name_unregisters:
  assumes "pi_getId I x = i" and "i \<noteq> []"
    and "pi_getId I (x\<lparr>pl_cb := cb_registerCallbackHandler (pl_cb x)\<rparr>) = i"
    and "sm_find i (mPlugins m) \<noteq> None"
  shows "\<exists>m' f'. load_created I p x (m, f) = Some (m', f') \<and>
    sm_find i (mPlugins m') \<noteq> None \<and> sm_find i (fsProviders f') = None"
  using assms
  by (auto simp: load_created_def provider_new_def Let_def provider_destroy_def getName_def
      removeFsProvider_def sm_find_erase sm_find_insert)

end
