(* ===== verification/Sample_Mounted.thy ===== *)
theory Sample_Mounted
  imports Sample_Plugin Manager_Properties
begin

text \<open>
  The whole program with the sample plugin as its only library: the entry points of the
  library (sample/SamplePlugin.h), the start, an open, the producer at work, and a read.
\<close>

section \<open>The library\<close>

definition sample_lib :: "('c, 't) sample_plugin shared_lib" where
  "sample_lib =
     \<lparr>sl_opens = True, INIT_STREAMFS_PLUGIN = Some (\<lambda>cb. Some (sample_init cb)),
      GET_STREAMFS_PLUGIN_ID = Some (Some ''sample_plugin''), UNLOAD_STREAMFS_PLUGIN = True\<rparr>"

text \<open>
  The operations of the sample plugin behind the interface of the plugins. A read that is
  still throttled at the end of the schedule has no result, and nothing is said about it.
\<close>

definition runs_sample ::
  "('c, buffer_chunk) circ_ops \<Rightarrow> ('t, u32) circ_ops \<Rightarrow> buffer_chunk \<Rightarrow> schedule \<Rightarrow>
     ('c, 't) sample_plugin plugin_ops \<Rightarrow> bool" where
  "runs_sample C T garbage sched I \<longleftrightarrow>
     (\<forall>x. pi_getId I x = sample_getId) \<and>
     (\<forall>x. pi_getInterfaceVersion I x = STREAMFS_INTERFACE_VERSION) \<and>
     (\<forall>uri x r s. sample_open C T garbage uri (pl_state x) = Inr (r, s) \<longrightarrow>
        pi_open I uri x = (r, x\<lparr>pl_state := s\<rparr>)) \<and>
     (\<forall>h path buf n offset x r buf' s.
        sample_read C T sched h path buf n offset (pl_state x) = Inr (Some r, buf', s) \<longrightarrow>
        pi_read I h path buf n offset x = (r, buf', x\<lparr>pl_state := s\<rparr>)) \<and>
     (\<forall>node buf n offset x. pi_write I node buf n offset x =
        (let (r, s) = sample_write node buf offset (pl_state x) in (r, x\<lparr>pl_state := s\<rparr>))) \<and>
     (\<forall>h path x. pi_release I h path x =
        (let (r, s) = sample_release h path (pl_state x) in (r, x\<lparr>pl_state := s\<rparr>))) \<and>
     (\<forall>path x. pi_getSize I path x = sample_getSize path (pl_state x))"

text \<open>The producer of a mounted stream at work: its buffers go to the pool of the plugin.\<close>

definition mounted_deliver ::
  "('c, buffer_chunk) circ_ops \<Rightarrow> ('t, u32) circ_ops \<Rightarrow> string \<Rightarrow> (int \<times> queued) list \<Rightarrow>
     ('c, 't) sample_plugin fuse_state \<Rightarrow> ('c, 't) sample_plugin fuse_state outcome" where
  "mounted_deliver C T uri cs f =
     (case sm_find sample_getId (fsProviders f) of
        None \<Rightarrow> Inr f
      | Some v \<Rightarrow>
          (case mCb v of
             None \<Rightarrow> Inr f
           | Some x \<Rightarrow>
               andthen (sample_deliver C T uri cs (pl_state x)) (\<lambda>s.
                 Inr (set_provider sample_getId (v\<lparr>mCb := Some (x\<lparr>pl_state := s\<rparr>)\<rparr>) f))))"

section \<open>The start\<close>

definition sample_cb :: plugin_cb where
  "sample_cb = \<lparr>mStreamIds = [''test1.tst'', ''test2.tst'', ''test3.tst''], mId = ''sample_plugin'', mCBHandler = True\<rparr>"

definition sample_directory :: "('c, 't) sample_plugin \<Rightarrow> ('c, 't) sample_plugin provider" where
  "sample_directory s =
     \<lparr>mName = ''sample_plugin'', mCb = Some \<lparr>pl_state = s, pl_cb = sample_cb\<rparr>, mSubProviders = [],
      mIsPluginHandler = True\<rparr>"

lemma sample_files: "vfs_files (sample_directory s) = [''test1.tst'', ''test2.tst'', ''test3.tst'']"
  by (simp add: vfs_files_def sample_directory_def getAvailableStreams_def cb_getAvailableStreams_def sample_cb_def)

lemma sample_streams_ok: "uri \<in> set (vfs_files (sample_directory s)) \<Longrightarrow> name_ok uri"
  unfolding sample_files by (auto simp: name_ok_def)

lemma name_ok_sample: "name_ok ''sample_plugin''"
  by (simp add: name_ok_def)

lemma sample_start:
  assumes "runs_sample C T garbage sched I" and "sharedLibs dirs config = [so]" and "libs so = sample_lib"
  shows "\<exists>m f. main_start I libs dirs opts = Some (m, f) \<and> fh_counter_g f = 0 \<and> mEofReached f = [] \<and>
    sm_find ''sample_plugin'' (fsProviders f) = Some (sample_directory sample_new)"
  using assms
  by (simp add: main_start_def loadPlugins_def manager_new_def Let_def load_one_def sample_lib_def
      dl_note_def load_created_def provider_new_def runs_sample_def sample_getId_def registerFsProvider_def
      initPlugins_def fuse_new_def sm_find_insert getName_def sample_directory_def sample_init_def
      cb_registerCallbackHandler_def cb_setAvailableStreams_def plugin_cb_new_def sample_cb_def sample_new_def)

lemma sample_opened:
  assumes "runs_sample C T garbage sched I" and "sample_open C T garbage uri s = Inr (r, s')"
  shows "vfs_open I uri (sample_directory s) = (r, sample_directory s')"
  using assms by (simp add: vfs_open_def runs_sample_def sample_directory_def)

lemma sample_served:
  assumes "runs_sample C T garbage sched I"
    and "sample_read C T sched h uri buf n offset s = Inr (Some r, buf', s')"
  shows "vfs_read I h uri buf n offset (sample_directory s) = (r, buf', sample_directory s')"
  using assms by (simp add: vfs_read_def runs_sample_def sample_directory_def)

lemma sample_written:
  "runs_sample C T garbage sched I \<Longrightarrow> vfs_write I uri buf n offset (sample_directory s) = (0, sample_directory s)"
  by (simp add: vfs_write_def runs_sample_def sample_directory_def sample_write_def)

lemma sample_released:
  "runs_sample C T garbage sched I \<Longrightarrow> vfs_release I h uri (sample_directory s) = (0, sample_directory s)"
  by (simp add: vfs_release_def runs_sample_def sample_directory_def sample_release_def)

lemma sample_sized: "runs_sample C T garbage sched I \<Longrightarrow> vfs_getSize I uri (sample_directory s) = 0"
  by (simp add: vfs_getSize_def runs_sample_def sample_directory_def sample_getSize_def)

section \<open>From the start to the bytes\<close>

text \<open>
  With the sample plugin installed, the program starts; a client opens one of the
  streams by its path; the producer fills it with full chunks; and a read of the file at an
  offset that has been filled returns exactly the bytes of the stream from there on.
\<close>

theorem mounted_stream_read:
  fixes C :: "('c, buffer_chunk) circ_ops" and T :: "('t, u32) circ_ops"
  assumes "boost_path P" and "boost_rings C T" and "runs_sample C T garbage undisturbed I"
    and "sharedLibs dirs config = [so]" and "libs so = sample_lib"
    and "uri \<in> {''test1.tst'', ''test2.tst'', ''test3.tst''}"
    and "list_all (full_chunk \<circ> snd) cs" and "length cs \<le> 102400"
    and "0 < n" and "unat ob + unat n \<le> length cs * 9024"
    and "unat n \<le> length buf" and "length buf < 2 ^ 31"
  shows "\<exists>m f f1 f2 f3. main_start I libs dirs opts = Some (m, f) \<and>
    openCallback P I (file_path ''sample_plugin'' uri) f = Inr (0, Some 0, f1) \<and>
    mounted_deliver C T uri cs f1 = Inr f2 \<and>
    readCallback P I ctx (file_path ''sample_plugin'' uri) buf n ob fh f2 =
      Inr (ucast n, take (unat n) (drop (unat ob) (stream_bytes (map (q_buffer \<circ> snd) cs))) @
        drop (unat n) buf, f3)"
proof -
  let ?id = "''sample_plugin''"
  obtain m f where start: "main_start I libs dirs opts = Some (m, f)" "fh_counter_g f = 0"
    "sm_find ?id (fsProviders f) = Some (sample_directory sample_new)"
    using sample_start [of C T garbage undisturbed I dirs so libs, OF assms(3-5)] by blast
  have listed: "uri \<in> set (vfs_files (sample_directory s))" for s :: "('c, 't) sample_plugin"
    using assms(6) by (simp add: sample_files)
  note uri = sample_streams_ok [OF listed]
  have new: "mBufferPool (sample_new :: ('c, 't) sample_plugin) uri = None" by (simp add: sample_new_def)
  from sample_stream_read [OF assms(2) new assms(7-12), of garbage fh] obtain s0 s' s'' where
    s: "sample_open C T garbage uri sample_new = Inr (0, s0)" "sample_deliver C T uri cs s0 = Inr s'"
    "sample_read C T undisturbed fh uri buf n ob s' =
       Inr (Some (ucast n), take (unat n) (drop (unat ob) (stream_bytes (map (q_buffer \<circ> snd) cs))) @
         drop (unat n) buf, s'')" by blast
  define f1 where "f1 = (set_provider ?id (sample_directory s0) f)\<lparr>fh_counter_g := 1\<rparr>"
  have opened: "openCallback P I (file_path ?id uri) f = Inr (0, Some 0, f1)"
    using boost_path.openCallback_file [OF assms(1) name_ok_sample uri start(3)]
    by (simp add: listed sample_opened [OF assms(3) s(1)] start(2) f1_def)
  define f2 where "f2 = set_provider ?id (sample_directory s') f1"
  have "sm_find ?id (fsProviders f1) = Some (sample_directory s0)"
    by (simp add: f1_def set_provider_def sm_find_assign)
  then have delivered: "mounted_deliver C T uri cs f1 = Inr f2"
    using s(2) by (simp add: mounted_deliver_def sample_getId_def f2_def sample_directory_def)
  have found: "sm_find ?id (fsProviders f2) = Some (sample_directory s')"
    by (simp add: f2_def set_provider_def sm_find_assign)
  have "matching uri (sample_directory s') = [uri]"
    using uri assms(6) by (intro matching_distinct) (auto simp: sample_files name_ok_def)
  then have "\<exists>f3. readCallback P I ctx (file_path ?id uri) buf n ob fh f2 =
      Inr (ucast n, take (unat n) (drop (unat ob) (stream_bytes (map (q_buffer \<circ> snd) cs))) @
        drop (unat n) buf, f3)"
    using boost_path.readCallback_file [OF assms(1) name_ok_sample uri found]
    by (simp add: sample_served [OF assms(3) s(3)] Let_def split: option.splits)
  with start(1) opened delivered show ?thesis by blast
qed

section \<open>An instance\<close>

definition sample_ops ::
  "('c, buffer_chunk) circ_ops \<Rightarrow> ('t, u32) circ_ops \<Rightarrow> buffer_chunk \<Rightarrow> schedule \<Rightarrow>
     ('c, 't) sample_plugin plugin_ops" where
  "sample_ops C T garbage sched =
     \<lparr>pi_getId = (\<lambda>x. sample_getId), pi_getInterfaceVersion = (\<lambda>x. STREAMFS_INTERFACE_VERSION),
      pi_open = (\<lambda>uri x.
        case sample_open C T garbage uri (pl_state x) of
          Inr (r, s) \<Rightarrow> (r, x\<lparr>pl_state := s\<rparr>) | _ \<Rightarrow> (0, x)),
      pi_read = (\<lambda>h path buf n offset x.
        case sample_read C T sched h path buf n offset (pl_state x) of
          Inr (Some r, buf', s) \<Rightarrow> (r, buf', x\<lparr>pl_state := s\<rparr>) | _ \<Rightarrow> (0, buf, x)),
      pi_write = (\<lambda>node buf n offset x.
        let (r, s) = sample_write node buf offset (pl_state x) in (r, x\<lparr>pl_state := s\<rparr>)),
      pi_release = (\<lambda>h path x. let (r, s) = sample_release h path (pl_state x) in (r, x\<lparr>pl_state := s\<rparr>)),
      pi_getSize = (\<lambda>path x. sample_getSize path (pl_state x))\<rparr>"

lemma sample_ops_runs: "runs_sample C T garbage sched (sample_ops C T garbage sched)"
  by (simp add: runs_sample_def sample_ops_def)

definition sample_dirs :: directories where
  "sample_dirs dir =
     (if dir = ''.'' then Some [\<lparr>de_path = ''./sample.so'', de_regular = True, de_extension = ''.so''\<rparr>] else None)"

lemma sample_dirs_libs: "sharedLibs sample_dirs config = [''./sample.so'']"
  by code_simp

theorem mounted_stream_read_witness:
  "\<exists>m f f1 f2 f3.
     main_start (sample_ops list_ring list_ring (chunk_fill 0) undisturbed) (\<lambda>p. sample_lib) sample_dirs
       demo_options = Some (m, f) \<and>
     openCallback slashes (sample_ops list_ring list_ring (chunk_fill 0) undisturbed)
       ''/sample_plugin/test1.tst'' f = Inr (0, Some 0, f1) \<and>
     mounted_deliver list_ring list_ring ''test1.tst''
       [(0, \<lparr>q_buffer = chunk_fill 7, q_last = False, q_size = BUFFER_CHUNK_SIZE\<rparr>)] f1 = Inr f2 \<and>
     readCallback slashes (sample_ops list_ring list_ring (chunk_fill 0) undisturbed) None
       ''/sample_plugin/test1.tst'' [0, 0, 0] 2 5 0 f2 = Inr (2, [7, 7, 0], f3)"
proof -
  have "uri \<in> {''test1.tst'', ''test2.tst'', ''test3.tst''}" if "uri = ''test1.tst''" for uri :: string
    using that by simp
  from mounted_stream_read [OF sp.boost_path_axioms lbr.boost_rings_axioms sample_ops_runs sample_dirs_libs
      _ this [OF refl], where libs = "\<lambda>p. sample_lib" and n = 2 and ob = 5 and buf = "[0, 0, 0]"
      and cs = "[(0, \<lparr>q_buffer = chunk_fill 7, q_last = False, q_size = BUFFER_CHUNK_SIZE\<rparr>)]"
      and opts = demo_options and ctx = None and fh = 0]
  show ?thesis by (simp add: full_chunk_def replicate_few)
qed

end
