(* ===== verification/Sample_Streaming.thy ===== *)
theory Sample_Streaming
  imports Pool_Streaming Sample_Mounted
begin

text \<open>
  The whole program at work: from its start, a client opens a stream of the sample plugin
  and reads it block by block through the file system, while the producer goes on filling
  it and the throttle is on.
\<close>

section \<open>The events of a mounted stream\<close>

definition sample_events ::
  "('c, buffer_chunk) circ_ops \<Rightarrow> ('t, u32) circ_ops \<Rightarrow> string \<Rightarrow> stream_event list \<Rightarrow>
     ('c, 't) sample_plugin \<Rightarrow> ('c, 't) sample_plugin outcome" where
  "sample_events C T uri es s =
     (case mBufferPool s uri of
        None \<Rightarrow> Inr s
      | Some e \<Rightarrow>
          andthen (stream_events_do C T es (ss_pool e)) (\<lambda>pool.
            Inr (s\<lparr>mBufferPool := (mBufferPool s)(uri \<mapsto> e\<lparr>ss_pool := pool\<rparr>)\<rparr>)))"

definition mounted_events ::
  "('c, buffer_chunk) circ_ops \<Rightarrow> ('t, u32) circ_ops \<Rightarrow> string \<Rightarrow> stream_event list \<Rightarrow>
     ('c, 't) sample_plugin fuse_state \<Rightarrow> ('c, 't) sample_plugin fuse_state outcome" where
  "mounted_events C T uri es f =
     (case sm_find sample_getId (fsProviders f) of
        None \<Rightarrow> Inr f
      | Some v \<Rightarrow>
          (case mCb v of
             None \<Rightarrow> Inr f
           | Some x \<Rightarrow>
               andthen (sample_events C T uri es (pl_state x)) (\<lambda>s.
                 Inr (set_provider sample_getId (v\<lparr>mCb := Some (x\<lparr>pl_state := s\<rparr>)\<rparr>) f))))"

text \<open>
  The client: for each block the events that come before it, then one read of \<open>n\<close> bytes,
  each behind the last. It keeps as many bytes as the call says it has read.
\<close>

fun mounted_session ::
  "('c, buffer_chunk) circ_ops \<Rightarrow> ('t, u32) circ_ops \<Rightarrow> path_ops \<Rightarrow> ('c, 't) sample_plugin plugin_ops \<Rightarrow>
     string \<Rightarrow> u64 \<Rightarrow> fuse_context option \<Rightarrow> u64 \<Rightarrow> stream_event list list \<Rightarrow> u64 \<Rightarrow>
     ('c, 't) sample_plugin fuse_state \<Rightarrow> (u8 list \<times> ('c, 't) sample_plugin fuse_state) outcome" where
  "mounted_session C T P I uri n ctx fh [] ob f = Inr ([], f)"
| "mounted_session C T P I uri n ctx fh (es # ess) ob f =
     andthen (mounted_events C T uri es f) (\<lambda>f1.
     andthen (readCallback P I ctx (file_path ''sample_plugin'' uri) (replicate (unat n) 0) n ob fh f1)
       (\<lambda>(ret, buf, f2).
     andthen (mounted_session C T P I uri n ctx fh ess (ob + n) f2) (\<lambda>(rest, f3).
       Inr (take (nat (sint ret)) buf @ rest, f3))))"

section \<open>A mounted stream at work\<close>

definition mounted_streaming ::
  "('c, buffer_chunk) circ_ops \<Rightarrow> string \<Rightarrow> buffer_chunk list \<Rightarrow> ('c, 't) sample_plugin fuse_state \<Rightarrow> bool" where
  "mounted_streaming C uri stream f \<longleftrightarrow>
     (\<exists>s e. sm_find ''sample_plugin'' (fsProviders f) = Some (sample_directory s) \<and>
        mBufferPool s uri = Some e \<and> streaming C stream (ss_pool e))"

lemma sample_opens_streaming:
  assumes "boost_rings C T" and "mBufferPool s uri = None"
  shows "\<exists>s' e. sample_open C T garbage uri s = Inr (0, s') \<and> mBufferPool s' uri = Some e \<and> streaming C [] (ss_pool e)"
proof -
  have "uri \<notin> dom (mBufferPool s)" using assms(2) by auto
  moreover have "streaming C [] (pool_new C T BUFFER_POOL_SIZE)"
    using boost_rings.streaming_new [OF assms(1)] by (simp add: BUFFER_POOL_SIZE_def)
  ultimately show ?thesis by (simp add: sample_open_def Let_def)
qed

lemma mounted_events_ok:
  assumes "boost_rings C T" and "mounted_streaming C uri stream f"
    and "length stream + length (arrived es) < 2 ^ 64"
  shows "\<exists>f'. mounted_events C T uri es f = Inr f' \<and> mounted_streaming C uri (stream @ arrived es) f'"
proof -
  obtain s e where s: "sm_find ''sample_plugin'' (fsProviders f) = Some (sample_directory s)"
    "mBufferPool s uri = Some e" "streaming C stream (ss_pool e)"
    using assms(2) by (auto simp: mounted_streaming_def)
  from boost_rings.streaming_events [OF assms(1) s(3) assms(3)] obtain q where
    q: "stream_events_do C T es (ss_pool e) = Inr q" "streaming C (stream @ arrived es) q" by blast
  let ?s = "s\<lparr>mBufferPool := (mBufferPool s)(uri \<mapsto> e\<lparr>ss_pool := q\<rparr>)\<rparr>"
  let ?f = "set_provider ''sample_plugin'' (sample_directory ?s) f"
  have "mounted_events C T uri es f = Inr ?f"
    using s(1,2) q(1) by (simp add: mounted_events_def sample_events_def sample_getId_def sample_directory_def)
  moreover have "mounted_streaming C uri (stream @ arrived es) ?f"
    using q(2) by (auto simp: mounted_streaming_def set_provider_def sm_find_assign)
  ultimately show ?thesis by blast
qed

lemma mounted_read_ok:
  assumes "boost_path P" and "boost_rings C T" and "runs_sample C T garbage patient I"
    and uri: "uri \<in> {''test1.tst'', ''test2.tst'', ''test3.tst''}"
    and f: "mounted_streaming C uri stream f"
    and "0 < n" and "unat ob + unat n \<le> length stream * 9024" and "length stream \<le> 102400"
    and "unat n \<le> length buf" and "length buf < 2 ^ 31"
  shows "\<exists>f'. readCallback P I ctx (file_path ''sample_plugin'' uri) buf n ob fh f =
      Inr (ucast n, take (unat n) (drop (unat ob) (stream_bytes stream)) @ drop (unat n) buf, f') \<and>
    mounted_streaming C uri stream f'"
proof -
  obtain s e where s: "sm_find ''sample_plugin'' (fsProviders f) = Some (sample_directory s)"
    "mBufferPool s uri = Some e" "streaming C stream (ss_pool e)"
    using f by (auto simp: mounted_streaming_def)
  have "length stream - unat ob div 9024 \<le> 102400" using assms(8) by simp
  from boost_rings.streaming_read [OF assms(2) s(3) assms(6,7) this assms(9,10)] obtain q where
    q: "readRandomAccess C T patient buf n ob (ss_pool e) =
      Inr (Some n, take (unat n) (drop (unat ob) (stream_bytes stream)) @ drop (unat n) buf, q)"
    "streaming C stream q" by blast
  let ?s = "s\<lparr>read_offset_c := read_offset_c s + 1, mBufferPool := (mBufferPool s)(uri \<mapsto> e\<lparr>ss_pool := q\<rparr>)\<rparr>"
  have "sample_read C T patient fh uri buf n ob s =
      Inr (Some (ucast n), take (unat n) (drop (unat ob) (stream_bytes stream)) @ drop (unat n) buf, ?s)"
    using s(2) q(1) by (simp add: sample_read_def Let_def)
  note served = sample_served [OF assms(3) this]
  have listed: "uri \<in> set (vfs_files (sample_directory s))" using uri by (simp add: sample_files)
  note name = sample_streams_ok [OF listed]
  have "matching uri (sample_directory s) = [uri]"
    using name uri by (intro matching_distinct) (auto simp: sample_files name_ok_def)
  with boost_path.readCallback_file [OF assms(1) name_ok_sample name s(1), of I ctx buf n ob fh] served
  obtain f' where f': "readCallback P I ctx (file_path ''sample_plugin'' uri) buf n ob fh f =
      Inr (ucast n, take (unat n) (drop (unat ob) (stream_bytes stream)) @ drop (unat n) buf, f')"
    "fsProviders f' = sm_assign ''sample_plugin'' (sample_directory ?s) (fsProviders f)"
    by (cases ctx) (auto simp: Let_def set_provider_def)
  have "mounted_streaming C uri stream f'"
    using q(2) by (auto simp: mounted_streaming_def f'(2) sm_find_assign)
  with f'(1) show ?thesis by blast
qed

lemma nat_sint_ucast: "unat (n :: u64) < 2 ^ 31 \<Longrightarrow> nat (sint (ucast n :: c_int)) = unat n"
  using sint_small [of "unat n"] by simp

lemma arrived_append [simp]: "arrived (es @ es') = arrived es @ arrived es'"
  by (induction es rule: arrived.induct) simp_all

lemma block_split:
  assumes "ob + n \<le> length xs"
  shows "take (Suc k * n) (drop ob (xs @ ys)) = take n (drop ob xs) @ take (k * n) (drop (ob + n) (xs @ ys))"
proof -
  have "take n (drop ob (xs @ ys)) = take n (drop ob xs)" using assms by simp
  then show ?thesis
    unfolding mult_Suc take_add drop_drop by (simp only: add.commute)
qed

lemma mounted_session_ok:
  assumes "boost_path P" and "boost_rings C T" and "runs_sample C T garbage patient I"
    and "uri \<in> {''test1.tst'', ''test2.tst'', ''test3.tst''}" and n: "0 < n" "unat n < 2 ^ 31"
    and "mounted_streaming C uri stream f"
    and "length stream + length (arrived (concat ess)) \<le> 102400"
    and "\<And>i. i < length ess \<Longrightarrow>
      unat ob + Suc i * unat n \<le> (length stream + length (arrived (concat (take (Suc i) ess)))) * 9024"
  shows "\<exists>f'. mounted_session C T P I uri n ctx fh ess ob f =
      Inr (take (length ess * unat n) (drop (unat ob) (stream_bytes (stream @ arrived (concat ess)))), f')"
  using assms(7-9)
proof (induction ess arbitrary: ob stream f)
  case (Cons es ess)
  let ?stream = "stream @ arrived es"
  have "length stream + length (arrived es) < 2 ^ 64" using Cons.prems(2) by simp
  from mounted_events_ok [OF assms(2) Cons.prems(1) this] obtain f1 where
    f1: "mounted_events C T uri es f = Inr f1" "mounted_streaming C uri ?stream f1" by blast
  have range: "unat ob + unat n \<le> length ?stream * 9024" and fits: "length ?stream \<le> 102400"
    using Cons.prems(3) [of 0] Cons.prems(2) by simp_all
  from mounted_read_ok [OF assms(1-4) f1(2) n(1) range fits, of "replicate (unat n) 0" ctx fh] n(2) obtain f2 where
    f2: "readCallback P I ctx (file_path ''sample_plugin'' uri) (replicate (unat n) 0) n ob fh f1 =
      Inr (ucast n, take (unat n) (drop (unat ob) (stream_bytes ?stream)), f2)"
    "mounted_streaming C uri ?stream f2" by auto
  have "unat ob + unat n < 2 ^ 64" using range fits by simp
  then have next_ob: "unat (ob + n) = unat ob + unat n" by (rule unat_add_bounded)
  have "unat (ob + n) + Suc i * unat n \<le> (length ?stream + length (arrived (concat (take (Suc i) ess)))) * 9024"
    if "i < length ess" for i
    using Cons.prems(3) [of "Suc i"] that by (simp add: next_ob add.assoc)
  with Cons.IH [OF f2(2), of "ob + n"] Cons.prems(2) obtain f3 where
    f3: "mounted_session C T P I uri n ctx fh ess (ob + n) f2 =
      Inr (take (length ess * unat n) (drop (unat ob + unat n) (stream_bytes (?stream @ arrived (concat ess)))), f3)"
    by (auto simp: next_ob)
  have bytes: "stream_bytes (?stream @ arrived (concat ess)) = stream_bytes ?stream @ stream_bytes (arrived (concat ess))"
    by simp
  have "unat ob + unat n \<le> length (stream_bytes ?stream)" using range by simp
  note split = block_split [OF this, of "length ess" "stream_bytes (arrived (concat ess))", folded bytes]
  have "mounted_session C T P I uri n ctx fh (es # ess) ob f =
      Inr (take (length (es # ess) * unat n) (drop (unat ob) (stream_bytes (?stream @ arrived (concat ess)))), f3)"
    by (simp only: mounted_session.simps f1(1) f2(1) f3 andthen.simps prod.case nat_sint_ucast [OF n(2)]
        take_take min.idem split length_Cons)
  then show ?case by (simp only: concat.simps arrived_append append_assoc) blast
qed simp

section \<open>From the start to the end of the session\<close>

text \<open>
  The whole program with the sample plugin. It starts, a client opens one of the streams
  by its path and reads it in blocks of any size; before each block any number of chunks
  arrive and the throttle thread takes any turns. When the bytes of each block have arrived
  by then and the ring is not overrun, the client gets the stream back, byte for byte,
  although the throttle is on.
\<close>

theorem mounted_session_delivers:
  fixes C :: "('c, buffer_chunk) circ_ops" and T :: "('t, u32) circ_ops"
  assumes "boost_path P" and "boost_rings C T" and "runs_sample C T garbage patient I"
    and "sharedLibs dirs config = [so]" and "libs so = sample_lib"
    and "uri \<in> {''test1.tst'', ''test2.tst'', ''test3.tst''}"
    and "0 < n" and "unat n < 2 ^ 31" and "length (arrived (concat ess)) \<le> 102400"
    and "\<And>i. i < length ess \<Longrightarrow> Suc i * unat n \<le> length (arrived (concat (take (Suc i) ess))) * 9024"
  shows "\<exists>m f f1 f2. main_start I libs dirs opts = Some (m, f) \<and>
    openCallback P I (file_path ''sample_plugin'' uri) f = Inr (0, Some 0, f1) \<and>
    mounted_session C T P I uri n ctx 0 ess 0 f1 =
      Inr (take (length ess * unat n) (stream_bytes (arrived (concat ess))), f2)"
proof -
  let ?id = "''sample_plugin''"
  obtain m f where start: "main_start I libs dirs opts = Some (m, f)" "fh_counter_g f = 0"
    "sm_find ?id (fsProviders f) = Some (sample_directory sample_new)"
    using sample_start [of C T garbage patient I dirs so libs, OF assms(3-5)] by blast
  have listed: "uri \<in> set (vfs_files (sample_directory (sample_new :: ('c, 't) sample_plugin)))"
    using assms(6) by (simp add: sample_files)
  have new: "mBufferPool (sample_new :: ('c, 't) sample_plugin) uri = None" by (simp add: sample_new_def)
  from sample_opens_streaming [OF assms(2) new, of garbage] obtain s e where
    s: "sample_open C T garbage uri sample_new = Inr (0, s)" "mBufferPool s uri = Some e" "streaming C [] (ss_pool e)"
    by blast
  define f1 where "f1 = (set_provider ?id (sample_directory s) f)\<lparr>fh_counter_g := 1\<rparr>"
  have opened: "openCallback P I (file_path ?id uri) f = Inr (0, Some 0, f1)"
    using boost_path.openCallback_file [OF assms(1) name_ok_sample sample_streams_ok [OF listed] start(3)]
    by (simp add: listed sample_opened [OF assms(3) s(1)] start(2) f1_def)
  have "mounted_streaming C uri [] f1"
    using s(2,3) by (auto simp: mounted_streaming_def f1_def set_provider_def sm_find_assign)
  from mounted_session_ok [OF assms(1-3,6-8) this, of ess 0 ctx 0] assms(9,10) obtain f2 where
    "mounted_session C T P I uri n ctx 0 ess 0 f1 =
      Inr (take (length ess * unat n) (stream_bytes (arrived (concat ess))), f2)" by auto
  with start(1) opened show ?thesis by blast
qed

text \<open>Two blocks of three bytes; the second is read after the throttle thread's turns.\<close>

theorem mounted_session_delivers_witness:
  "\<exists>m f f1 f2.
     main_start (sample_ops list_ring list_ring (chunk_fill 0) patient) (\<lambda>p. sample_lib) sample_dirs
       demo_options = Some (m, f) \<and>
     openCallback slashes (sample_ops list_ring list_ring (chunk_fill 0) patient)
       (file_path ''sample_plugin'' ''test1.tst'') f = Inr (0, Some 0, f1) \<and>
     mounted_session list_ring list_ring slashes (sample_ops list_ring list_ring (chunk_fill 0) patient)
       ''test1.tst'' 3 None 0 [[Arrival 5 (chunk_fill 7)], [ThreadTurn True, Arrival 9 (chunk_fill 8), ThreadTurn False]] 0 f1 =
         Inr ([7, 7, 7, 7, 7, 7], f2)"
proof -
  let ?ess = "[[Arrival 5 (chunk_fill 7)], [ThreadTurn True, Arrival 9 (chunk_fill 8), ThreadTurn False]]"
  have avail: "Suc i * unat (3 :: u64) \<le> length (arrived (concat (take (Suc i) ?ess))) * 9024" if "i < length ?ess" for i
    using that by (cases i) auto
  from mounted_session_delivers [OF sp.boost_path_axioms lbr.boost_rings_axioms sample_ops_runs sample_dirs_libs,
      where libs = "\<lambda>p. sample_lib" and uri = "''test1.tst''" and n = 3 and ess = ?ess and opts = demo_options and ctx = None]
  show ?thesis using avail by (simp add: replicate_few)
qed

end
