(* ===== verification/Stream_Files.thy ===== *)
theory Stream_Files
  imports File_Spec Sample_Streaming Fuse_Properties
begin

text \<open>
  The whole program with the sample plugin keeps what \<open>File_Spec\<close> promises its clients: any
  number of them use any of its files, in any order, while chunks arrive and the throttle
  threads run.
\<close>

section \<open>The program\<close>

fun program_step ::
  "('c, buffer_chunk) circ_ops \<Rightarrow> ('t, u32) circ_ops \<Rightarrow> path_ops \<Rightarrow> ('c, 't) sample_plugin plugin_ops \<Rightarrow>
     file_step \<Rightarrow> ('c, 't) sample_plugin fuse_state \<Rightarrow>
     (file_result \<times> ('c, 't) sample_plugin fuse_state) outcome" where
  "program_step C T P I ListFiles f =
     andthen (readDirCallback P (top_path ''sample_plugin'') f) (\<lambda>(res, names). Inr (Names res names, f))"
| "program_step C T P I (StatFile uri) f =
     andthen (getAttrCallback P I (file_path ''sample_plugin'' uri) f) (\<lambda>(res, st). Inr (Attributes res st, f))"
| "program_step C T P I (OpenFile uri) f =
     andthen (openCallback P I (file_path ''sample_plugin'' uri) f) (\<lambda>(res, fh, f'). Inr (Opened res fh, f'))"
| "program_step C T P I (Meanwhile uri es) f =
     andthen (mounted_events C T uri es f) (\<lambda>f'. Inr (Passed, f'))"
| "program_step C T P I (ReadFile ctx uri buf n ob fh) f =
     andthen (readCallback P I ctx (file_path ''sample_plugin'' uri) buf n ob fh f)
       (\<lambda>(res, buf', f'). Inr (Data res buf', f'))"
| "program_step C T P I (WriteFile uri buf ob) f =
     andthen (writeFileCallback P I (file_path ''sample_plugin'' uri) buf ob f) (\<lambda>(res, f'). Inr (Written res, f'))"
| "program_step C T P I (CloseFile uri fh) f =
     andthen (fuse_release P I (file_path ''sample_plugin'' uri) fh f) (\<lambda>(res, f'). Inr (Closed res, f'))"
| "program_step C T P I (PollFile ctx uri ph revents) f =
     andthen (fuse_poll P ctx (file_path ''sample_plugin'' uri) ph revents f)
       (\<lambda>(res, revents', f'). Inr (Ready res revents', f'))"

fun program_steps ::
  "('c, buffer_chunk) circ_ops \<Rightarrow> ('t, u32) circ_ops \<Rightarrow> path_ops \<Rightarrow> ('c, 't) sample_plugin plugin_ops \<Rightarrow>
     file_step list \<Rightarrow> ('c, 't) sample_plugin fuse_state \<Rightarrow>
     (file_result list \<times> ('c, 't) sample_plugin fuse_state) outcome" where
  "program_steps C T P I [] f = Inr ([], f)"
| "program_steps C T P I (s # ss) f =
     andthen (program_step C T P I s f) (\<lambda>(r, f1).
     andthen (program_steps C T P I ss f1) (\<lambda>(rs, f2). Inr (r # rs, f2)))"

section \<open>The simulation\<close>

text \<open>
  The program has handed out the handles below the next one, each stream that has been
  opened has a pool at work that stands for its chunks, and the ends that clients have met are
  noted under the text that the program makes of a client.
\<close>

definition pools_keep ::
  "('c, buffer_chunk) circ_ops \<Rightarrow> file_spec \<Rightarrow> ('c, 't) sample_plugin \<Rightarrow> bool" where
  "pools_keep C a s \<longleftrightarrow>
     (\<forall>uri. rel_option (\<lambda>stream e. streaming C stream (ss_pool e)) (files a uri) (mBufferPool s uri))"

definition keeps_files ::
  "('c, buffer_chunk) circ_ops \<Rightarrow> file_spec \<Rightarrow> ('c, 't) sample_plugin fuse_state \<Rightarrow> bool" where
  "keeps_files C a f \<longleftrightarrow>
     fh_counter_g f = next_handle a \<and> dom (files a) \<subseteq> set stream_names \<and>
     (\<forall>c. sm_find (fuseContextToId c) (mEofReached f) = at_end a c) \<and>
     (\<exists>s. sm_find ''sample_plugin'' (fsProviders f) = Some (sample_directory s) \<and> pools_keep C a s)"

lemma keeps_filesE:
  assumes "keeps_files C a f"
  obtains s where "fh_counter_g f = next_handle a" and "dom (files a) \<subseteq> set stream_names"
    and "\<forall>c. sm_find (fuseContextToId c) (mEofReached f) = at_end a c"
    and "sm_find ''sample_plugin'' (fsProviders f) = Some (sample_directory s)" and "pools_keep C a s"
  using assms unfolding keeps_files_def by blast

lemma keeps_filesD:
  assumes "keeps_files C a f"
  shows "\<exists>s. sm_find ''sample_plugin'' (fsProviders f) = Some (sample_directory s)"
    and "sm_find (fuseContextToId c) (mEofReached f) = at_end a c"
  using assms by (auto simp: keeps_files_def)

text \<open>The state after a callback has stored the plugin.\<close>

lemma keeps_files_set:
  assumes "keeps_files C a f" and "pools_keep C a' s" and "dom (files a') \<subseteq> set stream_names"
    and "fsProviders f' = sm_assign ''sample_plugin'' (sample_directory s) (fsProviders f)"
    and "fh_counter_g f' = next_handle a'" and "\<And>c. sm_find (fuseContextToId c) (mEofReached f') = at_end a' c"
  shows "keeps_files C a' f'"
  using assms by (auto simp: keeps_files_def sm_find_assign)

lemma keeps_files_stored:
  assumes "keeps_files C a f" and "sm_find ''sample_plugin'' (fsProviders f) = Some (sample_directory s)"
  shows "keeps_files C a (set_provider ''sample_plugin'' (sample_directory s) f)"
  using assms by (auto simp: keeps_files_def set_provider_def sm_find_assign)

lemma pools_keepD:
  assumes "pools_keep C a s"
  shows "files a uri = None \<Longrightarrow> mBufferPool s uri = None"
    and "files a uri = Some stream \<Longrightarrow> \<exists>e. mBufferPool s uri = Some e \<and> streaming C stream (ss_pool e)"
  using assms by (auto simp: pools_keep_def option_rel_Some1 dest: spec [of _ uri])

lemma pools_keep_set:
  assumes "pools_keep C a s" and "files a' = (files a)(uri := file)"
    and "mBufferPool s' uri = pool" and "\<And>u. u \<noteq> uri \<Longrightarrow> mBufferPool s' u = mBufferPool s u"
    and "rel_option (\<lambda>stream e. streaming C stream (ss_pool e)) file pool"
  shows "pools_keep C a' s'"
  using assms by (auto simp: pools_keep_def)

lemma pools_keep_same: "pools_keep C a s \<Longrightarrow> files a' = files a \<Longrightarrow> mBufferPool s' = mBufferPool s \<Longrightarrow> pools_keep C a' s'"
  by (simp add: pools_keep_def)

lemma stream_listed: "set (vfs_files (sample_directory s)) = set stream_names"
  by (simp add: sample_files stream_names_def)

lemma stream_matching:
  "name_ok uri \<Longrightarrow> matching uri (sample_directory s) = (if uri \<in> set stream_names then [uri] else [])"
  by (subst node_names_at) (auto simp: name_ok_def sample_files stream_names_def)

text \<open>The libraries that the program runs with, and the sample plugin behind the interface of plugins.\<close>

locale sample_program =
  fixes C :: "('c, buffer_chunk) circ_ops" and T :: "('t, u32) circ_ops"
    and P :: path_ops and I :: "('c, 't) sample_plugin plugin_ops" and garbage :: buffer_chunk
  assumes paths: "boost_path P" and rings: "boost_rings C T" and runs: "runs_sample C T garbage patient I"
begin

lemma list_keeps_files:
  assumes a: "keeps_files C a f"
  shows "program_step C T P I ListFiles f = Inr (fst (spec_step ListFiles a), f)"
proof -
  obtain s where s: "sm_find ''sample_plugin'' (fsProviders f) = Some (sample_directory s)"
    using keeps_filesD(1) [OF a] by blast
  with boost_path.readDir_directory [OF paths name_ok_sample, of f] show ?thesis
    by (simp add: sample_files stream_names_def) (simp add: sample_directory_def)
qed

lemma stat_keeps_files:
  assumes a: "keeps_files C a f" and name: "name_ok uri"
  shows "program_step C T P I (StatFile uri) f = Inr (fst (spec_step (StatFile uri) a), f)"
proof -
  obtain s where s: "sm_find ''sample_plugin'' (fsProviders f) = Some (sample_directory s)"
    using keeps_filesD(1) [OF a] by blast
  from boost_path.getAttr_file [OF paths name_ok_sample name s, of I] show ?thesis
    by (simp add: stream_listed sample_sized [OF runs])
qed

lemma open_keeps_files:
  assumes a: "keeps_files C a f" and name: "name_ok uri"
  shows "\<exists>f'. program_step C T P I (OpenFile uri) f = Inr (fst (spec_step (OpenFile uri) a), f') \<and>
    keeps_files C (snd (spec_step (OpenFile uri) a)) f'"
proof -
  obtain s where s: "fh_counter_g f = next_handle a" "dom (files a) \<subseteq> set stream_names"
    "\<forall>c. sm_find (fuseContextToId c) (mEofReached f) = at_end a c"
    "sm_find ''sample_plugin'' (fsProviders f) = Some (sample_directory s)" and pools: "pools_keep C a s"
    using keeps_filesE [OF a] .
  note call = boost_path.openCallback_file [OF paths name_ok_sample name s(4), of I]
  show ?thesis
  proof (cases "uri \<in> set stream_names")
    case False
    with call a show ?thesis by (simp add: stream_listed)
  next
    case True
    let ?a = "snd (spec_step (OpenFile uri) a)"
    have "\<exists>s'. sample_open C T garbage uri s = Inr (0, s') \<and> pools_keep C ?a s'"
    proof (cases "files a uri")
      case None
      with pools have new: "mBufferPool s uri = None" by (rule pools_keepD)
      from sample_opens_streaming [OF rings this, of garbage] obtain s' e where
        s': "sample_open C T garbage uri s = Inr (0, s')" "mBufferPool s' uri = Some e" "streaming C [] (ss_pool e)"
        by blast
      have "mBufferPool s' u = mBufferPool s u" if "u \<noteq> uri" for u
        using s'(1) new that by (auto simp: sample_open_def Let_def producer_start_def andthen_Inr_iff split: if_splits)
      with s'(1,3) None True show ?thesis by (auto intro!: pools_keep_set [OF pools _ s'(2)])
    next
      case (Some stream)
      then have "uri \<in> dom (mBufferPool s)" using pools_keepD(2) [OF pools] by blast
      then have "sample_open C T garbage uri s = Inr (0, s\<lparr>read_offset_c := 0\<rparr>)"
        by (simp add: sample_open_def Let_def)
      with Some True show ?thesis by (auto simp: fun_upd_idem intro: pools_keep_same [OF pools])
    qed
    then obtain s' where s': "sample_open C T garbage uri s = Inr (0, s')" "pools_keep C ?a s'" by blast
    let ?f = "(set_provider ''sample_plugin'' (sample_directory s') f)\<lparr>fh_counter_g := fh_counter_g f + 1\<rparr>"
    have "openCallback P I (file_path ''sample_plugin'' uri) f = Inr (0, Some (next_handle a), ?f)"
      using call True by (simp add: stream_listed sample_opened [OF runs s'(1)] s(1))
    moreover have "keeps_files C ?a ?f"
      using True s(1-3) by (intro keeps_files_set [OF a s'(2)]) (auto simp: set_provider_def)
    ultimately show ?thesis using True by simp
  qed
qed

lemma meanwhile_keeps_files:
  assumes a: "keeps_files C a f"
    and bound: "\<And>stream. files a uri = Some stream \<Longrightarrow> length stream + length (arrived es) < 2 ^ 64"
  shows "\<exists>f'. program_step C T P I (Meanwhile uri es) f = Inr (fst (spec_step (Meanwhile uri es) a), f') \<and>
    keeps_files C (snd (spec_step (Meanwhile uri es) a)) f'"
proof -
  obtain s where s: "fh_counter_g f = next_handle a" "dom (files a) \<subseteq> set stream_names"
    "\<forall>c. sm_find (fuseContextToId c) (mEofReached f) = at_end a c"
    "sm_find ''sample_plugin'' (fsProviders f) = Some (sample_directory s)" and pools: "pools_keep C a s"
    using keeps_filesE [OF a] .
  let ?a = "snd (spec_step (Meanwhile uri es) a)"
  have "\<exists>s'. sample_events C T uri es s = Inr s' \<and> pools_keep C ?a s'"
  proof (cases "files a uri")
    case None
    with pools have "mBufferPool s uri = None" by (rule pools_keepD)
    with None show ?thesis by (auto simp: sample_events_def fun_upd_idem intro: pools_keep_same [OF pools])
  next
    case (Some stream)
    then obtain e where e: "mBufferPool s uri = Some e" "streaming C stream (ss_pool e)"
      using pools_keepD(2) [OF pools] by blast
    from boost_rings.streaming_events [OF rings e(2) bound [OF Some]] obtain q where
      "stream_events_do C T es (ss_pool e) = Inr q" "streaming C (stream @ arrived es) q" by blast
    with e Some show ?thesis by (auto simp: sample_events_def intro!: pools_keep_set [OF pools])
  qed
  then obtain s' where s': "sample_events C T uri es s = Inr s'" "pools_keep C ?a s'" by blast
  let ?f = "set_provider ''sample_plugin'' (sample_directory s') f"
  have "mounted_events C T uri es f = Inr ?f"
    using s(4) s'(1) by (simp add: mounted_events_def sample_getId_def sample_directory_def)
  moreover have "keeps_files C ?a ?f"
    using s(1-3) by (intro keeps_files_set [OF a s'(2)]) (auto simp: set_provider_def split: if_splits)
  ultimately show ?thesis by simp
qed

text \<open>A read of the plugin, and what it means for the client.\<close>

lemma sample_read_keeps:
  assumes pools: "pools_keep C a s" and n: "0 < n" and room: "unat n \<le> length buf" "length buf < 2 ^ 31"
  shows "\<exists>res buf' s'. sample_read C T patient fh uri buf n ob s = Inr (Some res, buf', s') \<and>
    spec_read (files a uri) buf n ob = Data res buf' \<and>
    (scast res < n \<longleftrightarrow> \<not> spec_has (files a uri) n ob) \<and> pools_keep C a s'"
proof -
  have short: "unat n < 2 ^ 31" using room by simp
  have full: "scast (ucast n :: c_int) = n"
    using scast_small [OF short] by simp
  show ?thesis
  proof (cases "files a uri")
    case None
    with pools have "mBufferPool s uri = None" by (rule pools_keepD)
    with None n show ?thesis
      by (auto simp: sample_read_def spec_read_def spec_has_def Let_def intro: pools_keep_same [OF pools])
  next
    case (Some stream)
    then obtain e where e: "mBufferPool s uri = Some e" "streaming C stream (ss_pool e)"
      using pools_keepD(2) [OF pools] by blast
    show ?thesis
    proof (cases "spec_has (files a uri) n ob")
      case True
      with Some boost_rings.streaming_read [OF rings e(2) n _ _ room, of ob] obtain q where
        "readRandomAccess C T patient buf n ob (ss_pool e) =
          Inr (Some n, take (unat n) (drop (unat ob) (stream_bytes stream)) @ drop (unat n) buf, q)"
        "streaming C stream q" by (auto simp: spec_has_def)
      with True e Some full show ?thesis
        by (auto simp: sample_read_def spec_read_def Let_def intro!: pools_keep_set [OF pools, of _ uri "Some stream"])
    next
      case False
      with Some have "readRandomAccess C T patient buf n ob (ss_pool e) = Inr (Some 0, buf, ss_pool e)"
        by (intro boost_rings.streaming_read_none [OF rings e(2) n short]) (auto simp: spec_has_def)
      with False e Some n show ?thesis
        by (auto simp: sample_read_def spec_read_def Let_def intro!: pools_keep_set [OF pools, of _ uri "Some stream"])
    qed
  qed
qed

lemma read_keeps_files:
  assumes a: "keeps_files C a f" and ok: "step_ok (ReadFile ctx uri buf n ob fh)"
  shows "\<exists>f'. program_step C T P I (ReadFile ctx uri buf n ob fh) f =
      Inr (fst (spec_step (ReadFile ctx uri buf n ob fh) a), f') \<and>
    keeps_files C (snd (spec_step (ReadFile ctx uri buf n ob fh) a)) f'"
proof -
  let ?a = "snd (spec_step (ReadFile ctx uri buf n ob fh) a)"
  obtain s where s: "fh_counter_g f = next_handle a" "dom (files a) \<subseteq> set stream_names"
    "\<forall>c. sm_find (fuseContextToId c) (mEofReached f) = at_end a c"
    "sm_find ''sample_plugin'' (fsProviders f) = Some (sample_directory s)" and pools: "pools_keep C a s"
    using keeps_filesE [OF a] .
  have name: "name_ok uri" and n: "0 < n" and room: "unat n \<le> length buf" "length buf < 2 ^ 31"
    using ok by simp_all
  have files: "files ?a = files a" by (simp split: option.splits)
  have "\<exists>res buf' s'. read_nodes I fh n ob (matching uri (sample_directory s)) (0, buf, sample_directory s) =
      (res, buf', sample_directory s') \<and> spec_read (files a uri) buf n ob = Data res buf' \<and>
      (scast res < n \<longleftrightarrow> \<not> spec_has (files a uri) n ob) \<and> pools_keep C a s'"
  proof (cases "uri \<in> set stream_names")
    case True
    from sample_read_keeps [OF pools n room, of fh uri ob] obtain res buf' s' where
      s': "sample_read C T patient fh uri buf n ob s = Inr (Some res, buf', s')" and
      keep: "spec_read (files a uri) buf n ob = Data res buf'"
        "scast res < n \<longleftrightarrow> \<not> spec_has (files a uri) n ob" "pools_keep C a s'" by blast
    from True have "read_nodes I fh n ob (matching uri (sample_directory s)) (0, buf, sample_directory s) =
        (res, buf', sample_directory s')"
      by (simp add: stream_matching [OF name] sample_served [OF runs s'])
    with keep show ?thesis by blast
  next
    case False
    then have "files a uri = None" using s(2) by auto
    with False n pools show ?thesis
      by (intro exI [of _ 0] exI [of _ buf] exI [of _ s]) (simp add: stream_matching [OF name] spec_read_def spec_has_def)
  qed
  then obtain res buf' s' where
    nodes: "read_nodes I fh n ob (matching uri (sample_directory s)) (0, buf, sample_directory s) =
      (res, buf', sample_directory s')" and
    keep: "spec_read (files a uri) buf n ob = Data res buf'"
      "scast res < n \<longleftrightarrow> \<not> spec_has (files a uri) n ob" "pools_keep C a s'" by blast
  let ?f = "set_provider ''sample_plugin'' (sample_directory s') f"
  define f' where "f' = (case ctx of None \<Rightarrow> ?f
    | Some c \<Rightarrow> ?f\<lparr>mEofReached := sm_assign (fuseContextToId c) (scast res < n) (mEofReached ?f)\<rparr>)"
  have "readCallback P I ctx (file_path ''sample_plugin'' uri) buf n ob fh f = Inr (res, buf', f')"
    unfolding boost_path.readCallback_file [OF paths name_ok_sample name s(4)] nodes f'_def
    by (simp add: Let_def split: option.splits)
  moreover have "keeps_files C ?a f'"
  proof (rule keeps_files_set [OF a])
    show "pools_keep C ?a s'" by (rule pools_keep_same [OF keep(3) files refl])
    show "dom (files ?a) \<subseteq> set stream_names" unfolding files by (rule s(2))
    show "sm_find (fuseContextToId c) (mEofReached f') = at_end ?a c" for c
      using s(3) keep(2) by (auto simp: f'_def set_provider_def sm_find_assign dest: fuseContextToId_inject
          split: option.splits)
  qed (use s(1) in \<open>simp_all add: f'_def set_provider_def split: option.splits\<close>)
  ultimately show ?thesis using keep(1) by simp
qed

lemma write_keeps_files:
  assumes a: "keeps_files C a f" and name: "name_ok uri"
  shows "\<exists>f'. program_step C T P I (WriteFile uri buf ob) f =
      Inr (fst (spec_step (WriteFile uri buf ob) a), f') \<and> keeps_files C (snd (spec_step (WriteFile uri buf ob) a)) f'"
proof -
  obtain s where s: "sm_find ''sample_plugin'' (fsProviders f) = Some (sample_directory s)"
    using keeps_filesD(1) [OF a] by blast
  from boost_path.writeFileCallback_file [OF paths name_ok_sample name s, of I buf ob] keeps_files_stored [OF a s] a
  show ?thesis by (simp add: stream_listed sample_written [OF runs] Let_def)
qed

lemma close_keeps_files:
  assumes a: "keeps_files C a f" and name: "name_ok uri"
  shows "\<exists>f'. program_step C T P I (CloseFile uri fh) f = Inr (fst (spec_step (CloseFile uri fh) a), f') \<and>
    keeps_files C (snd (spec_step (CloseFile uri fh) a)) f'"
proof -
  obtain s where s: "sm_find ''sample_plugin'' (fsProviders f) = Some (sample_directory s)"
    using keeps_filesD(1) [OF a] by blast
  from boost_path.fuse_release_file [OF paths name_ok_sample name s, of I fh] keeps_files_stored [OF a s]
  show ?thesis by (simp add: stream_matching [OF name] sample_released [OF runs] Let_def)
qed

lemma poll_keeps_files:
  assumes a: "keeps_files C a f" and name: "name_ok uri"
  shows "\<exists>f'. program_step C T P I (PollFile ctx uri ph revents) f =
      Inr (fst (spec_step (PollFile ctx uri ph revents) a), f') \<and>
    keeps_files C (snd (spec_step (PollFile ctx uri ph revents) a)) f'"
proof -
  obtain s where s: "sm_find ''sample_plugin'' (fsProviders f) = Some (sample_directory s)"
    using keeps_filesD(1) [OF a] by blast
  let ?r = "registerPoll ctx uri (getName (sample_directory s)) ph revents f"
  have "keeps_files C a (snd ?r)"
    using a by (auto simp: keeps_files_def registerPoll_def Let_def split: option.splits)
  moreover have "uri \<in> set stream_names \<Longrightarrow> fst (spec_step (PollFile ctx uri ph revents) a) = Ready 0 (fst ?r)"
    using keeps_filesD(2) [OF a] by (auto simp: registerPoll_def Let_def split: option.splits)
  ultimately show ?thesis
    using boost_path.fuse_poll_file [OF paths name_ok_sample name s, of ctx ph revents] a
    by (cases ?r) (auto simp: stream_listed split: option.splits)
qed

lemma program_step_keeps_files:
  assumes "keeps_files C a f" and "step_ok x"
    and "\<And>uri stream. files a uri = Some stream \<Longrightarrow> length stream + step_arrivals x < 2 ^ 64"
  shows "\<exists>f'. program_step C T P I x f = Inr (fst (spec_step x a), f') \<and> keeps_files C (snd (spec_step x a)) f'"
proof (cases x)
  case (Meanwhile uri es)
  with meanwhile_keeps_files [OF assms(1), of uri es] assms(3) show ?thesis by simp
next
  case (ReadFile ctx uri buf n ob fh)
  with read_keeps_files [OF assms(1), of ctx uri buf n ob fh] assms(2) show ?thesis by simp
next
  case ListFiles
  with list_keeps_files assms(1) show ?thesis by simp
next
  case (StatFile uri)
  with stat_keeps_files [OF assms(1), of uri] assms(1,2) show ?thesis by simp
next
  case (OpenFile uri)
  with open_keeps_files [OF assms(1), of uri] assms(2) show ?thesis by simp
next
  case (WriteFile uri buf ob)
  with write_keeps_files [OF assms(1), of uri buf ob] assms(2) show ?thesis by simp
next
  case (CloseFile uri fh)
  with close_keeps_files [OF assms(1), of uri fh] assms(2) show ?thesis by simp
next
  case (PollFile ctx uri ph revents)
  with poll_keeps_files [OF assms(1), of uri ctx ph revents] assms(2) show ?thesis by simp
qed

lemma program_steps_keep_files:
  assumes "keeps_files C a f" and "list_all step_ok xs" and "sum_list (map step_arrivals xs) < 2 ^ 64"
    and "\<And>uri stream. files a uri = Some stream \<Longrightarrow> length stream + sum_list (map step_arrivals xs) < 2 ^ 64"
  shows "\<exists>f'. program_steps C T P I xs f = Inr (spec_steps xs a, f')"
  using assms
proof (induction xs arbitrary: a f)
  case (Cons x xs)
  let ?a = "snd (spec_step x a)" and ?k = "sum_list (map step_arrivals xs)"
  have bound: "length stream + (step_arrivals x + ?k) < 2 ^ 64" if "files a uri = Some stream" for uri stream
    using Cons.prems(4) [OF that] by simp
  then have now: "length stream + step_arrivals x < 2 ^ 64" if "files a uri = Some stream" for uri stream
    using that by fastforce
  have "step_ok x" using Cons.prems(2) by simp
  from program_step_keeps_files [OF Cons.prems(1) this] now obtain f1 where
    f1: "program_step C T P I x f = Inr (fst (spec_step x a), f1)" "keeps_files C ?a f1" by blast
  have k: "?k < 2 ^ 64" using Cons.prems(3) by simp
  have "length stream + ?k < 2 ^ 64" if "files ?a uri = Some stream" for uri stream
    by (rule spec_step_bound [OF bound k that])
  with Cons.IH [OF f1(2)] Cons.prems(2) k obtain f2 where
    "program_steps C T P I xs f1 = Inr (spec_steps xs ?a, f2)" by auto
  with f1(1) show ?case by (simp add: case_prod_beta Let_def)
qed simp

lemma start_keeps_files:
  assumes "sharedLibs dirs config = [so]" and "libs so = sample_lib"
  shows "\<exists>m f. main_start I libs dirs opts = Some (m, f) \<and> keeps_files C spec_start f"
proof -
  obtain m f where "main_start I libs dirs opts = Some (m, f)" "fh_counter_g f = 0" "mEofReached f = []"
    "sm_find ''sample_plugin'' (fsProviders f) = Some (sample_directory sample_new)"
    using sample_start [of C T garbage patient I dirs so libs, OF runs assms] by blast
  then show ?thesis by (auto simp: keeps_files_def pools_keep_def spec_start_def sample_new_def)
qed

end

interpretation sp_list: sample_program list_ring list_ring slashes
  "sample_ops list_ring list_ring garbage patient" garbage
  by unfold_locales (rule sp.boost_path_axioms lbr.boost_rings_axioms sample_ops_runs)+

section \<open>The program keeps its promise\<close>

text \<open>
  C2: the program with the sample plugin refines the specification. Whatever its clients do,
  in any order and on any of its files, and whatever arrives meanwhile, every listing, open,
  read, write, close and poll gives exactly the result that the specification gives: the
  directory lists the streams; a stream is a file that grows at its end; a read returns all
  of the bytes asked for, or nothing when they have not arrived or the ring has dropped the
  first of them; a poll reports input unless the last read of the client returned nothing.
  The transfers go on during the run: the reads at the end of a closed stream are the
  subject of \<open>Pool_Properties\<close>.
\<close>

theorem program_refines_files:
  fixes C :: "('c, buffer_chunk) circ_ops" and T :: "('t, u32) circ_ops"
  assumes "boost_path P" and "boost_rings C T" and "runs_sample C T garbage patient I"
    and "sharedLibs dirs config = [so]" and "libs so = sample_lib"
    and "list_all step_ok xs" and "sum_list (map step_arrivals xs) < 2 ^ 64"
  shows "\<exists>m f f'. main_start I libs dirs opts = Some (m, f) \<and>
    program_steps C T P I xs f = Inr (spec_steps xs spec_start, f')"
proof -
  have prog: "sample_program C T P I garbage" using assms(1-3) by (rule sample_program.intro)
  obtain m f where f: "main_start I libs dirs opts = Some (m, f)" "keeps_files C spec_start f"
    using sample_program.start_keeps_files [of C T P I garbage dirs so libs, OF prog assms(4,5)] by blast
  have "files spec_start uri = Some stream \<Longrightarrow> False" for uri stream by (simp add: spec_start_def)
  with sample_program.program_steps_keep_files [OF prog f(2) assms(6,7)] f(1) show ?thesis by blast
qed

text \<open>
  For the witness, two clients: one reads what has arrived, the other behind its end. Both
  then poll a file; a third reads a stream that has not been opened.
\<close>

definition demo_steps :: "file_step list" where
  "demo_steps = (let c = \<lparr>ctx_gid = 1, ctx_pid = 5\<rparr>; d = \<lparr>ctx_gid = 1, ctx_pid = 6\<rparr> in
     [ListFiles, StatFile ''no.tst'', OpenFile ''test1.tst'', OpenFile ''no.tst'',
      Meanwhile ''test1.tst'' [Arrival 5 (chunk_fill 7)], ReadFile (Some c) ''test1.tst'' [0, 0, 0] 2 9022 0,
      ReadFile (Some d) ''test1.tst'' [0, 0] 2 9023 0, PollFile (Some c) ''test1.tst'' (Some 3) 0,
      PollFile (Some d) ''test2.tst'' (Some 4) 0, ReadFile None ''test2.tst'' [0] 1 0 0,
      WriteFile ''test1.tst'' [1] 0, CloseFile ''test1.tst'' 0])"

definition demo_results :: "file_result list" where
  "demo_results =
     [Names 0 [''.'', ''..'', ''test1.tst'', ''test2.tst'', ''test3.tst''], Attributes (- ENOENT) stat_zero,
      Opened 0 (Some 0), Opened (- ENOENT) None, Passed, Data 2 [7, 7, 0], Data 0 [0, 0],
      Ready 0 POLLIN, Ready 0 0, Data 0 [0], Written 0, Closed 0]"

lemma demo_spec: "spec_steps demo_steps spec_start = demo_results"
  by (simp add: demo_steps_def demo_results_def Let_def spec_start_def spec_read_def spec_has_def stream_names_def replicate_few)

theorem program_refines_files_witness:
  "\<exists>m f f'.
     main_start (sample_ops list_ring list_ring (chunk_fill 0) patient) (\<lambda>p. sample_lib) sample_dirs
       demo_options = Some (m, f) \<and>
     program_steps list_ring list_ring slashes (sample_ops list_ring list_ring (chunk_fill 0) patient)
       demo_steps f = Inr (demo_results, f')"
proof -
  have ok: "list_all step_ok demo_steps" "sum_list (map step_arrivals demo_steps) < 2 ^ 64"
    by (simp_all add: demo_steps_def Let_def name_ok_def)
  from program_refines_files [OF sp.boost_path_axioms lbr.boost_rings_axioms sample_ops_runs sample_dirs_libs _ ok,
      where libs = "\<lambda>p. sample_lib" and opts = demo_options and garbage = "chunk_fill 0"]
  show ?thesis unfolding demo_spec by simp
qed

end
