(* ===== verification/Wakeups.thy ===== *)
theory Wakeups
  imports Pool_Session
begin

text \<open>
  Waiting and waking, one atomic action at a time: taking a mutex, evaluating the predicate,
  going to sleep, setting a flag and signalling are steps of their own here. The first
  machine is ConditionVariableHelper.h, whose notifications cannot be lost. The second is the
  wait of \<open>BufferPool::read\<close> (src/BufferPool.cpp), whose notifications are sent under another
  mutex than the waiter's. Both are related to the coarse steps of the other theories.
\<close>

section \<open>ConditionVariableHelper, step by step\<close>

text \<open>
  The waiter is outside, holds the mutex before an evaluation, sleeps without the mutex, has
  been woken up and wants the mutex back, or has returned. A notifier sets the flag under the
  mutex; it signals after it has given the mutex up, so that signals are outstanding for a
  while.
\<close>

datatype waiter_pc = Outside | Evaluating | Sleeping | WokenUp | Through

record cv_machine =
  cvm_helper :: cv_helper
  cvm_waiter :: waiter_pc
  cvm_notifying :: bool
  cvm_signals :: nat

definition mutex_free :: "cv_machine \<Rightarrow> bool" where
  "mutex_free s \<longleftrightarrow> cvm_waiter s \<noteq> Evaluating \<and> \<not> cvm_notifying s"

definition cv_machine_new :: "cv_helper \<Rightarrow> cv_machine" where
  "cv_machine_new h = \<lparr>cvm_helper = h, cvm_waiter = Outside, cvm_notifying = False, cvm_signals = 0\<rparr>"

text \<open>\<open>evaluate\<close> has the value of the predicate; falling asleep gives up the mutex in the same step.\<close>

inductive cv_step :: "cv_machine \<Rightarrow> cv_machine \<Rightarrow> bool" where
  wait_lock: "mutex_free s \<Longrightarrow> cvm_waiter s = Outside \<Longrightarrow> cv_step s (s\<lparr>cvm_waiter := Evaluating\<rparr>)"
| evaluate_true: "cvm_waiter s = Evaluating \<Longrightarrow> cv_wait_pred pred (cvm_helper s) = Some h \<Longrightarrow>
    cv_step s (s\<lparr>cvm_helper := h, cvm_waiter := Through\<rparr>)"
| evaluate_false: "cvm_waiter s = Evaluating \<Longrightarrow> cv_wait_pred pred (cvm_helper s) = None \<Longrightarrow>
    cv_step s (s\<lparr>cvm_waiter := Sleeping\<rparr>)"
| spurious: "cvm_waiter s = Sleeping \<Longrightarrow> cv_step s (s\<lparr>cvm_waiter := WokenUp\<rparr>)"
| relock: "mutex_free s \<Longrightarrow> cvm_waiter s = WokenUp \<Longrightarrow> cv_step s (s\<lparr>cvm_waiter := Evaluating\<rparr>)"
| wait_again: "cvm_waiter s = Through \<Longrightarrow> cv_step s (s\<lparr>cvm_waiter := Outside\<rparr>)"
| notify_lock: "mutex_free s \<Longrightarrow> cv_step s (s\<lparr>cvm_notifying := True\<rparr>)"
| notify_set: "cvm_notifying s \<Longrightarrow>
    cv_step s (s\<lparr>cvm_helper := cv_notifyOne (cvm_helper s), cvm_notifying := False, cvm_signals := cvm_signals s + 1\<rparr>)"
| notify_signal: "cvm_signals s = Suc n \<Longrightarrow>
    cv_step s (s\<lparr>cvm_signals := n, cvm_waiter := (if cvm_waiter s = Sleeping then WokenUp else cvm_waiter s)\<rparr>)"

inductive_cases cv_stepE: "cv_step s s'"

text \<open>A notification that a sleeping waiter has not seen comes with a signal that is still to come.\<close>

definition signal_due :: "cv_machine \<Rightarrow> bool" where
  "signal_due s \<longleftrightarrow>
     (mNotified (cvm_helper s) \<longrightarrow> cvm_waiter s = Sleeping \<longrightarrow> 0 < cvm_signals s) \<and>
     (cvm_notifying s \<longrightarrow> cvm_waiter s \<noteq> Evaluating)"

lemma signal_due_step: "signal_due s \<Longrightarrow> cv_step s s' \<Longrightarrow> signal_due s'"
  by (auto simp: signal_due_def mutex_free_def cv_wait_pred_def cv_notifyOne_def elim!: cv_stepE split: if_splits)

lemma signal_due_run: "cv_step\<^sup>*\<^sup>* s s' \<Longrightarrow> signal_due s \<Longrightarrow> signal_due s'"
  by (induction rule: rtranclp_induct) (auto intro: signal_due_step)

section \<open>The wait of a reader, step by step\<close>

text \<open>
  The reader evaluates the predicate and falls asleep in two steps, because what other
  threads change and signal is not under the reader's mutex. \<open>DeadlineOver\<close>: the time has
  run out, and the predicate decides once more.
\<close>

datatype reader_pc = Testing | FallingAsleep | Asleep | Woken | DeadlineOver | Returned bool

datatype wait_event = ReaderStep | Timeout | Spurious | Meanwhile pool_event

fun notifies :: "pool_event \<Rightarrow> bool" where
  "notifies (PushCommit b lastBuffer n) \<longleftrightarrow> True"
| "notifies AbortAll \<longleftrightarrow> True"
| "notifies _ \<longleftrightarrow> False"

fun reader_moves :: "bool \<Rightarrow> reader_pc \<Rightarrow> reader_pc option" where
  "reader_moves satisfied Testing = Some (if satisfied then Returned True else FallingAsleep)"
| "reader_moves satisfied FallingAsleep = Some Asleep"
| "reader_moves satisfied Woken = Some Testing"
| "reader_moves satisfied DeadlineOver = Some (Returned satisfied)"
| "reader_moves satisfied _ = None"

definition holds_mutex :: "reader_pc \<Rightarrow> bool" where
  "holds_mutex pc \<longleftrightarrow> pc \<in> {Testing, FallingAsleep, DeadlineOver}"

text \<open>
  \<open>None\<close>: the step is not possible. Nothing is said about what happens after the wait has
  returned; that is the schedule's \<open>beforeCopy\<close>.
\<close>

fun wait_step ::
  "('c, buffer_chunk) circ_ops \<Rightarrow> ('t, u32) circ_ops \<Rightarrow> u64 \<Rightarrow> wait_event \<Rightarrow> reader_pc \<times> ('c, 't) pool \<Rightarrow>
     (reader_pc \<times> ('c, 't) pool) outcome option" where
  "wait_step C T readEnd ReaderStep (pc, p) =
     map_option (\<lambda>pc'. Inr (pc', p)) (reader_moves (wait_satisfied readEnd p) pc)"
| "wait_step C T readEnd Timeout (pc, p) = (if pc = Asleep then Some (Inr (DeadlineOver, p)) else None)"
| "wait_step C T readEnd Spurious (pc, p) = (if pc = Asleep then Some (Inr (Woken, p)) else None)"
| "wait_step C T readEnd (Meanwhile e) (pc, p) =
     (if (\<exists>r. pc = Returned r) \<or> e = ClearToLastRead \<and> holds_mutex pc then None
      else Some (andthen (pool_do C T e p) (\<lambda>p'.
        Inr (if notifies e \<and> pc = Asleep then Woken else pc, p'))))"

fun wait_steps ::
  "('c, buffer_chunk) circ_ops \<Rightarrow> ('t, u32) circ_ops \<Rightarrow> u64 \<Rightarrow> wait_event list \<Rightarrow> reader_pc \<times> ('c, 't) pool \<Rightarrow>
     (reader_pc \<times> ('c, 't) pool) outcome option" where
  "wait_steps C T readEnd [] s = Some (Inr s)"
| "wait_steps C T readEnd (e # es) s =
     (case wait_step C T readEnd e s of
        None \<Rightarrow> None
      | Some (Inl f) \<Rightarrow> Some (Inl f)
      | Some (Inr s') \<Rightarrow> wait_steps C T readEnd es s')"

fun pool_events :: "wait_event list \<Rightarrow> pool_event list" where
  "pool_events [] = []"
| "pool_events (Meanwhile e # es) = e # pool_events es"
| "pool_events (_ # es) = pool_events es"

text \<open>
  From the fine steps to the batches of the coarse wait: the events up to the next
  evaluation, and the batches after it.
\<close>

lemma returned_ends: "wait_steps C T readEnd es (Returned r, p) = Some (Inr s) \<Longrightarrow> es = [] \<and> s = (Returned r, p)"
  by (cases es; cases "hd es") auto

lemma fine_to_coarse:
  assumes "wait_steps C T readEnd es (pc, p) = Some (Inr (Returned r, q))" and "\<forall>r. pc \<noteq> Returned r"
  shows "\<exists>batch batches. batch @ concat batches = pool_events es \<and>
           andthen (pool_dos C T batch p) (read_wait C T readEnd batches) = Inr (r, q)"
  using assms
proof (induction es arbitrary: pc p)
  case Nil
  then show ?case by simp
next
  case (Cons e es)
  show ?case
  proof (cases e)
    case ReaderStep
    then obtain pc' where pc': "reader_moves (wait_satisfied readEnd p) pc = Some pc'"
      "wait_steps C T readEnd es (pc', p) = Some (Inr (Returned r, q))"
      using Cons.prems(1) by (auto split: option.splits)
    consider "\<exists>b. pc' = Returned b" | "pc = Testing" "pc' = FallingAsleep" | "pc \<noteq> Testing" "\<forall>b. pc' \<noteq> Returned b"
      using pc'(1) by (cases pc) (auto split: if_splits)
    then show ?thesis
    proof cases
      case 1
      then have "es = []" "p = q" "pc' = Returned r" using pc'(2) returned_ends by fastforce+
      moreover from this(3) pc'(1) have "wait_satisfied readEnd p = r" by (cases pc) (auto split: if_splits)
      ultimately show ?thesis using ReaderStep by (intro exI [of _ "[]"]) simp
    next
      case 2
      with pc'(1) have unsatisfied: "\<not> wait_satisfied readEnd p" by (auto split: if_splits)
      from Cons.IH [OF pc'(2)] 2 obtain batch batches where
        "batch @ concat batches = pool_events es"
        "andthen (pool_dos C T batch p) (read_wait C T readEnd batches) = Inr (r, q)" by auto
      with unsatisfied ReaderStep show ?thesis
        by (intro exI [of _ "[]"] exI [of _ "batch # batches"]) simp
    next
      case 3
      then show ?thesis using Cons.IH [OF pc'(2)] ReaderStep by simp
    qed
  next
    case (Meanwhile ev)
    then obtain p' pc' where p': "pool_do C T ev p = Inr p'" "\<forall>r. pc' \<noteq> Returned r"
      "wait_steps C T readEnd es (pc', p') = Some (Inr (Returned r, q))"
      using Cons.prems by (cases "pool_do C T ev p") (auto split: if_splits)
    from Cons.IH [OF p'(3,2)] obtain batch batches where
      "batch @ concat batches = pool_events es"
      "andthen (pool_dos C T batch p') (read_wait C T readEnd batches) = Inr (r, q)" by blast
    with p'(1) Meanwhile show ?thesis by (intro exI [of _ "ev # batch"] exI [of _ batches]) simp
  qed (use Cons in \<open>auto split: if_splits\<close>)
qed

text \<open>And back: a reader that is asleep can be woken after each batch.\<close>

lemma wait_steps_append:
  "wait_steps C T readEnd es s = Some (Inr s') \<Longrightarrow>
     wait_steps C T readEnd (es @ fs) s = wait_steps C T readEnd fs s'"
  by (induction es arbitrary: s) (auto split: option.splits sum.splits)

lemma steps_batch:
  assumes "pool_dos C T batch p = Inr p'" and "pc = Asleep \<or> pc = Woken"
  shows "\<exists>pc'. wait_steps C T readEnd (map Meanwhile batch) (pc, p) = Some (Inr (pc', p')) \<and>
           (pc' = Asleep \<or> pc' = Woken)"
  using assms
proof (induction batch arbitrary: p pc)
  case Nil
  then show ?case by simp
next
  case (Cons e batch)
  then obtain p1 where p1: "pool_do C T e p = Inr p1" "pool_dos C T batch p1 = Inr p'"
    by (auto simp: andthen_Inr_iff)
  let ?pc = "if notifies e \<and> pc = Asleep then Woken else pc"
  have "?pc = Asleep \<or> ?pc = Woken" using Cons.prems(2) by auto
  from Cons.IH [OF p1(2) this] p1(1) Cons.prems(2) show ?case by (auto simp: holds_mutex_def)
qed

lemma coarse_to_fine:
  assumes "read_wait C T readEnd batches p = Inr (r, q)"
  shows "\<exists>es. wait_steps C T readEnd es (Testing, p) = Some (Inr (Returned r, q))"
  using assms
proof (induction batches arbitrary: p)
  case Nil
  show ?case
  proof (cases r)
    case True
    with Nil show ?thesis by (intro exI [of _ "[ReaderStep]"]) auto
  next
    case False
    with Nil show ?thesis by (intro exI [of _ "[ReaderStep, ReaderStep, Timeout, ReaderStep]"]) auto
  qed
next
  case (Cons batch batches)
  show ?case
  proof (cases "wait_satisfied readEnd p")
    case True
    with Cons.prems show ?thesis by (intro exI [of _ "[ReaderStep]"]) simp
  next
    case False
    with Cons.prems obtain p1 where p1: "pool_dos C T batch p = Inr p1" "read_wait C T readEnd batches p1 = Inr (r, q)"
      by (auto simp: andthen_Inr_iff)
    from steps_batch [OF p1(1), of Asleep] obtain pc where
      pc: "wait_steps C T readEnd (map Meanwhile batch) (Asleep, p) = Some (Inr (pc, p1))" "pc = Asleep \<or> pc = Woken"
      by auto
    from Cons.IH [OF p1(2)] obtain es where
      es: "wait_steps C T readEnd es (Testing, p1) = Some (Inr (Returned r, q))" by blast
    have "\<exists>fs. wait_steps C T readEnd fs (pc, p1) = Some (Inr (Testing, p1))"
    proof (cases "pc = Asleep")
      case True
      then show ?thesis by (intro exI [of _ "[Spurious, ReaderStep]"]) simp
    next
      case awake: False
      with pc(2) show ?thesis by (intro exI [of _ "[ReaderStep]"]) simp
    qed
    then obtain fs where fs: "wait_steps C T readEnd fs (pc, p1) = Some (Inr (Testing, p1))" by blast
    have "wait_steps C T readEnd (ReaderStep # ReaderStep # map Meanwhile batch @ fs @ es) (Testing, p) =
        Some (Inr (Returned r, q))"
      using False es by (simp add: wait_steps_append [OF pc(1)] wait_steps_append [OF fs])
    then show ?thesis by blast
  qed
qed

section \<open>Properties\<close>


text \<open>A waiter that has fallen asleep and a notification whose signal is still to come.\<close>

definition demo_notified :: cv_machine where
  "demo_notified = \<lparr>cvm_helper = \<lparr>mNotified = True\<rparr>, cvm_waiter = Sleeping, cvm_notifying = False, cvm_signals = 1\<rparr>"

lemma demo_notified_reachable: "cv_step\<^sup>*\<^sup>* (cv_machine_new cv_helper_new) demo_notified"
proof -
  let ?s0 = "cv_machine_new cv_helper_new"
  let ?s1 = "?s0\<lparr>cvm_waiter := Evaluating\<rparr>"
  let ?s2 = "?s1\<lparr>cvm_waiter := Sleeping\<rparr>"
  let ?s3 = "?s2\<lparr>cvm_notifying := True\<rparr>"
  let ?s4 = "?s3\<lparr>cvm_helper := cv_notifyOne (cvm_helper ?s3), cvm_notifying := False, cvm_signals := cvm_signals ?s3 + 1\<rparr>"
  have "cv_step ?s0 ?s1" by (rule wait_lock) (simp_all add: cv_machine_new_def mutex_free_def)
  moreover have "cv_step ?s1 ?s2"
    by (rule evaluate_false [where pred = False]) (simp_all add: cv_machine_new_def cv_helper_new_def cv_wait_pred_def)
  moreover have "cv_step ?s2 ?s3" by (rule notify_lock) (simp add: cv_machine_new_def mutex_free_def)
  moreover have "cv_step ?s3 ?s4" by (rule notify_set) simp
  moreover have "?s4 = demo_notified" by (simp add: cv_machine_new_def cv_helper_new_def cv_notifyOne_def demo_notified_def)
  ultimately show ?thesis by (metis converse_rtranclp_into_rtranclp rtranclp.rtrancl_refl)
qed




text \<open>
  C34: the wake-up of a reader can be lost. A push between the reader's evaluation of the
  predicate and its falling asleep signals nobody: the reader sleeps although the chunk it
  waits for is there, no step of its own gets it out, and it is the timeout that lets it
  return, with the chunk.
\<close>

theorem pool_wakeup_lost:
  fixes C :: "('c, buffer_chunk) circ_ops" and T :: "('t, u32) circ_ops"
  assumes rings: "boost_rings C T" and hold: "pool_holds C stream p" and cap: "0 < unat (cb_capacity C (mCircBuf p))"
    and "length stream + 1 = unat readEnd" and "pool_open p"
  shows "\<exists>q. wait_steps C T readEnd [ReaderStep, Meanwhile (PushCommit b False 0), ReaderStep] (Testing, p) =
           Some (Inr (Asleep, q)) \<and>
         wait_satisfied readEnd q \<and> wait_step C T readEnd ReaderStep (Asleep, q) = None \<and>
         wait_steps C T readEnd [Timeout, ReaderStep] (Asleep, q) = Some (Inr (Returned True, q))"
proof -
  have "length stream + 1 < 2 ^ 64" using unat_less_u64 [of readEnd] assms(4) by simp
  from boost_rings.push_commit_ok [OF rings hold cap this, of b False 0] obtain q where
    q: "push_commit C b False 0 p = Inr (hd (cb_elems C (mCircBuf q)), q)" "pool_holds C (stream @ [b]) q" by blast
  have "\<not> wait_satisfied readEnd p"
    using hold assms(4,5) by (simp add: wait_satisfied_def pool_open_def pool_holds_def word_le_nat_alt)
  moreover have "wait_satisfied readEnd q"
    using q(2) assms(4) by (simp add: wait_satisfied_def pool_holds_def word_le_nat_alt)
  ultimately show ?thesis using q(1) by (simp add: holds_mutex_def)
qed

theorem pool_wakeup_lost_witness:
  "\<exists>q. wait_steps list_ring list_ring 1 [ReaderStep, Meanwhile (PushCommit (chunk_fill 7) False 0), ReaderStep]
       (Testing, pool_new list_ring list_ring 2) = Some (Inr (Asleep, q)) \<and> wait_satisfied 1 q"
  using pool_wakeup_lost [OF lbr.boost_rings_axioms lbr.holds_new [of 2], of 1 "chunk_fill 7"]
  by (auto simp: pool_new_def pool_open_def)

end
