(* ===== verification/Lock_Discipline.thy ===== *)
theory Lock_Discipline
  imports Main
begin

text \<open>
  Threads that take and release mutexes and wait for other threads. A program is the list of
  these actions in the order a thread performs them, with everything else left out. If every
  thread takes its mutexes in the order of a rank, and waits for a thread only while all it
  holds is below what that thread will ask for, then no state is stuck.
\<close>

section \<open>Threads and steps\<close>

datatype 'l action = Acquire 'l | Release 'l | Await nat

text \<open>What a thread has yet to do, and the mutexes it holds.\<close>

type_synonym 'l thread = "'l action list \<times> 'l list"

definition held_somewhere :: "'l \<Rightarrow> 'l thread list \<Rightarrow> bool" where
  "held_somewhere l s \<longleftrightarrow> list_ex (\<lambda>t. l \<in> set (snd t)) s"

text \<open>
  A mutex that any thread holds blocks, its own holder included; a thread is awaited until
  it has nothing left to do.
\<close>

fun perform :: "'l thread list \<Rightarrow> 'l thread \<Rightarrow> 'l thread option" where
  "perform s ([], held) = None"
| "perform s (Acquire l # rest, held) = (if held_somewhere l s then None else Some (rest, l # held))"
| "perform s (Release l # rest, held) = Some (rest, remove1 l held)"
| "perform s (Await j # rest, held) =
     (if j < length s \<and> fst (s ! j) \<noteq> [] then None else Some (rest, held))"

definition thread_step :: "nat \<Rightarrow> 'l thread list \<Rightarrow> 'l thread list option" where
  "thread_step i s = (if i < length s then map_option (\<lambda>t. s[i := t]) (perform s (s ! i)) else None)"

fun thread_run :: "nat list \<Rightarrow> 'l thread list \<Rightarrow> 'l thread list option" where
  "thread_run [] s = Some s"
| "thread_run (i # is) s = (case thread_step i s of None \<Rightarrow> None | Some s' \<Rightarrow> thread_run is s')"

definition start_threads :: "'l action list list \<Rightarrow> 'l thread list" where
  "start_threads ps = map (\<lambda>p. (p, [])) ps"

definition all_done :: "'l thread list \<Rightarrow> bool" where
  "all_done s \<longleftrightarrow> list_all (\<lambda>t. fst t = []) s"

definition stuck :: "'l thread list \<Rightarrow> bool" where
  "stuck s \<longleftrightarrow> \<not> all_done s \<and> list_all (\<lambda>t. perform s t = None) s"

lemma thread_run_append:
  "thread_run (is @ js) s = (case thread_run is s of None \<Rightarrow> None | Some s' \<Rightarrow> thread_run js s')"
  by (induction "is" arbitrary: s) (auto split: option.splits)

section \<open>The discipline\<close>

text \<open>
  \<open>above\<close>: what a thread asks for lies above \<open>b\<close>. The base of a thread, \<open>base j\<close>, is
  what those who wait for it may hold at most.
\<close>

fun ordered :: "('l \<Rightarrow> nat) \<Rightarrow> (nat \<Rightarrow> nat) \<Rightarrow> 'l list \<Rightarrow> 'l action list \<Rightarrow> bool" where
  "ordered rank base held [] \<longleftrightarrow> held = []"
| "ordered rank base held (Acquire l # p) \<longleftrightarrow>
     (\<forall>h \<in> set held. rank h < rank l) \<and> ordered rank base (l # held) p"
| "ordered rank base held (Release l # p) \<longleftrightarrow> l \<in> set held \<and> ordered rank base (remove1 l held) p"
| "ordered rank base held (Await j # p) \<longleftrightarrow>
     (\<forall>h \<in> set held. rank h \<le> base j) \<and> ordered rank base held p"

fun above :: "('l \<Rightarrow> nat) \<Rightarrow> (nat \<Rightarrow> nat) \<Rightarrow> nat \<Rightarrow> 'l action \<Rightarrow> bool" where
  "above rank base b (Acquire l) \<longleftrightarrow> b < rank l"
| "above rank base b (Release l) \<longleftrightarrow> True"
| "above rank base b (Await j) \<longleftrightarrow> b < base j"

definition disciplined :: "('l \<Rightarrow> nat) \<Rightarrow> (nat \<Rightarrow> nat) \<Rightarrow> 'l thread list \<Rightarrow> bool" where
  "disciplined rank base s \<longleftrightarrow>
     (\<forall>i < length s. ordered rank base (snd (s ! i)) (fst (s ! i)) \<and>
        list_all (above rank base (base i)) (fst (s ! i)))"

lemma ordered_append:
  "ordered rank base held p \<Longrightarrow> ordered rank base [] q \<Longrightarrow> ordered rank base held (p @ q)"
  by (induction rank base held p rule: ordered.induct) auto

lemma ordered_concat:
  "(\<And>p. p \<in> set ps \<Longrightarrow> ordered rank base [] p) \<Longrightarrow> ordered rank base [] (concat ps)"
  by (induction ps) (auto intro: ordered_append)

lemma perform_ordered:
  assumes "perform s (p, held) = Some (p', held')" and "ordered rank base held p"
  shows "ordered rank base held' p'" and "set p' \<subseteq> set p" and "length p' < length p"
proof -
  have "ordered rank base held' p' \<and> set p' \<subseteq> set p \<and> length p' < length p"
    using assms by (cases "(s, p, held)" rule: perform.cases) (auto split: if_splits)
  then show "ordered rank base held' p'" and "set p' \<subseteq> set p" and "length p' < length p" by auto
qed

lemma disciplined_step:
  assumes "disciplined rank base s" and "thread_step i s = Some s'"
  shows "disciplined rank base s'" and "length s' = length s"
proof -
  obtain p held p' held' where i: "i < length s" "s ! i = (p, held)" "perform s (p, held) = Some (p', held')"
    "s' = s[i := (p', held')]"
    using assms(2) by (cases "s ! i") (auto simp: thread_step_def split: if_splits)
  have "ordered rank base held p" "list_all (above rank base (base i)) p"
    using assms(1) i unfolding disciplined_def by (metis fst_conv snd_conv)+
  with perform_ordered [OF i(3), of rank base]
  have "ordered rank base held' p'" "list_all (above rank base (base i)) p'"
    by (auto simp: list_all_iff)
  then show "disciplined rank base s'"
    using assms(1) i(1) unfolding i(4) disciplined_def by (auto simp: nth_list_update)
  show "length s' = length s" by (simp add: i(4))
qed

section \<open>No state is stuck\<close>

text \<open>The level of what a blocked thread asks for. Along the blocking it rises.\<close>

fun level :: "('l \<Rightarrow> nat) \<Rightarrow> (nat \<Rightarrow> nat) \<Rightarrow> 'l action \<Rightarrow> nat" where
  "level rank base (Acquire l) = 2 * rank l"
| "level rank base (Release l) = 0"
| "level rank base (Await j) = 2 * base j + 1"

definition asks :: "'l thread list \<Rightarrow> nat \<Rightarrow> 'l action \<Rightarrow> bool" where
  "asks s i a \<longleftrightarrow> i < length s \<and> fst (s ! i) \<noteq> [] \<and> a = hd (fst (s ! i))"

lemma level_above: "above rank base b a \<Longrightarrow> (\<forall>l. a \<noteq> Release l) \<Longrightarrow> 2 * b + 1 < level rank base a"
  by (cases a) auto

lemma level_held:
  assumes "ordered rank base held (a # p)" and "h \<in> set held" and "\<forall>l. a \<noteq> Release l"
  shows "2 * rank h < level rank base a"
  using assms by (cases a) auto

lemma blocked_rises:
  assumes "disciplined rank base s" and "stuck s" and "asks s i a"
  shows "\<exists>j b. asks s j b \<and> level rank base a < level rank base b"
proof -
  obtain p held where i: "i < length s" "s ! i = (a # p, held)"
    using assms(3) by (cases "s ! i") (auto simp: asks_def neq_Nil_conv)
  have blocked: "perform s (s ! j) = None" if "j < length s" for j
    using assms(2) that by (auto simp: stuck_def list_all_length)
  have no_release: "hd (fst (s ! j)) \<noteq> Release l" if "j < length s" "fst (s ! j) \<noteq> []" for j l
    using blocked [OF that(1)] that(2) by (cases "s ! j"; cases "fst (s ! j)") auto
  have up: "\<exists>b. asks s j b \<and> 2 * rank h < level rank base b" if "j < length s" "h \<in> set (snd (s ! j))" for j h
  proof -
    have ord: "ordered rank base (snd (s ! j)) (fst (s ! j))" using assms(1) that(1) by (simp add: disciplined_def)
    then have ne: "fst (s ! j) \<noteq> []" using that(2) by (cases "fst (s ! j)") auto
    then obtain b q where b: "fst (s ! j) = b # q" by (cases "fst (s ! j)") auto
    have "2 * rank h < level rank base b"
      using level_held [of rank base "snd (s ! j)" b q h] ord that(2) no_release [OF that(1) ne] b by simp
    with b that(1) show ?thesis by (auto simp: asks_def)
  qed
  show ?thesis
  proof (cases a)
    case (Acquire l)
    then have "held_somewhere l s" using blocked [OF i(1)] i(2) by (simp split: if_splits)
    then obtain j where "j < length s" "l \<in> set (snd (s ! j))"
      by (auto simp: held_somewhere_def list_ex_length)
    from up [OF this] Acquire show ?thesis by auto
  next
    case (Release l)
    then show ?thesis using blocked [OF i(1)] i(2) by simp
  next
    case (Await j)
    then have j: "j < length s" "fst (s ! j) \<noteq> []" using blocked [OF i(1)] i(2) by (auto split: if_splits)
    then obtain b q where b: "fst (s ! j) = b # q" by (cases "fst (s ! j)") auto
    have "above rank base (base j) b" using assms(1) j(1) b by (auto simp: disciplined_def)
    then have "2 * base j + 1 < level rank base b" using level_above no_release [OF j] b by fastforce
    with b j(1) Await show ?thesis by (auto simp: asks_def)
  qed
qed

lemma disciplined_not_stuck:
  assumes "disciplined rank base s"
  shows "\<not> stuck s"
proof
  assume stuck: "stuck s"
  let ?L = "{level rank base (hd (fst (s ! i))) |i. i < length s \<and> fst (s ! i) \<noteq> []}"
  have eq: "?L = {level rank base a |i a. asks s i a}" by (auto simp: asks_def)
  have "finite ?L" by simp
  moreover have "?L \<noteq> {}"
    using stuck by (auto simp: stuck_def all_done_def list_all_length)
  ultimately have "Max ?L \<in> ?L" by (rule Max_in)
  have max: "x \<in> ?L \<Longrightarrow> x \<le> Max ?L" for x using \<open>finite ?L\<close> by (rule Max_ge)
  from \<open>Max ?L \<in> ?L\<close> have "Max ?L \<in> {level rank base a |i a. asks s i a}" using eq by metis
  then obtain i a where "asks s i a" "level rank base a = Max ?L" by auto
  with blocked_rises [OF assms stuck] obtain j b where "asks s j b" "Max ?L < level rank base b"
    by metis
  moreover from this(1) have "level rank base b \<in> ?L" unfolding eq by blast
  ultimately show False using max by fastforce
qed

section \<open>Every run can be finished\<close>

definition work_left :: "'l thread list \<Rightarrow> nat" where
  "work_left s = sum_list (map (length \<circ> fst) s)"

lemma thread_step_work:
  assumes "disciplined rank base s" and "thread_step i s = Some s'"
  shows "work_left s' < work_left s"
proof -
  obtain p held p' held' where i: "i < length s" "s ! i = (p, held)" "perform s (p, held) = Some (p', held')"
    "s' = s[i := (p', held')]"
    using assms(2) by (cases "s ! i") (auto simp: thread_step_def split: if_splits)
  have "ordered rank base held p" using assms(1) i unfolding disciplined_def by (metis fst_conv snd_conv)
  from perform_ordered(3) [OF i(3) this] have "length p' < length p" .
  moreover have "map (length \<circ> fst) s' = (map (length \<circ> fst) s)[i := length p']" by (simp add: i(4) map_update)
  moreover have "map (length \<circ> fst) s ! i = length p" using i by simp
  ultimately show ?thesis
    using i(1) elem_le_sum_list [of i "map (length \<circ> fst) s"]
    by (simp add: work_left_def sum_list_update)
qed

lemma disciplined_completes:
  assumes "disciplined rank base s"
  shows "\<exists>is s'. thread_run is s = Some s' \<and> all_done s' \<and> length is \<le> work_left s"
  using assms
proof (induction "work_left s" arbitrary: s rule: less_induct)
  case less
  show ?case
  proof (cases "all_done s")
    case True
    then show ?thesis by (intro exI [of _ "[]"] exI [of _ s]) simp
  next
    case False
    with disciplined_not_stuck [OF less.prems] obtain i where "i < length s" "perform s (s ! i) \<noteq> None"
      by (auto simp: stuck_def list_all_length)
    then obtain s1 where s1: "thread_step i s = Some s1" by (auto simp: thread_step_def)
    from thread_step_work [OF less.prems s1] less.hyps [OF _ disciplined_step(1) [OF less.prems s1]]
    obtain "is" s' where "thread_run is s1 = Some s'" "all_done s'" "length is \<le> work_left s1" by blast
    with s1 thread_step_work [OF less.prems s1] show ?thesis
      by (intro exI [of _ "i # is"] exI [of _ s']) simp
  qed
qed

lemma disciplined_run:
  assumes "disciplined rank base s" and "thread_run is s = Some s'"
  shows "disciplined rank base s' \<and> length is + work_left s' \<le> work_left s"
  using assms
proof (induction "is" arbitrary: s)
  case Nil
  then show ?case by simp
next
  case (Cons i "is")
  then obtain s1 where s1: "thread_step i s = Some s1" "thread_run is s1 = Some s'"
    by (auto split: option.splits)
  from Cons.IH [OF disciplined_step(1) [OF Cons.prems(1) s1(1)] s1(2)] thread_step_work [OF Cons.prems(1) s1(1)]
  show ?case by simp
qed

text \<open>A mutex is held by one thread, and once.\<close>

definition exclusive :: "'l thread list \<Rightarrow> bool" where
  "exclusive s \<longleftrightarrow>
     (\<forall>i < length s. distinct (snd (s ! i)) \<and>
        (\<forall>j < length s. i \<noteq> j \<longrightarrow> set (snd (s ! i)) \<inter> set (snd (s ! j)) = {}))"

lemma exclusive_step:
  assumes "exclusive s" and "thread_step i s = Some s'"
  shows "exclusive s'"
proof -
  obtain p held p' held' where i: "i < length s" "s ! i = (p, held)" "perform s (p, held) = Some (p', held')"
    "s' = s[i := (p', held')]"
    using assms(2) by (cases "s ! i") (auto simp: thread_step_def split: if_splits)
  have held: "distinct held" "\<And>j. j < length s \<Longrightarrow> j \<noteq> i \<Longrightarrow> set held \<inter> set (snd (s ! j)) = {}"
    using assms(1) i(1,2) unfolding exclusive_def by (metis snd_conv)+
  have "distinct held' \<and> (\<forall>j < length s. j \<noteq> i \<longrightarrow> set held' \<inter> set (snd (s ! j)) = {})"
  proof (cases p)
    case Nil
    then show ?thesis using i(3) by simp
  next
    case (Cons a q)
    show ?thesis
    proof (cases a)
      case (Acquire l)
      then have "\<not> held_somewhere l s" "held' = l # held" using i(3) Cons by (auto split: if_splits)
      moreover from this(1) have "\<forall>j < length s. l \<notin> set (snd (s ! j))"
        by (simp add: held_somewhere_def list_ex_length)
      ultimately show ?thesis using held i(1,2) by (metis Int_insert_left distinct.simps(2) list.simps(15) snd_conv)
    next
      case (Release l)
      then have "held' = remove1 l held" using i(3) Cons by simp
      then show ?thesis using held set_remove1_subset [of l held] by auto
    next
      case (Await j)
      then have "held' = held" using i(3) Cons by (auto split: if_splits)
      then show ?thesis using held by blast
    qed
  qed
  then show ?thesis
    using assms(1) i(1) unfolding exclusive_def i(4) by (auto simp: nth_list_update)
qed

lemma exclusive_run: "exclusive s \<Longrightarrow> thread_run is s = Some s' \<Longrightarrow> exclusive s'"
  by (induction "is" arbitrary: s) (auto split: option.splits intro: exclusive_step)

lemma exclusive_start: "exclusive (start_threads ps)"
  by (simp add: exclusive_def start_threads_def)

lemma disciplined_start:
  assumes "\<And>i. i < length ps \<Longrightarrow> ordered rank base [] (ps ! i) \<and> list_all (above rank base (base i)) (ps ! i)"
  shows "disciplined rank base (start_threads ps)"
  using assms by (simp add: disciplined_def start_threads_def)

end
