(* ===== verification/Program_Locks.thy ===== *)
theory Program_Locks
  imports Lock_Discipline
begin

text \<open>
  The mutexes of the program and the order in which its operations take them: the locks of
  src/fuse/IFuse.cpp, src/VirtualFSProvider.cpp, src/PluginCbImpl.cpp,
  src/StreamPluginManager.cpp, sample/SamplePlugin.cpp, src/BufferPool.cpp,
  src/BufferPoolThrottle.cpp, export/streamfs/BufferProducer.h and
  include/streamfs/ConditionVariableHelper.h. Here an operation is the list of its lock
  actions; what it does between them is in the theories of its component. Loops and branches
  that change the list are parameters of it.

  A timed wait on a condition variable gives its mutex up and takes it again. The wait of a
  reader in the throttle is not timed: it awaits the throttle thread.
\<close>

section \<open>Mutexes\<close>

datatype mutex_name =
    mPluginMtx | mStateMtx | mFileListLock | guard | mPollConfigMtx | mFopMutex
  | m_mutex | writeLock | producer_mutex | m_w_mutex | mMutexSetReadPosition
  | mMutexTimePeriodBuffer | mCvStartThrottle_mutex | mCvThrottleChanged_mutex
  | mCvTimePeriodRegistered_mutex

text \<open>A mutex of an object: the name and the number of the object.\<close>

type_synonym mutex = "mutex_name \<times> nat"

section \<open>Condition variables and the throttle\<close>

definition locks_notifyOne :: "mutex \<Rightarrow> mutex action list" where
  "locks_notifyOne c = [Acquire c, Release c]"

definition locks_wait_for :: "mutex \<Rightarrow> mutex action list" where
  "locks_wait_for c = [Acquire c, Release c, Acquire c, Release c]"

definition locks_wait :: "nat \<Rightarrow> mutex \<Rightarrow> mutex action list" where
  "locks_wait thread c = [Acquire c, Release c, Await thread, Acquire c, Release c]"

definition locks_registerTimePeriod :: "nat \<Rightarrow> mutex action list" where
  "locks_registerTimePeriod k =
     [Acquire (mMutexTimePeriodBuffer, k)] @ locks_notifyOne (mCvTimePeriodRegistered_mutex, k) @
     [Release (mMutexTimePeriodBuffer, k)]"

definition locks_setReadPosition :: "nat \<Rightarrow> mutex action list" where
  "locks_setReadPosition k = [Acquire (mMutexSetReadPosition, k), Release (mMutexSetReadPosition, k)]"

text \<open>Whether the thread is started, and how often the loop waits for it.\<close>

definition locks_throttle_wait :: "nat \<Rightarrow> nat \<Rightarrow> bool \<Rightarrow> nat \<Rightarrow> mutex action list" where
  "locks_throttle_wait k thread starts waits =
     [Acquire (mMutexSetReadPosition, k)] @
     (if starts then locks_notifyOne (mCvStartThrottle_mutex, k) else []) @
     concat (replicate waits (locks_wait thread (mCvThrottleChanged_mutex, k))) @
     [Release (mMutexSetReadPosition, k)]"

text \<open>\<open>clear\<close> and \<open>clearToLastRead\<close>.\<close>

definition locks_throttle_clear :: "nat \<Rightarrow> mutex action list" where
  "locks_throttle_clear k = [Acquire (mMutexTimePeriodBuffer, k), Release (mMutexTimePeriodBuffer, k)]"

definition locks_throttle_destroy :: "nat \<Rightarrow> nat \<Rightarrow> mutex action list" where
  "locks_throttle_destroy k thread =
     locks_notifyOne (mCvTimePeriodRegistered_mutex, k) @ locks_notifyOne (mCvStartThrottle_mutex, k) @
     locks_notifyOne (mCvThrottleChanged_mutex, k) @ [Await thread]"

text \<open>
  A round of the inner loop: whether there is a period to sleep, and whether the round
  ends by stopping the throttling.
\<close>

definition locks_throttle_round :: "nat \<Rightarrow> bool \<times> bool \<Rightarrow> mutex action list" where
  "locks_throttle_round k r =
     [Acquire (mMutexTimePeriodBuffer, k), Release (mMutexTimePeriodBuffer, k)] @
     (if fst r then locks_notifyOne (mCvThrottleChanged_mutex, k)
      else locks_wait_for (mCvTimePeriodRegistered_mutex, k)) @
     (if snd r then locks_notifyOne (mCvThrottleChanged_mutex, k) else [])"

section \<open>The pool and its producer\<close>

text \<open>
  The number of times the reader wakes up while it waits for chunks, the number of chunks it
  copies, and its call of the throttle.
\<close>

definition locks_read :: "nat \<Rightarrow> nat \<Rightarrow> nat \<Rightarrow> nat \<Rightarrow> bool \<Rightarrow> nat \<Rightarrow> mutex action list" where
  "locks_read k thread wakes len starts waits =
     [Acquire (m_mutex, k)] @
     concat (replicate wakes [Release (m_mutex, k), Acquire (m_mutex, k)]) @
     [Acquire (m_w_mutex, k)] @ concat (replicate len (locks_setReadPosition k)) @
     [Release (m_w_mutex, k)] @ locks_throttle_wait k thread starts waits @ [Release (m_mutex, k)]"

definition locks_pushBuffer :: "nat \<Rightarrow> mutex action list" where
  "locks_pushBuffer k = locks_registerTimePeriod k @ [Acquire (m_w_mutex, k), Release (m_w_mutex, k)]"

definition locks_clear :: "nat \<Rightarrow> mutex action list" where
  "locks_clear k = [Acquire (m_w_mutex, k)] @ locks_throttle_clear k @ [Release (m_w_mutex, k)]"

definition locks_clearToLastRead :: "nat \<Rightarrow> mutex action list" where
  "locks_clearToLastRead k =
     [Acquire (m_mutex, k), Acquire (m_w_mutex, k)] @ locks_throttle_clear k @
     [Release (m_w_mutex, k), Release (m_mutex, k)]"

text \<open>
  \<open>stop\<close> of the base class does nothing. That of the sample producer joins the producer's
  thread. Both are called by \<open>abortAllOperations\<close> under the lock, by the destructor of
  the pool without it.
\<close>

definition locks_producer_stop :: "nat option \<Rightarrow> mutex action list" where
  "locks_producer_stop thread = (case thread of None \<Rightarrow> [] | Some i \<Rightarrow> [Await i])"

definition locks_abortAllOperations :: "nat \<Rightarrow> nat option \<Rightarrow> mutex action list" where
  "locks_abortAllOperations k stop =
     [Acquire (m_w_mutex, k)] @ locks_producer_stop stop @ [Release (m_w_mutex, k)]"

definition locks_pool_destroy :: "nat \<Rightarrow> nat option \<Rightarrow> nat \<Rightarrow> mutex action list" where
  "locks_pool_destroy k stop thread =
     locks_producer_stop stop @ [Acquire (m_w_mutex, k), Release (m_w_mutex, k)] @
     locks_throttle_destroy k thread"

text \<open>\<open>setBufferPool\<close>, in the constructor of the pool, and \<open>getTotalBufferCount\<close> of the producer.\<close>

definition locks_setBufferPool :: "nat \<Rightarrow> mutex action list" where
  "locks_setBufferPool k = [Acquire (producer_mutex, k), Release (producer_mutex, k)]"

text \<open>The callback of the transfer, which pushes the buffers that have filled up.\<close>

definition locks_write_data :: "nat \<Rightarrow> nat \<Rightarrow> mutex action list" where
  "locks_write_data k pushes =
     [Acquire (writeLock, 0)] @ concat (replicate pushes (locks_pushBuffer k)) @ [Release (writeLock, 0)]"

section \<open>The sample plugin and the file system\<close>

definition locks_sample_open :: "nat \<Rightarrow> nat option \<Rightarrow> mutex action list" where
  "locks_sample_open i pool =
     [Acquire (mFopMutex, i)] @ (case pool of None \<Rightarrow> [] | Some k \<Rightarrow> locks_setBufferPool k) @
     [Release (mFopMutex, i)]"

definition locks_sample_read :: "nat \<Rightarrow> mutex action list \<Rightarrow> mutex action list" where
  "locks_sample_read i read = [Acquire (mFopMutex, i)] @ read @ [Release (mFopMutex, i)]"

definition locks_setAvailableStreams :: "nat \<Rightarrow> mutex action list" where
  "locks_setAvailableStreams i = [Acquire (guard, i), Release (guard, i)]"

definition locks_getNodes :: "nat \<Rightarrow> mutex action list" where
  "locks_getNodes i =
     [Acquire (mFileListLock, i), Acquire (guard, i), Release (guard, i), Release (mFileListLock, i)]"

definition locks_notifyUpdate :: "nat \<Rightarrow> mutex action list" where
  "locks_notifyUpdate i =
     [Acquire (guard, i), Acquire (mPollConfigMtx, 0), Release (mPollConfigMtx, 0), Release (guard, i)]"

definition locks_openCallback :: "nat \<Rightarrow> nat option \<Rightarrow> mutex action list" where
  "locks_openCallback i pool =
     [Acquire (mStateMtx, 0)] @ locks_getNodes i @ locks_sample_open i pool @ [Release (mStateMtx, 0)]"

definition locks_readCallback :: "nat \<Rightarrow> mutex action list \<Rightarrow> mutex action list" where
  "locks_readCallback i read =
     locks_getNodes i @ locks_sample_read i read @ [Acquire (mPollConfigMtx, 0), Release (mPollConfigMtx, 0)]"

definition locks_poll :: "nat \<Rightarrow> mutex action list" where
  "locks_poll i = locks_getNodes i @ [Acquire (mPollConfigMtx, 0), Release (mPollConfigMtx, 0)]"

text \<open>Each plugin that is loaded announces its streams in its constructor.\<close>

definition locks_loadPlugins :: "nat list \<Rightarrow> mutex action list" where
  "locks_loadPlugins plugins =
     [Acquire (mPluginMtx, 0)] @ concat (map locks_setAvailableStreams plugins) @ [Release (mPluginMtx, 0)]"

section \<open>Threads\<close>

datatype lock_op =
    OpLoad "nat list" | OpStreams nat | OpGetAttr nat | OpOpen nat "nat option"
  | OpRead nat nat nat nat nat bool nat | OpPoll nat | OpNotify nat
  | OpClear nat | OpClearToLastRead nat | OpAbort nat | OpTotalCount nat
  | OpDestroy nat "nat option" nat

fun op_locks :: "lock_op \<Rightarrow> mutex action list" where
  "op_locks (OpLoad is) = locks_loadPlugins is"
| "op_locks (OpStreams i) = locks_setAvailableStreams i"
| "op_locks (OpGetAttr i) = locks_getNodes i"
| "op_locks (OpOpen i pool) = locks_openCallback i pool"
| "op_locks (OpRead i k thread wakes len starts waits) =
     locks_readCallback i (locks_read k thread wakes len starts waits)"
| "op_locks (OpPoll i) = locks_poll i"
| "op_locks (OpNotify i) = locks_notifyUpdate i"
| "op_locks (OpClear k) = locks_clear k"
| "op_locks (OpClearToLastRead k) = locks_clearToLastRead k"
| "op_locks (OpAbort k) = locks_abortAllOperations k None"
| "op_locks (OpTotalCount k) = locks_setBufferPool k"
| "op_locks (OpDestroy k stop thread) = locks_pool_destroy k stop thread"

text \<open>
  A thread that calls operations, the thread of a sample producer (its callbacks, with the
  pushes of each, and the push of the rest), and the thread of a throttle.
\<close>

datatype role =
    Caller "lock_op list"
  | ProducerThread nat "nat list"
  | ThrottleThread nat "(bool \<times> bool) list"

fun role_locks :: "role \<Rightarrow> mutex action list" where
  "role_locks (Caller ops) = concat (map op_locks ops)"
| "role_locks (ProducerThread k ns) = concat (map (locks_write_data k) ns) @ locks_pushBuffer k"
| "role_locks (ThrottleThread k rs) = concat (map (locks_throttle_round k) rs)"

definition system :: "role list \<Rightarrow> mutex thread list" where
  "system rs = start_threads (map role_locks rs)"

text \<open>A call awaits the threads it is meant to await.\<close>

fun is_producer :: "role \<Rightarrow> bool" where
  "is_producer (ProducerThread k ns) \<longleftrightarrow> True"
| "is_producer _ \<longleftrightarrow> False"

fun is_throttle :: "role \<Rightarrow> bool" where
  "is_throttle (ThrottleThread k rs) \<longleftrightarrow> True"
| "is_throttle _ \<longleftrightarrow> False"

fun op_wf :: "role list \<Rightarrow> lock_op \<Rightarrow> bool" where
  "op_wf rs (OpRead i k thread wakes len starts waits) \<longleftrightarrow> thread < length rs \<and> is_throttle (rs ! thread)"
| "op_wf rs (OpDestroy k stop thread) \<longleftrightarrow>
     thread < length rs \<and> is_throttle (rs ! thread) \<and>
     (case stop of None \<Rightarrow> True | Some j \<Rightarrow> j < length rs \<and> is_producer (rs ! j))"
| "op_wf rs _ \<longleftrightarrow> True"

definition system_wf :: "role list \<Rightarrow> bool" where
  "system_wf rs \<longleftrightarrow> list_all (\<lambda>r. case r of Caller ops \<Rightarrow> list_all (op_wf rs) ops | _ \<Rightarrow> True) rs"

section \<open>The order\<close>

fun mutex_rank :: "mutex \<Rightarrow> nat" where
  "mutex_rank (mPluginMtx, i) = 1"
| "mutex_rank (mStateMtx, i) = 2"
| "mutex_rank (mFileListLock, i) = 3"
| "mutex_rank (guard, i) = 4"
| "mutex_rank (mPollConfigMtx, i) = 5"
| "mutex_rank (mFopMutex, i) = 6"
| "mutex_rank (m_mutex, i) = 7"
| "mutex_rank (writeLock, i) = 9"
| "mutex_rank (producer_mutex, i) = 10"
| "mutex_rank (m_w_mutex, i) = 11"
| "mutex_rank (mMutexSetReadPosition, i) = 12"
| "mutex_rank (mMutexTimePeriodBuffer, i) = 14"
| "mutex_rank (mCvStartThrottle_mutex, i) = 15"
| "mutex_rank (mCvThrottleChanged_mutex, i) = 15"
| "mutex_rank (mCvTimePeriodRegistered_mutex, i) = 15"

definition role_base :: "role list \<Rightarrow> nat \<Rightarrow> nat" where
  "role_base rs i =
     (if i < length rs
      then (case rs ! i of Caller ops \<Rightarrow> 0 | ProducerThread k ns \<Rightarrow> 8 | ThrottleThread k ns \<Rightarrow> 13)
      else 0)"

lemma base_producer: "j < length rs \<Longrightarrow> is_producer (rs ! j) \<Longrightarrow> role_base rs j = 8"
  by (cases "rs ! j") (simp_all add: role_base_def)

lemma base_throttle: "j < length rs \<Longrightarrow> is_throttle (rs ! j) \<Longrightarrow> role_base rs j = 13"
  by (cases "rs ! j") (simp_all add: role_base_def)

end
