(* ===== verification/Lock_Properties.thy ===== *)
theory Lock_Properties
  imports Program_Locks
begin

text \<open>
  Every operation of the program takes its mutexes in the order of \<open>mutex_rank\<close>, and the
  threads that are awaited take later ones only. So no interleaving of any number of threads
  gets stuck. The one call that breaks the order is the abort of a pool whose producer joins
  its thread.
\<close>

section \<open>Sections that leave the held mutexes alone\<close>

text \<open>A piece of a program that can be put in front of any other, under the same mutexes.\<close>

definition section_ok :: "role list \<Rightarrow> mutex list \<Rightarrow> mutex action list \<Rightarrow> bool" where
  "section_ok rs held p \<longleftrightarrow>
     (\<forall>q. ordered mutex_rank (role_base rs) held q \<longrightarrow> ordered mutex_rank (role_base rs) held (p @ q))"

lemma section_nil [simp]: "section_ok rs held []"
  by (simp add: section_ok_def)

lemma section_append: "section_ok rs held p \<Longrightarrow> section_ok rs held q \<Longrightarrow> section_ok rs held (p @ q)"
  by (simp add: section_ok_def)

lemma section_concat: "(\<And>p. p \<in> set ps \<Longrightarrow> section_ok rs held p) \<Longrightarrow> section_ok rs held (concat ps)"
  by (induction ps) (auto intro: section_append)

lemma section_locked:
  assumes "\<forall>h \<in> set held. mutex_rank h < mutex_rank l" and "section_ok rs (l # held) p"
  shows "section_ok rs held ([Acquire l] @ p @ [Release l])"
  using assms by (simp add: section_ok_def)

lemma section_ordered: "section_ok rs [] p \<Longrightarrow> ordered mutex_rank (role_base rs) [] p"
  using ordered.simps(1) [of mutex_rank "role_base rs" "[]"]
  unfolding section_ok_def by (metis append.right_neutral)

section \<open>The operations\<close>

lemma section_notify:
  "\<forall>h \<in> set held. mutex_rank h < mutex_rank c \<Longrightarrow> section_ok rs held (locks_notifyOne c)"
  by (simp add: section_ok_def locks_notifyOne_def)

lemma section_wait_for:
  "\<forall>h \<in> set held. mutex_rank h < mutex_rank c \<Longrightarrow> section_ok rs held (locks_wait_for c)"
  by (simp add: section_ok_def locks_wait_for_def)

lemma section_wait:
  "\<forall>h \<in> set held. mutex_rank h < mutex_rank c \<and> mutex_rank h \<le> role_base rs j \<Longrightarrow>
     section_ok rs held (locks_wait j c)"
  by (simp add: section_ok_def locks_wait_def)

lemma section_pair:
  "\<forall>h \<in> set held. mutex_rank h < mutex_rank c \<Longrightarrow> section_ok rs held [Acquire c, Release c]"
  by (simp add: section_ok_def)

lemma section_registerTimePeriod:
  "\<forall>h \<in> set held. mutex_rank h < 14 \<Longrightarrow> section_ok rs held (locks_registerTimePeriod k)"
  unfolding locks_registerTimePeriod_def by (rule section_locked, simp, rule section_notify, fastforce)

lemma section_setReadPosition:
  "\<forall>h \<in> set held. mutex_rank h < 12 \<Longrightarrow> section_ok rs held (locks_setReadPosition k)"
  unfolding locks_setReadPosition_def by (rule section_pair) simp

lemma section_throttle_wait:
  assumes "\<forall>h \<in> set held. mutex_rank h < 12" and "j < length rs" and "is_throttle (rs ! j)"
  shows "section_ok rs held (locks_throttle_wait k j starts waits)"
proof -
  let ?held = "(mMutexSetReadPosition, k) # held"
  have less: "\<forall>h \<in> set ?held. mutex_rank h < 13" using assms(1) by auto
  then have "section_ok rs ?held (if starts then locks_notifyOne (mCvStartThrottle_mutex, k) else [])"
    by (auto intro!: section_notify dest!: bspec)
  moreover have "\<forall>h \<in> set ?held. mutex_rank h < 15 \<and> mutex_rank h \<le> 13" using less by fastforce
  then have "section_ok rs ?held (locks_wait j (mCvThrottleChanged_mutex, k))"
    using assms(2,3) by (intro section_wait) (simp add: base_throttle)
  then have "section_ok rs ?held (concat (replicate waits (locks_wait j (mCvThrottleChanged_mutex, k))))"
    by (intro section_concat) simp
  ultimately show ?thesis
    using section_locked [of held "(mMutexSetReadPosition, k)" rs, OF _ section_append] assms(1)
    by (simp add: locks_throttle_wait_def)
qed

lemma section_throttle_clear:
  "\<forall>h \<in> set held. mutex_rank h < 14 \<Longrightarrow> section_ok rs held (locks_throttle_clear k)"
  unfolding locks_throttle_clear_def by (rule section_pair) simp

lemma section_throttle_round: "section_ok rs [] (locks_throttle_round k r)"
  unfolding locks_throttle_round_def
  by (intro section_append section_pair; cases "fst r"; cases "snd r")
     (simp_all add: section_notify section_wait_for)

lemma section_pushBuffer:
  "\<forall>h \<in> set held. mutex_rank h < 11 \<Longrightarrow> section_ok rs held (locks_pushBuffer k)"
  unfolding locks_pushBuffer_def
  by (auto intro!: section_append section_registerTimePeriod section_pair)

lemma section_setBufferPool:
  "\<forall>h \<in> set held. mutex_rank h < 10 \<Longrightarrow> section_ok rs held (locks_setBufferPool k)"
  unfolding locks_setBufferPool_def by (rule section_pair) simp

lemma section_write_data: "section_ok rs [] (locks_write_data k n)"
  unfolding locks_write_data_def
  by (rule section_locked) (auto intro!: section_concat section_pushBuffer)

text \<open>The mutex of the reader is given up and taken again while it waits.\<close>

lemma section_reacquire:
  "\<forall>h \<in> set held. mutex_rank h < mutex_rank l \<Longrightarrow> section_ok rs (l # held) [Release l, Acquire l]"
  by (simp add: section_ok_def)

lemma section_read:
  assumes "\<forall>h \<in> set held. mutex_rank h < 7" and "j < length rs" and "is_throttle (rs ! j)"
  shows "section_ok rs held (locks_read k j wakes len starts waits)"
proof -
  let ?held = "(m_mutex, k) # held"
  have less: "\<forall>h \<in> set ?held. mutex_rank h < 11" using assms(1) by auto
  have "section_ok rs ?held (concat (replicate wakes [Release (m_mutex, k), Acquire (m_mutex, k)]))"
    using assms(1) by (intro section_concat) (auto intro!: section_reacquire)
  moreover have "section_ok rs ?held
      ([Acquire (m_w_mutex, k)] @ concat (replicate len (locks_setReadPosition k)) @ [Release (m_w_mutex, k)])"
    using assms(1) by (intro section_locked section_concat) (auto intro!: section_setReadPosition dest!: bspec)
  moreover have "section_ok rs ?held (locks_throttle_wait k j starts waits)"
    using assms by (intro section_throttle_wait) auto
  ultimately have "section_ok rs ?held
      (concat (replicate wakes [Release (m_mutex, k), Acquire (m_mutex, k)]) @
       ([Acquire (m_w_mutex, k)] @ concat (replicate len (locks_setReadPosition k)) @ [Release (m_w_mutex, k)]) @
       locks_throttle_wait k j starts waits)"
    by (rule section_append [OF _ section_append])
  from section_locked [OF _ this] assms(1) show ?thesis by (simp add: locks_read_def)
qed

lemma section_clear: "section_ok rs [] (locks_clear k)"
  unfolding locks_clear_def by (rule section_locked) (auto intro!: section_throttle_clear)

lemma section_clearToLastRead: "section_ok rs [] (locks_clearToLastRead k)"
proof -
  have "section_ok rs [(m_mutex, k)]
      ([Acquire (m_w_mutex, k)] @ locks_throttle_clear k @ [Release (m_w_mutex, k)])"
    by (rule section_locked) (auto intro!: section_throttle_clear)
  from section_locked [OF _ this] show ?thesis by (simp add: locks_clearToLastRead_def)
qed

lemma section_producer_stop:
  "(case stop of None \<Rightarrow> True | Some j \<Rightarrow> \<forall>h \<in> set held. mutex_rank h \<le> role_base rs j) \<Longrightarrow>
     section_ok rs held (locks_producer_stop stop)"
  by (cases stop) (simp_all add: section_ok_def locks_producer_stop_def)

lemma section_abort: "section_ok rs [] (locks_abortAllOperations k None)"
  unfolding locks_abortAllOperations_def by (rule section_locked) (auto intro!: section_producer_stop)

lemma section_pool_destroy: "section_ok rs [] (locks_pool_destroy k stop j)"
proof -
  have "section_ok rs [] (locks_throttle_destroy k j)"
    unfolding locks_throttle_destroy_def
    by (intro section_append section_notify) (simp_all add: section_ok_def)
  moreover have "section_ok rs [] (locks_producer_stop stop)"
    by (rule section_producer_stop) (auto split: option.splits)
  moreover have "section_ok rs [] [Acquire (m_w_mutex, k), Release (m_w_mutex, k)]"
    by (rule section_pair) simp
  ultimately show ?thesis unfolding locks_pool_destroy_def by (intro section_append)
qed

lemma section_getNodes:
  "\<forall>h \<in> set held. mutex_rank h < 3 \<Longrightarrow> section_ok rs held (locks_getNodes i)"
  by (auto simp: section_ok_def locks_getNodes_def)

lemma section_sample_open:
  "\<forall>h \<in> set held. mutex_rank h < 6 \<Longrightarrow> section_ok rs held (locks_sample_open i pool)"
  unfolding locks_sample_open_def
  by (rule section_locked, simp) (auto intro!: section_setBufferPool split: option.splits dest!: bspec)

lemma section_openCallback: "section_ok rs [] (locks_openCallback i pool)"
proof -
  have "section_ok rs [(mStateMtx, 0)] (locks_getNodes i @ locks_sample_open i pool)"
    by (intro section_append section_getNodes section_sample_open) simp_all
  from section_locked [OF _ this] show ?thesis by (simp add: locks_openCallback_def)
qed

lemma section_readCallback:
  assumes "section_ok rs [(mFopMutex, i)] p"
  shows "section_ok rs [] (locks_readCallback i p)"
  unfolding locks_readCallback_def locks_sample_read_def
  by (intro section_append section_getNodes section_pair section_locked assms) simp_all

lemma section_op:
  assumes "op_wf rs a"
  shows "section_ok rs [] (op_locks a)"
proof (cases a)
  case (OpLoad "is")
  have "section_ok rs [(mPluginMtx, 0)] (concat (map locks_setAvailableStreams is))"
    by (rule section_concat) (auto simp: locks_setAvailableStreams_def intro!: section_pair)
  from section_locked [OF _ this] show ?thesis by (simp add: OpLoad locks_loadPlugins_def)
next
  case (OpRead i k j wakes len starts waits)
  then show ?thesis using assms by (auto intro!: section_readCallback section_read)
next
  case (OpPoll i)
  have "section_ok rs [] (locks_getNodes i @ [Acquire (mPollConfigMtx, 0), Release (mPollConfigMtx, 0)])"
    by (intro section_append section_getNodes section_pair) simp_all
  then show ?thesis by (simp add: OpPoll locks_poll_def)
qed (simp_all add: section_getNodes section_openCallback section_clear section_clearToLastRead section_abort
      section_setBufferPool section_pool_destroy, simp_all add: section_ok_def locks_setAvailableStreams_def
      locks_notifyUpdate_def)

section \<open>What the threads ask for\<close>

lemma above_concat:
  "(\<And>p. p \<in> set ps \<Longrightarrow> list_all (above rank base b) p) \<Longrightarrow> list_all (above rank base b) (concat ps)"
  by (induction ps) auto

lemmas lock_lists =
  locks_notifyOne_def locks_wait_for_def locks_wait_def locks_registerTimePeriod_def locks_setReadPosition_def
  locks_throttle_wait_def locks_throttle_clear_def locks_throttle_destroy_def locks_throttle_round_def
  locks_read_def locks_pushBuffer_def locks_clear_def locks_clearToLastRead_def locks_producer_stop_def
  locks_abortAllOperations_def locks_pool_destroy_def locks_setBufferPool_def locks_write_data_def
  locks_sample_open_def locks_sample_read_def locks_setAvailableStreams_def locks_getNodes_def
  locks_notifyUpdate_def locks_openCallback_def locks_readCallback_def locks_poll_def locks_loadPlugins_def

lemma rank_positive [simp]: "0 < mutex_rank l"
  by (cases l rule: mutex_rank.cases) simp_all

lemma above_push: "list_all (above mutex_rank (role_base rs) 8) (locks_pushBuffer k)"
  by (simp add: lock_lists)

lemma above_producer: "list_all (above mutex_rank (role_base rs) 8) (locks_write_data k n)"
  unfolding locks_write_data_def by (auto intro!: above_concat simp: above_push)

lemma above_throttle: "list_all (above mutex_rank (role_base rs) 13) (locks_throttle_round k r)"
  by (simp add: lock_lists)

lemma above_op: "op_wf rs a \<Longrightarrow> list_all (above mutex_rank (role_base rs) 0) (op_locks a)"
  by (cases a)
     (auto simp: lock_lists base_throttle base_producer intro!: above_concat split: option.splits)

lemma role_disciplined:
  assumes "system_wf rs" and "i < length rs"
  shows "ordered mutex_rank (role_base rs) [] (role_locks (rs ! i)) \<and>
         list_all (above mutex_rank (role_base rs) (role_base rs i)) (role_locks (rs ! i))"
proof (cases "rs ! i")
  case (Caller ops)
  then have "list_all (op_wf rs) ops" using assms by (auto simp: system_wf_def list_all_length)
  then show ?thesis
    using assms(2) Caller
    by (auto simp: role_base_def list.pred_set intro!: section_ordered section_concat section_op
        above_op [unfolded list.pred_set, rule_format])
next
  case (ProducerThread k ns)
  then show ?thesis
    using assms(2)
    by (auto simp: role_base_def above_push intro!: section_ordered section_append section_concat section_write_data
        section_pushBuffer above_concat above_producer)
next
  case (ThrottleThread k ns)
  then show ?thesis
    using assms(2)
    by (auto simp: role_base_def intro!: section_ordered section_concat section_throttle_round above_concat
        above_throttle)
qed

section \<open>No deadlock\<close>


text \<open>
  Two readers of a stream, one of which also opens it, polls it and clears its pool, with the
  producer and the throttle of the pool: the first reader is in the middle of its read.
\<close>

definition demo_system :: "role list" where
  "demo_system =
     [Caller [OpOpen 0 (Some 0), OpRead 0 0 3 1 2 True 1, OpPoll 0, OpClearToLastRead 0, OpDestroy 0 (Some 2) 3],
      Caller [OpRead 0 0 3 0 1 False 0, OpGetAttr 0, OpAbort 0],
      ProducerThread 0 [1, 2], ThrottleThread 0 [(True, False), (False, True)]]"

lemma demo_system_run: "\<exists>s. thread_run (replicate 29 0 @ [1, 1, 3, 3, 2, 2]) (system demo_system) = Some s"
  by (simp add: system_def demo_system_def lock_lists start_threads_def numeral_nat thread_step_def held_somewhere_def)


section \<open>The abort of a pool whose producer joins its thread\<close>

definition abort_waits :: "nat \<Rightarrow> mutex thread list \<Rightarrow> bool" where
  "abort_waits k s \<longleftrightarrow>
     1 < length s \<and> s ! 0 = ([Await 1, Release (m_w_mutex, k)], [(m_w_mutex, k)]) \<and>
     Acquire (m_w_mutex, k) \<in> set (fst (s ! 1))"

lemma abort_waits_step:
  assumes "abort_waits k s" and "thread_step i s = Some s'"
  shows "abort_waits k s'"
proof -
  have held: "held_somewhere (m_w_mutex, k) s"
    unfolding held_somewhere_def list_ex_length by (rule exI [of _ 0]) (use assms(1) in \<open>auto simp: abort_waits_def\<close>)
  obtain p h t where i: "i < length s" "s ! i = (p, h)" "perform s (p, h) = Some t" "s' = s[i := t]"
    using assms(2) by (cases "s ! i") (auto simp: thread_step_def split: if_splits)
  have "i \<noteq> 0"
  proof
    assume "i = 0"
    with i assms(1) show False by (auto simp: abort_waits_def split: if_splits)
  qed
  moreover have "Acquire (m_w_mutex, k) \<in> set (fst t)" if "i = 1"
    using that i held assms(1)
    by (cases "(s, p, h)" rule: perform.cases) (auto simp: abort_waits_def split: if_splits)
  ultimately show ?thesis
    using i assms(1) by (auto simp: abort_waits_def nth_list_update)
qed

lemma abort_waits_run: "abort_waits k s \<Longrightarrow> thread_run is s = Some s' \<Longrightarrow> abort_waits k s'"
  by (induction "is" arbitrary: s) (auto split: option.splits intro: abort_waits_step)

text \<open>
  C20: The abort of a pool waits for the thread of the producer while it holds the lock this
  thread needs for its next push, and a transfer always ends with a push. So once the abort
  has the lock, neither the abort nor the thread of the producer ever ends, whatever other
  threads do.
\<close>

theorem abort_join_deadlocks:
  assumes "thread_run (0 # is)
      (start_threads (locks_abortAllOperations k (Some 1) # role_locks (ProducerThread k ns) # others)) = Some s"
  shows "fst (s ! 0) \<noteq> [] \<and> fst (s ! 1) \<noteq> []"
proof -
  let ?ps = "locks_abortAllOperations k (Some 1) # role_locks (ProducerThread k ns) # others"
  let ?s1 = "([Await 1, Release (m_w_mutex, k)], [(m_w_mutex, k)]) # tl (start_threads ?ps)"
  have free: "\<not> held_somewhere l (map (\<lambda>p. (p, [])) ps)" for l and ps :: "mutex action list list"
    by (simp add: held_somewhere_def list_ex_iff)
  have "thread_step 0 (start_threads ?ps) = Some ?s1"
    using free [of "(m_w_mutex, k)" ?ps]
    by (simp add: thread_step_def start_threads_def locks_abortAllOperations_def locks_producer_stop_def)
  moreover have "abort_waits k ?s1"
    by (simp add: abort_waits_def start_threads_def lock_lists)
  ultimately have "abort_waits k s" using assms by (auto intro: abort_waits_run)
  then show ?thesis by (auto simp: abort_waits_def)
qed

theorem abort_join_deadlocks_witness:
  "\<exists>s. thread_run [0, 1, 1, 1, 1, 1]
       (start_threads [locks_abortAllOperations 0 (Some 1), role_locks (ProducerThread 0 [1])]) = Some s \<and>
     fst (s ! 0) \<noteq> [] \<and> fst (s ! 1) \<noteq> [] \<and> stuck s"
proof -
  let ?ps = "[locks_abortAllOperations 0 (Some 1), role_locks (ProducerThread 0 [1])]"
  have "\<exists>s. thread_run [0, 1, 1, 1, 1, 1] (start_threads ?ps) = Some s \<and> stuck s"
    by (simp add: lock_lists start_threads_def thread_step_def held_somewhere_def stuck_def all_done_def)
  then obtain s where s: "thread_run [0, 1, 1, 1, 1, 1] (start_threads ?ps) = Some s" "stuck s" by blast
  from abort_join_deadlocks [OF s(1)] s show ?thesis by blast
qed

end
