(* ===== verification/Pool_Tests.thy ===== *)
theory Pool_Tests
  imports Sample_Plugin
begin

text \<open>
  The repository's tests of the buffer pool (tests/test_main.cpp), each body as a definition:
  the result is whether every assertion of the body held, or the fault the body runs into.
  \<open>clock i\<close> is the time of the \<open>i\<close>-th push of a test, \<open>garbage\<close> the content of what a test
  does not initialise. The workers of a test push while the test's read waits.
\<close>

section \<open>The fixture\<close>

definition BUFFER_POOL_CAPACITY :: u64 where
  "BUFFER_POOL_CAPACITY = LIVE_POSITION_THRESHOLD_INDEX + READ_AHEAD_COUNT + 50"

record ('c, 't) pool_test =
  fx_pool :: "('c, 't) pool"
  bufferReceivedCount_g :: u32

definition SetUp :: "('c, buffer_chunk) circ_ops \<Rightarrow> ('t, u32) circ_ops \<Rightarrow> ('c, 't) pool_test" where
  "SetUp C T = \<lparr>fx_pool = pool_new C T BUFFER_POOL_CAPACITY, bufferReceivedCount_g = 0\<rparr>"

definition test_newBufferAvailable :: "buffer_chunk \<Rightarrow> ('c, 't) pool_test \<Rightarrow> ('c, 't) pool_test" where
  "test_newBufferAvailable buffer s = s\<lparr>bufferReceivedCount_g := bufferReceivedCount_g s + 1\<rparr>"

text \<open>\<open>queueBuffer\<close> of the producer, with the consumer's callback.\<close>

definition test_queue ::
  "('c, buffer_chunk) circ_ops \<Rightarrow> ('t, u32) circ_ops \<Rightarrow> int \<Rightarrow> buffer_chunk \<Rightarrow> bool \<Rightarrow> u64 \<Rightarrow>
     ('c, 't) pool_test \<Rightarrow> ('c, 't) pool_test outcome" where
  "test_queue C T now chunk lastBuffer lastBufferSize s =
     andthen (pushBuffer C T now chunk lastBuffer lastBufferSize (fx_pool s)) (\<lambda>(front, p).
       let s' = s\<lparr>fx_pool := p\<rparr>
       in Inr (case front of None \<Rightarrow> s' | Some buffer \<Rightarrow> test_newBufferAvailable buffer s'))"

fun test_fill ::
  "('c, buffer_chunk) circ_ops \<Rightarrow> ('t, u32) circ_ops \<Rightarrow> (nat \<Rightarrow> int) \<Rightarrow> buffer_chunk \<Rightarrow> nat \<Rightarrow>
     ('c, 't) pool_test \<Rightarrow> ('c, 't) pool_test outcome" where
  "test_fill C T clock chunk 0 s = Inr s"
| "test_fill C T clock chunk (Suc n) s =
     andthen (test_queue C T (clock 0) chunk False 0 s) (test_fill C T (clock \<circ> Suc) chunk n)"

definition test_read ::
  "('c, buffer_chunk) circ_ops \<Rightarrow> ('t, u32) circ_ops \<Rightarrow> schedule \<Rightarrow> u8 list \<Rightarrow> u64 \<Rightarrow> u64 \<Rightarrow>
     ('c, 't) pool_test \<Rightarrow> (u64 option \<times> u8 list \<times> ('c, 't) pool_test) outcome" where
  "test_read C T sched out len offset s =
     andthen (read C T sched len offset 0 0 out (fx_pool s)) (\<lambda>(ret, out', p).
       Inr (ret, out', s\<lparr>fx_pool := p\<rparr>))"

definition test_readRandomAccess ::
  "('c, buffer_chunk) circ_ops \<Rightarrow> ('t, u32) circ_ops \<Rightarrow> u8 list \<Rightarrow> u64 \<Rightarrow> u64 \<Rightarrow>
     ('c, 't) pool_test \<Rightarrow> (u64 option \<times> u8 list \<times> ('c, 't) pool_test) outcome" where
  "test_readRandomAccess C T out n offset s =
     andthen (readRandomAccess C T undisturbed out n offset (fx_pool s)) (\<lambda>(ret, out', p).
       Inr (ret, out', s\<lparr>fx_pool := p\<rparr>))"

text \<open>A worker that pushes the chunks one by one while the read waits.\<close>

definition worker :: "(int \<times> buffer_chunk) list \<Rightarrow> schedule" where
  "worker cs = \<lparr>duringWait = map push_batch cs, beforeCopy = [], duringThrottle = []\<rparr>"

text \<open>An assertion that fails ends the test. \<open>memcmp\<close> must not read behind its objects.\<close>

definition ASSERT :: "bool \<Rightarrow> bool outcome \<Rightarrow> bool outcome" where
  "ASSERT b rest = (if b then rest else Inr False)"

definition memcmp_eq :: "u8 list \<Rightarrow> u8 list \<Rightarrow> nat \<Rightarrow> bool outcome" where
  "memcmp_eq xs ys n =
     (if length xs < n \<or> length ys < n then Inl SourceOverrun else Inr (take n xs = take n ys))"

definition ASSERT_SAME :: "u8 list \<Rightarrow> u8 list \<Rightarrow> nat \<Rightarrow> bool outcome \<Rightarrow> bool outcome" where
  "ASSERT_SAME xs ys n rest = andthen (memcmp_eq xs ys n) (\<lambda>b. ASSERT b rest)"

definition buffer_is_empty :: "u8 list \<Rightarrow> nat \<Rightarrow> bool outcome" where
  "buffer_is_empty buf n = memcmp_eq (replicate n 0) buf n"

definition ASSERT_EMPTY :: "u8 list \<Rightarrow> nat \<Rightarrow> bool outcome \<Rightarrow> bool outcome" where
  "ASSERT_EMPTY buf n rest = andthen (buffer_is_empty buf n) (\<lambda>b. ASSERT b rest)"

section \<open>The tests\<close>

definition PassSingleElement ::
  "('c, buffer_chunk) circ_ops \<Rightarrow> ('t, u32) circ_ops \<Rightarrow> (nat \<Rightarrow> int) \<Rightarrow> buffer_chunk \<Rightarrow> bool outcome" where
  "PassSingleElement C T clock garbage =
     andthen (test_queue C T (clock 0) garbage False 0 (SetUp C T)) (\<lambda>s1.
       ASSERT (bufferReceivedCount_g s1 = 1)
         (andthen (test_queue C T (clock 1) garbage False 0 s1) (\<lambda>s2.
            ASSERT (bufferReceivedCount_g s2 = 2)
              (ASSERT (getSize C (fx_pool s2) = 2)
                (ASSERT (getCapacity C (fx_pool s2) = BUFFER_POOL_CAPACITY) (Inr True))))))"

definition ReadSingleElement ::
  "('c, buffer_chunk) circ_ops \<Rightarrow> ('t, u32) circ_ops \<Rightarrow> (nat \<Rightarrow> int) \<Rightarrow> buffer_chunk \<Rightarrow> bool outcome" where
  "ReadSingleElement C T clock garbage =
     (let chunk = chunk_fill 9
      in andthen (test_queue C T (clock 0) chunk False 0 (SetUp C T)) (\<lambda>s1.
         andthen (test_read C T undisturbed (chunk_data garbage) 1 0 s1) (\<lambda>(res, outPut, s2).
           ASSERT (chunk = chunk_of outPut) (Inr True))))"

definition ReadMultipleElement ::
  "('c, buffer_chunk) circ_ops \<Rightarrow> ('t, u32) circ_ops \<Rightarrow> (nat \<Rightarrow> int) \<Rightarrow> buffer_chunk \<Rightarrow> bool outcome" where
  "ReadMultipleElement C T clock garbage =
     (let chunk1 = chunk_fill 8; chunk2 = chunk_fill 9
      in andthen (test_queue C T (clock 0) chunk1 False 0 (SetUp C T)) (\<lambda>s1.
         andthen (test_queue C T (clock 1) chunk2 False 0 s1) (\<lambda>s2.
         andthen (test_read C T undisturbed (chunk_data garbage @ chunk_data garbage) 2 0 s2)
           (\<lambda>(res, outputBytes, s3).
             ASSERT_SAME outputBytes (chunk_data chunk1) 9024
               (ASSERT_SAME (drop 9024 outputBytes) (chunk_data chunk2) 9024 (Inr True))))))"

text \<open>
  The loop over the offsets; the first comparison starts at the offset inside the first chunk.
\<close>

fun unaligned_loop ::
  "('c, buffer_chunk) circ_ops \<Rightarrow> ('t, u32) circ_ops \<Rightarrow> buffer_chunk \<Rightarrow> buffer_chunk \<Rightarrow> nat list \<Rightarrow>
     u8 list \<Rightarrow> ('c, 't) pool_test \<Rightarrow> bool outcome" where
  "unaligned_loop C T chunk1 chunk2 [] outputBytes s = Inr True"
| "unaligned_loop C T chunk1 chunk2 (OFFS # rest) outputBytes s =
     andthen (test_readRandomAccess C T outputBytes 9024 (of_nat OFFS) s) (\<lambda>(res, out, s').
       ASSERT (res = Some 9024)
         (ASSERT_SAME out (drop OFFS (chunk_data chunk1)) OFFS
           (ASSERT_SAME (drop (9024 - OFFS) out) (chunk_data chunk2) OFFS
             (unaligned_loop C T chunk1 chunk2 rest out s'))))"

definition ReadUnalignedMultipleElement ::
  "('c, buffer_chunk) circ_ops \<Rightarrow> ('t, u32) circ_ops \<Rightarrow> (nat \<Rightarrow> int) \<Rightarrow> buffer_chunk \<Rightarrow> bool outcome" where
  "ReadUnalignedMultipleElement C T clock garbage =
     (let chunk1 = chunk_fill 8; chunk2 = chunk_fill 9
      in andthen (test_queue C T (clock 0) chunk1 False 0 (SetUp C T)) (\<lambda>s1.
         andthen (test_queue C T (clock 1) chunk2 False 0 s1) (\<lambda>s2.
           unaligned_loop C T chunk1 chunk2 [0..<9024] (chunk_data garbage) s2)))"

definition ClearBufferEnd ::
  "('c, buffer_chunk) circ_ops \<Rightarrow> ('t, u32) circ_ops \<Rightarrow> (nat \<Rightarrow> int) \<Rightarrow> bool outcome" where
  "ClearBufferEnd C T clock =
     (let chunk1 = chunk_fill 8; chunk2 = chunk_fill 9
      in andthen (test_queue C T (clock 0) chunk1 False 0 (SetUp C T)) (\<lambda>s1.
         andthen (test_queue C T (clock 1) chunk1 False 0 s1) (\<lambda>s2.
         andthen (test_read C T undisturbed (replicate 9024 0) 1 0 s2) (\<lambda>(result, outputBytes, s3).
           ASSERT_SAME outputBytes (chunk_data chunk1) 9024
             (andthen (clearToLastRead C T (fx_pool s3)) (\<lambda>p.
              andthen (test_queue C T (clock 2) chunk2 False 0 (s3\<lparr>fx_pool := p\<rparr>)) (\<lambda>s4.
              andthen (test_read C T undisturbed outputBytes 1 1 s4) (\<lambda>(result, outputBytes, s5).
                ASSERT_SAME outputBytes (chunk_data chunk2) 9024 (Inr True)))))))))"

definition ReadMultipleNonAlligned ::
  "('c, buffer_chunk) circ_ops \<Rightarrow> ('t, u32) circ_ops \<Rightarrow> (nat \<Rightarrow> int) \<Rightarrow> bool outcome" where
  "ReadMultipleNonAlligned C T clock =
     (let chunk1 = chunk_fill 8; chunk2 = chunk_fill 9; LAST_BUFFER_SIZE = 20
      in andthen (test_queue C T (clock 0) chunk1 False 0 (SetUp C T)) (\<lambda>s1.
         andthen (test_queue C T (clock 1) chunk2 True (of_nat LAST_BUFFER_SIZE) s1) (\<lambda>s2.
           let outputBytes = replicate (2 * 9024) 0
           in ASSERT_EMPTY (drop LAST_BUFFER_SIZE outputBytes) (9024 - LAST_BUFFER_SIZE)
                (andthen (test_read C T undisturbed outputBytes 2 0 s2) (\<lambda>(result, outputBytes, s3).
                  ASSERT (result = Some (9024 + of_nat LAST_BUFFER_SIZE))
                    (ASSERT_SAME outputBytes (chunk_data chunk1) 9024
                      (ASSERT_SAME (drop 9024 outputBytes) (chunk_data chunk2) LAST_BUFFER_SIZE
                        (ASSERT_EMPTY (drop (9024 + LAST_BUFFER_SIZE) outputBytes) (9024 - LAST_BUFFER_SIZE)
                          (Inr True)))))))))"

definition LockUntilBufferAvailable ::
  "('c, buffer_chunk) circ_ops \<Rightarrow> ('t, u32) circ_ops \<Rightarrow> (nat \<Rightarrow> int) \<Rightarrow> bool outcome" where
  "LockUntilBufferAvailable C T clock =
     (let chunk1 = chunk_fill 8; chunk2 = chunk_fill 9
      in andthen (test_queue C T (clock 0) chunk1 False 0 (SetUp C T)) (\<lambda>s1.
         andthen (test_read C T (worker [(clock 1, chunk2)]) (replicate (2 * 9024) 0) 2 0 s1)
           (\<lambda>(result, outputBytes, s2).
             ASSERT_SAME outputBytes (chunk_data chunk1) 9024
               (ASSERT_SAME (drop 9024 outputBytes) (chunk_data chunk2) 9024 (Inr True)))))"

definition LockUntilBufferAvailableStartEmpty ::
  "('c, buffer_chunk) circ_ops \<Rightarrow> ('t, u32) circ_ops \<Rightarrow> (nat \<Rightarrow> int) \<Rightarrow> bool outcome" where
  "LockUntilBufferAvailableStartEmpty C T clock =
     (let chunk1 = chunk_fill 8
      in andthen (test_read C T (worker [(clock 0, chunk1)]) (replicate 9024 0) 1 0 (SetUp C T))
           (\<lambda>(result, outputBytes, s1). ASSERT_SAME outputBytes (chunk_data chunk1) 9024 (Inr True)))"

text \<open>The worker of this test pushes one more chunk after the read, which nothing looks at.\<close>

definition ReadOverWriteBuffer ::
  "('c, buffer_chunk) circ_ops \<Rightarrow> ('t, u32) circ_ops \<Rightarrow> (nat \<Rightarrow> int) \<Rightarrow> bool outcome" where
  "ReadOverWriteBuffer C T clock =
     (let chunk1 = chunk_fill 8; chunk2 = chunk_fill 9; allocSize = BUFFER_POOL_CAPACITY
      in andthen (test_fill C T clock chunk1 (unat allocSize) (SetUp C T)) (\<lambda>s1.
         andthen (test_queue C T (clock 90) chunk2 False 0 s1) (\<lambda>s2.
         andthen (test_read C T undisturbed (replicate 9024 0) 1 allocSize s2) (\<lambda>(result, outputBytes, s3).
           ASSERT (result = Some (1 * BUFFER_CHUNK_SIZE))
             (ASSERT_SAME outputBytes (chunk_data chunk2) 9024
               (andthen (test_queue C T (clock 91) chunk2 False 0 s3) (\<lambda>s4. Inr True)))))))"

definition ReadOverWriteBufferWithLock ::
  "('c, buffer_chunk) circ_ops \<Rightarrow> ('t, u32) circ_ops \<Rightarrow> (nat \<Rightarrow> int) \<Rightarrow> bool outcome" where
  "ReadOverWriteBufferWithLock C T clock =
     (let chunk1 = chunk_fill 8; chunk2 = chunk_fill 9; chunk3 = chunk_fill 10;
          allocSize = BUFFER_POOL_CAPACITY
      in andthen (test_fill C T clock chunk1 (unat allocSize) (SetUp C T)) (\<lambda>s1.
         andthen (test_read C T (worker [(clock 90, chunk2), (clock 91, chunk3)]) (replicate (2 * 9024) 0)
                    2 allocSize s1) (\<lambda>(result, outputBytes, s2).
           ASSERT (result = Some (2 * BUFFER_CHUNK_SIZE))
             (ASSERT_SAME outputBytes (chunk_data chunk2) 9024
               (ASSERT_SAME (drop 9024 outputBytes) (chunk_data chunk3) 9024 (Inr True))))))"

definition ReadWrongLenght ::
  "('c, buffer_chunk) circ_ops \<Rightarrow> ('t, u32) circ_ops \<Rightarrow> (nat \<Rightarrow> int) \<Rightarrow> bool outcome" where
  "ReadWrongLenght C T clock =
     (let chunk1 = chunk_fill 8; allocSize = BUFFER_POOL_CAPACITY
      in andthen (test_queue C T (clock 0) chunk1 False 0 (SetUp C T)) (\<lambda>s1.
         andthen (test_read C T undisturbed (replicate (2 * 9024) 0) (allocSize + 2) 0 s1)
           (\<lambda>(result, outputBytes, s2). ASSERT (result = Some 0) (Inr True))))"

definition ReadAfterLastItemReturnsEmpty ::
  "('c, buffer_chunk) circ_ops \<Rightarrow> ('t, u32) circ_ops \<Rightarrow> (nat \<Rightarrow> int) \<Rightarrow> bool outcome" where
  "ReadAfterLastItemReturnsEmpty C T clock =
     (let chunk1 = chunk_fill 8; LAST_BUF_SIZE = 10
      in andthen (test_queue C T (clock 0) chunk1 False 0 (SetUp C T)) (\<lambda>s1.
         andthen (test_queue C T (clock 1) chunk1 True LAST_BUF_SIZE s1) (\<lambda>s2.
         andthen (test_read C T undisturbed (replicate (2 * 9024) 0) 2 0 s2) (\<lambda>(result, outputBytes, s3).
           ASSERT (result = Some (LAST_BUF_SIZE + 9024))
             (andthen (test_read C T undisturbed outputBytes 2 2 s3) (\<lambda>(result, outputBytes, s4).
               ASSERT (result = Some 0) (Inr True)))))))"

end
