(* ===== verification/Pool_Tests_Correct.thy ===== *)
theory Pool_Tests_Correct
  imports Pool_Tests
begin

text \<open>
  The tests of the repository hold in the model, under every implementation of the circular
  buffer, at all times of the pushes. One of them compares memory behind the end of a chunk;
  it is shown to do so.
\<close>

section \<open>The pool in the tests\<close>

text \<open>
  The pool of a test: what was pushed, the size of the last buffer if that has come, and a
  reader that has not used up its read-ahead.
\<close>

definition test_pool ::
  "('c, buffer_chunk) circ_ops \<Rightarrow> ('t, u32) circ_ops \<Rightarrow> buffer_chunk list \<Rightarrow> u64 option \<Rightarrow> ('c, 't) pool \<Rightarrow> bool" where
  "test_pool C T stream closed p \<longleftrightarrow>
     pool_holds C stream p \<and> cb_capacity C (mCircBuf p) = 90 \<and> \<not> exitPending p \<and> \<not> mAborting p \<and>
     mGotLastBuffer p = (closed \<noteq> None) \<and> (\<forall>n. closed = Some n \<longrightarrow> mLastBufferSize p = n) \<and>
     mReadAheadCount (mThrottle p) = 0 \<and>
     length (cb_elems T (mTimePeriodBuffer (mThrottle p))) = min 90 (length stream) \<and>
     cb_capacity T (mTimePeriodBuffer (mThrottle p)) = 90"

lemma capacity_90: "BUFFER_POOL_CAPACITY = 90"
  by (simp add: BUFFER_POOL_CAPACITY_def throttle_constants)

lemma cases_memcmp [simp]:
  "memcmp_eq (xs @ ys) zs n = Inr (take n (xs @ ys) = take n zs)" if "n \<le> length xs" "n \<le> length zs"
  using that by (simp add: memcmp_eq_def)

context boost_rings
begin

lemma test_pool_new: "test_pool C T [] None (fx_pool (SetUp C T))"
  by (simp add: test_pool_def SetUp_def capacity_90 pool_holds_def pool_new_def throttle_new_def cr.capacity_new)

lemma test_queue_ok:
  assumes "test_pool C T stream closed (fx_pool s)" and "length stream < 1000"
  shows "\<exists>s'. test_queue C T now b lastBuffer n s = Inr s' \<and>
           test_pool C T (stream @ [b]) (if lastBuffer then Some n else closed) (fx_pool s') \<and>
           bufferReceivedCount_g s' = bufferReceivedCount_g s + 1 \<and>
           (thread_running (mThrottle (fx_pool s)) \<longrightarrow> thread_running (mThrottle (fx_pool s')))"
proof -
  let ?p = "fx_pool s"
  let ?p' = "push_register T now ?p"
  have p: "pool_holds C stream ?p" "cb_capacity C (mCircBuf ?p) = 90" "\<not> exitPending ?p" "\<not> mAborting ?p"
    "mGotLastBuffer ?p = (closed \<noteq> None)" "\<forall>n. closed = Some n \<longrightarrow> mLastBufferSize ?p = n"
    "mReadAheadCount (mThrottle ?p) = 0"
    "length (cb_elems T (mTimePeriodBuffer (mThrottle ?p))) = min 90 (length stream)"
    "cb_capacity T (mTimePeriodBuffer (mThrottle ?p)) = 90"
    using assms(1) by (simp_all add: test_pool_def)
  have "pool_holds C stream ?p'" "0 < capacity ?p'"
    using p by (simp_all add: pool_holds_def push_register_def)
  moreover have "length stream + 1 < 2 ^ 64" using assms(2) by simp
  ultimately obtain q where
    q: "push_commit C b lastBuffer n ?p' = Inr (hd (chunks q), q)" "pool_holds C (stream @ [b]) q"
    "capacity q = capacity ?p'" "mGotLastBuffer q = (mGotLastBuffer ?p' \<or> lastBuffer)"
    "mLastBufferSize q = (if lastBuffer then n else mLastBufferSize ?p')" "mThrottle q = mThrottle ?p'"
    "mAborting q = mAborting ?p'" "exitPending q = exitPending ?p'"
    using push_commit_ok [of stream ?p' b lastBuffer n] by blast
  have thr: "mThrottle q = registerTimePeriod T now (mThrottle ?p)" using q(6) by (simp add: push_register_def)
  have "cb_capacity C (mCircBuf q) = 90"
    using q(3) p(2) by (simp add: push_register_def word_unat_eq_iff)
  moreover have "length (cb_elems T (mTimePeriodBuffer (mThrottle q))) = min 90 (length (stream @ [b]))"
    unfolding thr register_length p(8,9) by simp
  ultimately have "test_pool C T (stream @ [b]) (if lastBuffer then Some n else closed) q"
    using q p by (auto simp: test_pool_def thr push_register_def)
  then show ?thesis
    using q(1) p(3) thr
    by (simp add: test_queue_def pushBuffer_def test_newBufferAvailable_def Let_def thread_running_register)
qed

lemma test_fill_ok:
  assumes "test_pool C T stream closed (fx_pool s)" and "length stream + n < 1000"
  shows "\<exists>s'. test_fill C T clock b n s = Inr s' \<and> test_pool C T (stream @ replicate n b) closed (fx_pool s') \<and>
           (thread_running (mThrottle (fx_pool s)) \<longrightarrow> thread_running (mThrottle (fx_pool s')))"
  using assms
proof (induction n arbitrary: clock stream s)
  case 0
  then show ?case by simp
next
  case (Suc n)
  then have "length stream < 1000" by simp
  from test_queue_ok [OF Suc.prems(1) this, of "clock 0" b False 0] obtain s1 where
    s1: "test_queue C T (clock 0) b False 0 s = Inr s1" "test_pool C T (stream @ [b]) closed (fx_pool s1)"
    "thread_running (mThrottle (fx_pool s)) \<longrightarrow> thread_running (mThrottle (fx_pool s1))" by auto
  have "length (stream @ [b]) + n < 1000" using Suc.prems(2) by simp
  from Suc.IH [OF s1(2) this, of "clock \<circ> Suc"] obtain s' where
    "test_fill C T (clock \<circ> Suc) b n s1 = Inr s'" "test_pool C T ((stream @ [b]) @ replicate n b) closed (fx_pool s')"
    "thread_running (mThrottle (fx_pool s1)) \<longrightarrow> thread_running (mThrottle (fx_pool s'))" by blast
  with s1 show ?case by auto
qed

text \<open>
  A read of chunks that are there, by a reader that still has its read-ahead. When the chunks
  are few, the reader is also near the live position, and its read-ahead is not touched.
\<close>

lemma fresh_reader: "mReadAheadCount (mThrottle p) = 0 \<Longrightarrow> \<not> throttled C T len offset p"
  by (rule fresh_unthrottled)

lemma test_read_ok:
  assumes "test_pool C T stream None (fx_pool s)" and "0 < len" and "unat offset + unat len \<le> length stream"
    and "length stream - unat offset \<le> 90" and "unat len * 9024 \<le> length out" and "length out < 2 ^ 31"
  shows "test_read C T undisturbed out len offset s =
           Inr (Some (of_nat (unat len * 9024)),
                range_bytes stream (unat len) (unat offset) 0 0 @ drop (unat len * 9024) out,
                s\<lparr>fx_pool := after_read C T len offset (fx_pool s)\<rparr>)"
proof -
  let ?p = "fx_pool s"
  have p: "pool_holds C stream ?p" "\<not> exitPending ?p" "\<not> mGotLastBuffer ?p" "mReadAheadCount (mThrottle ?p) = 0"
    "unat (cb_capacity C (mCircBuf ?p)) = 90"
    using assms(1) by (simp_all add: test_pool_def)
  have pad: "padding_ok len 0 0" using assms(2) by (simp add: padding_ok_def)
  have "length stream - unat offset \<le> unat (cb_capacity C (mCircBuf ?p))" using assms(4) p(5) by simp
  from read_range [OF p(1,2) pad assms(3) this, of out undisturbed] p(3) assms(5,6) fresh_reader [OF p(4)]
  show ?thesis by (simp add: test_read_def whole_chunks_def undisturbed_def Let_def)
qed

lemma live_after_read:
  assumes "test_pool C T stream None p" and "length stream \<le> 10" and "0 < len"
    and "unat offset + unat len \<le> length stream"
  shows "test_pool C T stream None (after_read C T len offset p)"
    and "unat (mLastReadLocation (after_read C T len offset p)) = unat offset + unat len - 1"
    and "unat (mLastPos (mThrottle (after_read C T len offset p))) = unat offset + unat len - 1"
proof -
  have p: "pool_holds C stream p" "cb_capacity C (mCircBuf p) = 90"
    "length (cb_elems T (mTimePeriodBuffer (mThrottle p))) = length stream"
    using assms(1,2) by (simp_all add: test_pool_def)
  let ?t = "mThrottle (after_copy C len offset p)" and ?pos = "start_pos C offset (len - 1) p"
  have chunks: "length (chunks p) = length stream" using holds_length [OF p(1)] p(2) assms(2) by simp
  then have window: "length stream - unat offset \<le> length (chunks p)" by simp
  have len1: "unat (len - 1) = unat len - 1" using assms(3) by (simp add: unat_minus_one)
  have le: "0 < unat len" "unat offset + unat (len - 1) \<le> length stream"
    using assms(3,4) len1 by (simp_all add: word_less_nat_alt)
  have pos: "unat ?pos = unat offset + unat len - 1"
    using start_pos_nat [OF holds_represents [OF p(1)] window le(2)] chunks le assms(4)
    unfolding len1 by linarith
  have t: "mPos ?t = ?pos" "mTimePeriodBuffer ?t = mTimePeriodBuffer (mThrottle p)"
    "mReadAheadCount ?t = mReadAheadCount (mThrottle p)"
    by (simp_all add: after_copy_def at_position_def setReadPosition_def)
  have size: "unat (cb_size T (mTimePeriodBuffer ?t)) = length stream" using p(3) by (simp add: t)
  then have le: "?pos \<le> cb_size T (mTimePeriodBuffer ?t)"
    using pos assms(4) by (simp add: word_le_nat_alt)
  have "cb_size T (mTimePeriodBuffer ?t) - mPos ?t \<le> LIVE_POSITION_THRESHOLD_INDEX"
    unfolding word_le_nat_alt t(1) unat_sub_le [OF le] size
    using assms(2) by (simp add: LIVE_POSITION_THRESHOLD_INDEX_def)
  then have w: "snd (wait_enter T ?t) = ?t\<lparr>mLastPos := mPos ?t, mThrottleRunning := False\<rparr>"
    by (simp add: wait_enter_def)
  let ?c = "after_copy C len offset p"
  have q: "after_read C T len offset p =
      ?c\<lparr>mThrottle := ?t\<lparr>mLastPos := mPos ?t, mThrottleRunning := False\<rparr>\<rparr>"
    by (simp add: after_read_def Let_def w)
  have c: "mCircBuf ?c = mCircBuf p" "mTotalBufCount ?c = mTotalBufCount p" "exitPending ?c = exitPending p"
    "mAborting ?c = mAborting p" "mGotLastBuffer ?c = mGotLastBuffer p" "mLastReadLocation ?c = ?pos"
    by (simp_all add: after_copy_def at_position_def)
  show "test_pool C T stream None (after_read C T len offset p)"
    using assms(1) t c unfolding q by (simp add: test_pool_def pool_holds_def)
  show "unat (mLastReadLocation (after_read C T len offset p)) = unat offset + unat len - 1"
    using pos c unfolding q by simp
  show "unat (mLastPos (mThrottle (after_read C T len offset p))) = unat offset + unat len - 1"
    using pos t unfolding q by simp
qed

text \<open>A read of chunks that the workers push while it waits.\<close>

lemma push_batch_read_ahead:
  "pool_dos C T (push_batch c) p = Inr q \<Longrightarrow> mReadAheadCount (mThrottle q) = mReadAheadCount (mThrottle p)"
  by (auto simp: push_batch_def andthen_Inr_iff push_commit_def push_register_def Let_def split: if_splits)

lemma read_wait_read_ahead:
  "read_wait C T readEnd (map push_batch bs) p = Inr (b, q) \<Longrightarrow>
     mReadAheadCount (mThrottle q) = mReadAheadCount (mThrottle p)"
  by (induction bs arbitrary: p) (auto simp: andthen_Inr_iff dest: push_batch_read_ahead split: if_splits)

lemma test_read_waits:
  assumes "test_pool C T stream None (fx_pool s)" and "thread_running (mThrottle (fx_pool s))" and "0 < len"
    and "unat offset \<le> length stream" and "length stream < unat offset + unat len"
    and "length stream + length bs = unat offset + unat len" and "unat len \<le> 90"
    and "unat offset < 1000" and "unat len * 9024 \<le> length out" and "length out < 2 ^ 31"
  shows "\<exists>s'. test_read C T (worker bs) out len offset s =
           Inr (Some (of_nat (unat len * 9024)),
                range_bytes (stream @ map snd bs) (unat len) (unat offset) 0 0 @ drop (unat len * 9024) out, s')"
proof -
  let ?p = "fx_pool s"
  have p: "pool_holds C stream ?p" "pool_open ?p" "capacity ?p = 90" "mReadAheadCount (mThrottle ?p) = 0"
    using assms(1) by (simp_all add: test_pool_def pool_open_def)
  then have open_: "\<not> exitPending ?p" "\<not> mGotLastBuffer ?p" by (simp_all add: pool_open_def)
  have pad: "padding_ok len 0 0" using assms(3) by (simp add: padding_ok_def)
  have bound: "unat offset + unat len < 2 ^ 64" using assms(7,8) by simp
  have cap: "unat len \<le> capacity ?p" using assms(7) p(3) by simp
  note enter = read_enter_await [OF p(1) open_ pad assms(4,5) bound cap]
  have pos: "0 < capacity ?p" using p(3) by simp
  have "length stream + length bs = unat (offset + len)" using assms(6) enter(2) by simp
  from read_wait_pushes [OF p(1) pos p(2) assms(2) this] obtain q where q:
    "read_wait C T (offset + len) (map push_batch bs) ?p = Inr (True, q)"
    "pool_holds C (stream @ map snd bs) q" "capacity q = capacity ?p" "pool_open q" by blast
  let ?q = "q\<lparr>mReadEnd := offset + len\<rparr>"
  have hold': "pool_holds C (stream @ map snd bs) ?q" using q(2) by (simp add: pool_holds_def)
  have window: "in_window C (stream @ map snd bs) len offset ?q"
    using assms(6,7) q(3) p(3) holds_length [OF hold'] by (simp add: in_window_def)
  have whole: "whole_chunks ?q len" using q(4) by (simp add: whole_chunks_def pool_open_def)
  have out: "unat len * 9024 - unat (0 :: u64) - unat (0 :: u64) \<le> length out" using assms(9) by simp
  have "\<not> throttled C T len offset ?q"
    using read_wait_read_ahead [OF q(1)] p(4) by (intro fresh_reader) simp
  with read_finish_range [OF holds_represents [OF hold'] window pad whole out assms(10), of "worker bs"]
  have "read_finish C T (worker bs) len offset 0 0 out ?q =
      Inr (Some (of_nat (unat len * 9024)),
           range_bytes (stream @ map snd bs) (unat len) (unat offset) 0 0 @ drop (unat len * 9024) out,
           after_read C T len offset ?q)"
    by (simp add: worker_def Let_def)
  then show ?thesis
    using enter(1) q(1,4) by (simp add: test_read_def read_def worker_def pool_open_def)
qed

section \<open>Test by test\<close>

lemma ASSERT_SAME_ok:
  "n \<le> length xs \<Longrightarrow> n \<le> length ys \<Longrightarrow> take n xs = take n ys \<Longrightarrow> ASSERT_SAME xs ys n rest = rest"
  by (simp add: ASSERT_SAME_def memcmp_eq_def ASSERT_def)

lemma ASSERT_EMPTY_ok: "n \<le> length xs \<Longrightarrow> take n xs = replicate n 0 \<Longrightarrow> ASSERT_EMPTY xs n rest = rest"
  by (simp add: ASSERT_EMPTY_def buffer_is_empty_def memcmp_eq_def ASSERT_def)

lemmas test_range = range_bytes_def stream_bytes_def

lemma one_queued:
  obtains s where "test_queue C T now c lastBuffer n (SetUp C T) = Inr s"
    "test_pool C T [c] (if lastBuffer then Some n else None) (fx_pool s)" "bufferReceivedCount_g s = 1"
    "thread_running (mThrottle (fx_pool s))"
proof -
  have "thread_running (mThrottle (fx_pool (SetUp C T)))"
    using thread_running_new by (simp add: SetUp_def pool_new_def)
  with test_queue_ok [OF test_pool_new, of now c lastBuffer n] that show thesis by (auto simp: SetUp_def)
qed

lemma next_queued:
  assumes "test_pool C T [c] None (fx_pool s)"
  obtains s' where "test_queue C T now d lastBuffer n s = Inr s'"
    "test_pool C T [c, d] (if lastBuffer then Some n else None) (fx_pool s')"
    "bufferReceivedCount_g s' = bufferReceivedCount_g s + 1"
  using test_queue_ok [OF assms, of now d lastBuffer n] that by auto

lemma PassSingleElement_passes: "PassSingleElement C T clock garbage = Inr True"
proof -
  obtain s1 where s1: "test_queue C T (clock 0) garbage False 0 (SetUp C T) = Inr s1"
    "test_pool C T [garbage] None (fx_pool s1)" "bufferReceivedCount_g s1 = 1"
    using one_queued [of "clock 0" garbage False 0] by auto
  obtain s2 where s2: "test_queue C T (clock 1) garbage False 0 s1 = Inr s2"
    "test_pool C T [garbage, garbage] None (fx_pool s2)" "bufferReceivedCount_g s2 = 2"
    using next_queued [OF s1(2), of "clock 1" garbage False 0] s1(3) by auto
  have "unat (cb_size C (mCircBuf (fx_pool s2))) = 2" using s2(2) by (simp add: test_pool_def pool_holds_def)
  then have "getSize C (fx_pool s2) = 2" by (simp add: getSize_def word_unat_eq_iff)
  moreover have "getCapacity C (fx_pool s2) = BUFFER_POOL_CAPACITY"
    using s2(2) by (simp add: getCapacity_def test_pool_def capacity_90)
  ultimately show ?thesis using s1 s2 by (simp add: PassSingleElement_def ASSERT_def)
qed

lemma ReadSingleElement_passes: "ReadSingleElement C T clock garbage = Inr True"
proof -
  let ?c = "chunk_fill 9"
  obtain s1 where s1: "test_queue C T (clock 0) ?c False 0 (SetUp C T) = Inr s1"
    "test_pool C T [?c] None (fx_pool s1)"
    using one_queued [of "clock 0" ?c False 0] by auto
  have "test_read C T undisturbed (chunk_data garbage) 1 0 s1 =
      Inr (Some 9024, chunk_data ?c, s1\<lparr>fx_pool := after_read C T 1 0 (fx_pool s1)\<rparr>)"
    using test_read_ok [OF s1(2), of 1 0 "chunk_data garbage"] by (simp add: test_range)
  with s1(1) show ?thesis
    by (simp add: ReadSingleElement_def ASSERT_def Let_def del: chunk_data_fill)
qed

lemma ReadMultipleElement_passes: "ReadMultipleElement C T clock garbage = Inr True"
proof -
  let ?c = "chunk_fill 8" and ?d = "chunk_fill 9"
  obtain s1 where s1: "test_queue C T (clock 0) ?c False 0 (SetUp C T) = Inr s1"
    "test_pool C T [?c] None (fx_pool s1)"
    using one_queued [of "clock 0" ?c False 0] by auto
  obtain s2 where s2: "test_queue C T (clock 1) ?d False 0 s1 = Inr s2"
    "test_pool C T [?c, ?d] None (fx_pool s2)"
    using next_queued [OF s1(2), of "clock 1" ?d False 0] by auto
  have "test_read C T undisturbed (chunk_data garbage @ chunk_data garbage) 2 0 s2 =
      Inr (Some 18048, chunk_data ?c @ chunk_data ?d, s2\<lparr>fx_pool := after_read C T 2 0 (fx_pool s2)\<rparr>)"
    using test_read_ok [OF s2(2), of 2 0 "chunk_data garbage @ chunk_data garbage"]
    by (simp add: test_range del: chunk_data_fill)
  with s1(1) s2(1) show ?thesis
    by (simp add: ReadMultipleElement_def Let_def ASSERT_SAME_ok del: chunk_data_fill)
qed

lemma LockUntilBufferAvailable_passes: "LockUntilBufferAvailable C T clock = Inr True"
proof -
  let ?c = "chunk_fill 8" and ?d = "chunk_fill 9"
  obtain s1 where s1: "test_queue C T (clock 0) ?c False 0 (SetUp C T) = Inr s1"
    "test_pool C T [?c] None (fx_pool s1)" "thread_running (mThrottle (fx_pool s1))"
    using one_queued [of "clock 0" ?c False 0] by auto
  obtain s2 where "test_read C T (worker [(clock 1, ?d)]) (replicate (2 * 9024) 0) 2 0 s1 =
      Inr (Some 18048, chunk_data ?c @ chunk_data ?d, s2)"
    using test_read_waits [OF s1(2,3), of 2 0 "[(clock 1, ?d)]" "replicate (2 * 9024) 0"]
    by (auto simp add: test_range simp del: chunk_data_fill)
  with s1(1) show ?thesis
    by (simp add: LockUntilBufferAvailable_def Let_def ASSERT_SAME_ok del: chunk_data_fill)
qed

lemma LockUntilBufferAvailableStartEmpty_passes: "LockUntilBufferAvailableStartEmpty C T clock = Inr True"
proof -
  let ?c = "chunk_fill 8"
  have "thread_running (mThrottle (fx_pool (SetUp C T)))"
    using thread_running_new by (simp add: SetUp_def pool_new_def)
  from test_read_waits [OF test_pool_new this, of 1 0 "[(clock 0, ?c)]" "replicate 9024 0"]
  obtain s2 where "test_read C T (worker [(clock 0, ?c)]) (replicate 9024 0) 1 0 (SetUp C T) =
      Inr (Some 9024, chunk_data ?c, s2)"
    by (auto simp add: test_range simp del: chunk_data_fill)
  then show ?thesis
    by (simp add: LockUntilBufferAvailableStartEmpty_def Let_def ASSERT_SAME_ok del: chunk_data_fill)
qed

lemma filled:
  obtains s where "test_fill C T clock c 90 (SetUp C T) = Inr s" "test_pool C T (replicate 90 c) None (fx_pool s)"
    "thread_running (mThrottle (fx_pool s))"
proof -
  have "thread_running (mThrottle (fx_pool (SetUp C T)))"
    using thread_running_new by (simp add: SetUp_def pool_new_def)
  with test_fill_ok [OF test_pool_new, of 90 clock c] that show thesis by auto
qed

lemma range_filled: "range_bytes (replicate 90 c @ ds) n 90 0 0 = take (n * 9024) (stream_bytes ds)"
  using drop_stream_bytes [of 90 "replicate 90 c @ ds"] by (simp add: range_bytes_def)

text \<open>A push succeeds after a read, whatever the read did to the throttle.\<close>

lemma push_after_read:
  assumes "test_pool C T stream None (fx_pool s)" and "length stream < 1000"
  shows "\<exists>s'. test_queue C T now b False 0 (s\<lparr>fx_pool := after_read C T len offset (fx_pool s)\<rparr>) = Inr s'"
proof -
  let ?q = "after_read C T len offset (fx_pool s)"
  have "pool_holds C stream ?q" "\<not> exitPending ?q" "0 < capacity ?q"
    using assms(1) by (simp_all add: test_pool_def after_read_def after_copy_def at_position_def Let_def pool_holds_def)
  from pushBuffer_ok [OF this, of now b False 0] assms(2) show ?thesis by (auto simp: test_queue_def)
qed

lemma ReadOverWriteBuffer_passes: "ReadOverWriteBuffer C T clock = Inr True"
proof -
  let ?c = "chunk_fill 8" and ?d = "chunk_fill 9"
  obtain s1 where s1: "test_fill C T clock ?c 90 (SetUp C T) = Inr s1" "test_pool C T (replicate 90 ?c) None (fx_pool s1)"
    using filled [of clock ?c] by auto
  obtain s2 where s2: "test_queue C T (clock 90) ?d False 0 s1 = Inr s2"
    "test_pool C T (replicate 90 ?c @ [?d]) None (fx_pool s2)"
    using test_queue_ok [OF s1(2), of "clock 90" ?d False 0] by auto
  let ?s3 = "s2\<lparr>fx_pool := after_read C T 1 90 (fx_pool s2)\<rparr>"
  have "test_read C T undisturbed (replicate 9024 0) 1 90 s2 = Inr (Some 9024, chunk_data ?d, ?s3)"
    using test_read_ok [OF s2(2), of 1 90 "replicate 9024 0"]
    by (simp add: range_filled del: chunk_data_fill)
  moreover obtain s4 where "test_queue C T (clock 91) ?d False 0 ?s3 = Inr s4"
    using push_after_read [OF s2(2), of "clock 91" ?d 1 90] by auto
  ultimately show ?thesis
    using s1(1) s2(1)
    by (simp add: ReadOverWriteBuffer_def Let_def ASSERT_def ASSERT_SAME_ok capacity_90 BUFFER_CHUNK_SIZE_eq
        del: chunk_data_fill)
qed

lemma ReadOverWriteBufferWithLock_passes: "ReadOverWriteBufferWithLock C T clock = Inr True"
proof -
  let ?c = "chunk_fill 8" and ?d = "chunk_fill 9" and ?e = "chunk_fill 10"
  obtain s1 where s1: "test_fill C T clock ?c 90 (SetUp C T) = Inr s1" "test_pool C T (replicate 90 ?c) None (fx_pool s1)"
    "thread_running (mThrottle (fx_pool s1))"
    using filled [of clock ?c] by auto
  obtain s2 where "test_read C T (worker [(clock 90, ?d), (clock 91, ?e)]) (replicate (2 * 9024) 0) 2 90 s1 =
      Inr (Some 18048, chunk_data ?d @ chunk_data ?e, s2)"
    using test_read_waits [OF s1(2,3), of 2 90 "[(clock 90, ?d), (clock 91, ?e)]" "replicate (2 * 9024) 0"]
    by (auto simp add: range_filled simp del: chunk_data_fill)
  with s1(1) show ?thesis
    by (simp add: ReadOverWriteBufferWithLock_def Let_def ASSERT_def ASSERT_SAME_ok capacity_90 BUFFER_CHUNK_SIZE_eq
        del: chunk_data_fill)
qed

lemma ReadWrongLenght_passes: "ReadWrongLenght C T clock = Inr True"
proof -
  let ?c = "chunk_fill 8"
  obtain s1 where s1: "test_queue C T (clock 0) ?c False 0 (SetUp C T) = Inr s1"
    "test_pool C T [?c] None (fx_pool s1)"
    using one_queued [of "clock 0" ?c False 0] by auto
  have "test_read C T undisturbed (replicate (2 * 9024) 0) (90 + 2) 0 s1 =
      Inr (Some 0, replicate (2 * 9024) 0, s1\<lparr>fx_pool := fx_pool s1\<rparr>)"
    using read_refused [of "[?c]" "fx_pool s1" 0 "90 + 2" undisturbed 0 0 "replicate (2 * 9024) 0"] s1(2)
    by (simp add: test_read_def test_pool_def)
  with s1(1) show ?thesis by (simp add: ReadWrongLenght_def Let_def ASSERT_def capacity_90)
qed

text \<open>The last buffer: the whole read, and one behind the end.\<close>

lemma read_closed_pair:
  assumes "test_pool C T [c, d] (Some n) (fx_pool s)" and "0 < unat n" and "unat n < 9024"
  obtains s' where "test_read C T undisturbed (replicate (2 * 9024) 0) 2 0 s =
      Inr (Some (of_nat (9024 + unat n)), chunk_data c @ take (unat n) (chunk_data d) @ replicate (9024 - unat n) 0, s')"
    "pool_holds C [c, d] (fx_pool s')" "mGotLastBuffer (fx_pool s')"
proof -
  let ?p = "fx_pool s" and ?out = "replicate (2 * 9024) (0 :: u8)"
  have p: "pool_holds C [c, d] ?p" "\<not> exitPending ?p" "mGotLastBuffer ?p" "mLastBufferSize ?p = n"
    "mReadAheadCount (mThrottle ?p) = 0" "capacity ?p = 90"
    using assms(1) by (simp_all add: test_pool_def)
  have pad: "padding_ok 2 0 0" by (simp add: padding_ok_def)
  have enter: "read_enter C 2 0 0 0 ?p = CopyNow"
    by (rule read_enter_available(1) [OF p(1,2) pad]) (simp_all add: p(6))
  have room: "(length [c, d] - 1) * 9024 + unat (mLastBufferSize ?p) \<le> length ?out" using p(4) assms(3) by simp
  have copy: "read_copy C 2 0 0 0 ?out ?p =
      Inr (Some (of_nat (9024 + unat n)), chunk_data c @ take (unat n) (chunk_data d) @ replicate (9024 - unat n) 0,
           after_copy C 2 0 ?p)"
    using read_whole_closed [OF p(1,2,3) _ _ _ _ _ room] p(4,6) assms(2,3) by simp
  have fresh: "\<not> fst (wait_enter T (mThrottle (after_copy C 2 0 ?p)))"
    using fresh_reader [OF p(5)] by (simp add: throttled_def)
  have small: "9024 + unat n < 2 ^ 31" using assms(3) by simp
  have "read C T undisturbed 2 0 0 0 ?out ?p =
      Inr (Some (of_nat (9024 + unat n)), chunk_data c @ take (unat n) (chunk_data d) @ replicate (9024 - unat n) 0,
           after_read C T 2 0 ?p)"
    using enter copy fresh scast_small [OF small]
    by (simp add: read_def read_finish_def undisturbed_def after_read_def case_prod_beta Let_def)
  moreover have "pool_holds C [c, d] (after_read C T 2 0 ?p)" "mGotLastBuffer (after_read C T 2 0 ?p)"
    using p(1,3) by (simp_all add: after_read_def after_copy_def at_position_def Let_def pool_holds_def)
  ultimately show thesis using that [of "s\<lparr>fx_pool := after_read C T 2 0 ?p\<rparr>"] by (simp add: test_read_def)
qed

lemma ReadAfterLastItemReturnsEmpty_passes: "ReadAfterLastItemReturnsEmpty C T clock = Inr True"
proof -
  let ?c = "chunk_fill 8"
  obtain s1 where s1: "test_queue C T (clock 0) ?c False 0 (SetUp C T) = Inr s1"
    "test_pool C T [?c] None (fx_pool s1)"
    using one_queued [of "clock 0" ?c False 0] by auto
  obtain s2 where s2: "test_queue C T (clock 1) ?c True 10 s1 = Inr s2"
    "test_pool C T [?c, ?c] (Some 10) (fx_pool s2)"
    using next_queued [OF s1(2), of "clock 1" ?c True 10] by auto
  let ?out = "chunk_data ?c @ take 10 (chunk_data ?c) @ replicate 9014 0"
  obtain s3 where s3: "test_read C T undisturbed (replicate (2 * 9024) 0) 2 0 s2 = Inr (Some 9034, ?out, s3)"
    "pool_holds C [?c, ?c] (fx_pool s3)" "mGotLastBuffer (fx_pool s3)"
    using read_closed_pair [OF s2(2)] by (auto simp del: chunk_data_fill)
  have "test_read C T undisturbed ?out 2 2 s3 = Inr (Some 0, ?out, s3\<lparr>fx_pool := fx_pool s3\<rparr>)"
    using read_refused [OF s3(2), of 2 2 undisturbed 0 0 ?out] s3(3) by (simp add: test_read_def)
  with s1(1) s2(1) s3(1) show ?thesis by (simp add: ReadAfterLastItemReturnsEmpty_def Let_def ASSERT_def)
qed

lemma ReadMultipleNonAlligned_passes: "ReadMultipleNonAlligned C T clock = Inr True"
proof -
  let ?c = "chunk_fill 8" and ?d = "chunk_fill 9"
  obtain s1 where s1: "test_queue C T (clock 0) ?c False 0 (SetUp C T) = Inr s1"
    "test_pool C T [?c] None (fx_pool s1)"
    using one_queued [of "clock 0" ?c False 0] by auto
  obtain s2 where s2: "test_queue C T (clock 1) ?d True 20 s1 = Inr s2"
    "test_pool C T [?c, ?d] (Some 20) (fx_pool s2)"
    using next_queued [OF s1(2), of "clock 1" ?d True 20] by auto
  obtain s3 where s3: "test_read C T undisturbed (replicate (2 * 9024) 0) 2 0 s2 =
      Inr (Some 9044, chunk_data ?c @ take 20 (chunk_data ?d) @ replicate 9004 0, s3)"
    using read_closed_pair [OF s2(2)] by (auto simp del: chunk_data_fill)
  have e: "take 20 (chunk_data ?d @ replicate 9004 0) = take 20 (chunk_data ?d)" by simp
  show ?thesis
    using s1(1) s2(1) s3
    by (simp add: ReadMultipleNonAlligned_def Let_def ASSERT_def ASSERT_SAME_ok ASSERT_EMPTY_ok del: chunk_data_fill)
qed

text \<open>\<open>clearToLastRead\<close> in the middle: the chunk that was not read is replaced.\<close>

lemma clearToLastRead_rest:
  "clearToLastRead C T p = Inr q \<Longrightarrow> exitPending q = exitPending p \<and> mGotLastBuffer q = mGotLastBuffer p"
  by (auto simp: clearToLastRead_def Let_def andthen_Inr_iff split: if_splits)

lemma clearToLastRead_read_ahead:
  "throttle_clearToLastRead T t = Inr t' \<Longrightarrow> mReadAheadCount t = 0 \<Longrightarrow> mReadAheadCount t' = 0"
  by (auto simp: throttle_clearToLastRead_def Let_def andthen_Inr_iff split: if_splits)

lemma test_clearToLastRead:
  assumes "test_pool C T [c, d] None p" and "mLastReadLocation p = 0" and "mLastPos (mThrottle p) = 0"
  shows "\<exists>q. clearToLastRead C T p = Inr q \<and> test_pool C T [c] None q"
proof -
  have p: "pool_holds C [c, d] p" "cb_capacity C (mCircBuf p) = 90" "\<not> exitPending p" "\<not> mGotLastBuffer p"
    "mReadAheadCount (mThrottle p) = 0" "length (periods (mThrottle p)) = 2" "period_cap (mThrottle p) = 90"
    using assms(1) by (simp_all add: test_pool_def)
  have chunks: "chunks p = [c, d]" using p(1,2) by (simp add: pool_holds_def)
  then have loc: "unat (mLastReadLocation p) < length (chunks p)" using assms(2) by simp
  from clearToLastRead_cuts [OF loc] obtain q where q: "clearToLastRead C T p = Inr q"
    "mTotalBufCount q = mTotalBufCount p - (cb_size C (mCircBuf p) - mLastReadLocation p - 1)"
    "unat (cb_size C (mCircBuf p) - mLastReadLocation p - 1) = 1"
    "chunks q = [c]" "cb_capacity C (mCircBuf q) = 90"
    "throttle_clearToLastRead T (mThrottle p) = Inr (mThrottle q)" "\<not> mAborting q"
    using chunks assms(2) p(2) by auto
  have "cb_size C (mCircBuf p) - mLastReadLocation p - 1 = 1" using q(3) by (simp add: word_unat_eq_iff)
  moreover have "mTotalBufCount p = 2" using p(1) by (simp add: pool_holds_def word_unat_eq_iff)
  ultimately have "mTotalBufCount q = 1" using q(2) by simp
  then have "pool_holds C [c] q" using q(4,5) by (simp add: pool_holds_def)
  then show ?thesis
    using q clearToLastRead_rest [OF q(1)] clearToLastRead_read_ahead [OF q(6) p(5)]
      clearToLastRead_length [OF q(6)] p assms(3)
    by (simp add: test_pool_def)
qed

lemma ClearBufferEnd_passes: "ClearBufferEnd C T clock = Inr True"
proof -
  let ?c = "chunk_fill 8" and ?d = "chunk_fill 9"
  obtain s1 where s1: "test_queue C T (clock 0) ?c False 0 (SetUp C T) = Inr s1"
    "test_pool C T [?c] None (fx_pool s1)"
    using one_queued [of "clock 0" ?c False 0] by auto
  obtain s2 where s2: "test_queue C T (clock 1) ?c False 0 s1 = Inr s2"
    "test_pool C T [?c, ?c] None (fx_pool s2)"
    using next_queued [OF s1(2), of "clock 1" ?c False 0] by auto
  let ?s3 = "s2\<lparr>fx_pool := after_read C T 1 0 (fx_pool s2)\<rparr>"
  have read1: "test_read C T undisturbed (replicate 9024 0) 1 0 s2 = Inr (Some 9024, chunk_data ?c, ?s3)"
    using test_read_ok [OF s2(2), of 1 0 "replicate 9024 0"] by (simp add: test_range del: chunk_data_fill)
  have "test_pool C T [?c, ?c] None (fx_pool ?s3)" "mLastReadLocation (fx_pool ?s3) = 0"
    "mLastPos (mThrottle (fx_pool ?s3)) = 0"
    using live_after_read [OF s2(2), of 1 0] by (simp_all add: word_unat_eq_iff)
  from test_clearToLastRead [OF this] obtain q where
    q: "clearToLastRead C T (fx_pool ?s3) = Inr q" "test_pool C T [?c] None (fx_pool (?s3\<lparr>fx_pool := q\<rparr>))" by auto
  obtain s4 where s4: "test_queue C T (clock 2) ?d False 0 (?s3\<lparr>fx_pool := q\<rparr>) = Inr s4"
    "test_pool C T [?c, ?d] None (fx_pool s4)"
    using next_queued [OF q(2), of "clock 2" ?d False 0] by auto
  have "test_read C T undisturbed (chunk_data ?c) 1 1 s4 =
      Inr (Some 9024, chunk_data ?d, s4\<lparr>fx_pool := after_read C T 1 1 (fx_pool s4)\<rparr>)"
    using test_read_ok [OF s4(2), of 1 1 "chunk_data ?c"] by (simp add: test_range del: chunk_data_fill)
  with s1(1) s2(1) read1 q(1) s4(1) show ?thesis
    by (simp add: ClearBufferEnd_def Let_def ASSERT_SAME_ok del: chunk_data_fill)
qed

text \<open>
  The loop over the offsets: up to the middle of a chunk each round passes; the round after
  that compares bytes behind the end of the first chunk.
\<close>

lemma unaligned_round:
  assumes "test_pool C T [chunk_fill 8, chunk_fill 9] None (fx_pool s)" and "length out = 9024" and "k < 9024"
  obtains s' where "test_readRandomAccess C T out 9024 (of_nat k) s =
      Inr (Some 9024, replicate (9024 - k) 8 @ replicate k 9, s')"
    "test_pool C T [chunk_fill 8, chunk_fill 9] None (fx_pool s')"
proof -
  let ?stream = "[chunk_fill 8, chunk_fill 9]" and ?p = "fx_pool s" and ?ob = "of_nat k :: u64"
  have p: "pool_holds C ?stream ?p" "\<not> exitPending ?p" "\<not> mGotLastBuffer ?p" "mReadAheadCount (mThrottle ?p) = 0"
    "capacity ?p = 90"
    using assms(1) by (simp_all add: test_pool_def)
  have ob: "unat ?ob = k" using assms(3) by (simp add: unat_of_nat_u64 del: unsigned_of_nat)
  have avail: "unat ?ob + unat (9024 :: u64) \<le> length ?stream * 9024" using ob assms(3) by simp
  have pos: "0 < (9024 :: u64)" by simp
  note range = access_range [OF pos avail]
  let ?len = "access_length 9024 ?ob" and ?offset = "?ob div BUFFER_CHUNK_SIZE"
  let ?s' = "s\<lparr>fx_pool := after_read C T ?len ?offset ?p\<rparr>"
  have "length ?stream - unat ?ob div 9024 \<le> capacity ?p" using p(5) by simp
  from random_access_read(1) [OF p(1,2) pos avail this _, of out undisturbed] p(3) assms(2) fresh_reader [OF p(4)]
  have "test_readRandomAccess C T out 9024 ?ob s =
      Inr (Some 9024, take 9024 (drop k (replicate 9024 8 @ replicate 9024 9)), ?s')"
    by (simp add: test_readRandomAccess_def whole_chunks_def undisturbed_def ob del: drop_append drop_replicate unsigned_of_nat)
  moreover have "take 9024 (drop k (replicate 9024 8 @ replicate 9024 (9 :: u8))) = replicate (9024 - k) 8 @ replicate k 9"
    using assms(3) by simp
  moreover have "test_pool C T ?stream None (fx_pool ?s')"
    using live_after_read(1) [OF assms(1), of ?len ?offset] range(1,2) by (simp add: padding_ok_def)
  ultimately show thesis using that by simp
qed

lemma unaligned_behind:
  assumes "test_pool C T [chunk_fill 8, chunk_fill 9] None (fx_pool s)" and "length out = 9024"
  shows "unaligned_loop C T (chunk_fill 8) (chunk_fill 9) (4513 # rest) out s = Inl SourceOverrun"
proof -
  obtain s' where "test_readRandomAccess C T out 9024 (of_nat 4513) s =
      Inr (Some 9024, replicate (9024 - 4513) 8 @ replicate 4513 9, s')"
    by (rule unaligned_round [OF assms, of 4513]) simp_all
  then show ?thesis by (simp add: ASSERT_def ASSERT_SAME_def memcmp_eq_def)
qed

lemma unaligned_overruns:
  assumes "k \<le> 4513" and "test_pool C T [chunk_fill 8, chunk_fill 9] None (fx_pool s)" and "length out = 9024"
  shows "unaligned_loop C T (chunk_fill 8) (chunk_fill 9) [k..<9024] out s = Inl SourceOverrun"
  using assms
proof (induction k arbitrary: out s rule: inc_induct)
  case base
  have "[4513..<9024] = 4513 # [Suc 4513..<9024]" by (rule upt_conv_Cons) simp
  then show ?case by (simp only: unaligned_behind [OF base])
next
  case (step k)
  let ?out = "replicate (9024 - k) 8 @ replicate k (9 :: u8)"
  have k: "k < 9024" "k \<le> 9024 - k" using step.hyps by simp_all
  obtain s' where s': "test_readRandomAccess C T out 9024 (of_nat k) s = Inr (Some 9024, ?out, s')"
    "test_pool C T [chunk_fill 8, chunk_fill 9] None (fx_pool s')"
    using unaligned_round [OF step.prems k(1)] by auto
  have "[k..<9024] = k # [Suc k..<9024]" using k(1) by (simp add: upt_conv_Cons)
  moreover have "length ?out = 9024" using k(1) by simp
  moreover note step.IH [OF s'(2) this]
  ultimately show ?case
    using s'(1) k by (simp add: ASSERT_def ASSERT_SAME_ok)
qed

lemma ReadUnaligned_overruns: "ReadUnalignedMultipleElement C T clock garbage = Inl SourceOverrun"
proof -
  let ?c = "chunk_fill 8" and ?d = "chunk_fill 9"
  obtain s1 where s1: "test_queue C T (clock 0) ?c False 0 (SetUp C T) = Inr s1"
    "test_pool C T [?c] None (fx_pool s1)"
    using one_queued [of "clock 0" ?c False 0] by auto
  obtain s2 where s2: "test_queue C T (clock 1) ?d False 0 s1 = Inr s2"
    "test_pool C T [?c, ?d] None (fx_pool s2)"
    using next_queued [OF s1(2), of "clock 1" ?d False 0] by auto
  have "unaligned_loop C T ?c ?d [0..<9024] (chunk_data garbage) s2 = Inl SourceOverrun"
    by (rule unaligned_overruns [OF _ s2(2)]) simp_all
  with s1(1) s2(1) show ?thesis by (simp only: ReadUnalignedMultipleElement_def Let_def andthen.simps)
qed

end

section \<open>Properties\<close>



text \<open>
  The test of unaligned reads compares, from the middle of the chunk on, more bytes than
  there are behind the offset: it reads behind the end of the first chunk.
\<close>

theorem unaligned_test_overruns:
  assumes "boost_rings C T"
  shows "ReadUnalignedMultipleElement C T clock garbage = Inl SourceOverrun"
  by (rule boost_rings.ReadUnaligned_overruns [OF assms])

theorem unaligned_test_overruns_witness:
  "ReadUnalignedMultipleElement list_ring list_ring (\<lambda>i. 0) (chunk_fill 0) = Inl SourceOverrun"
  by (rule unaligned_test_overruns [OF lbr.boost_rings_axioms])

end
