(* ===== verification/Pool_Allocator.thy ===== *)
theory Pool_Allocator
  imports Stream_Config
begin

text \<open>
  The allocator of the ring (\<open>streamfs_allocator\<close> in export/streamfs/BufferPool.h): memory in
  whole pages, which is kept out of core dumps while it is in use. The results of the system
  calls are arguments: the address \<open>posix_memalign\<close> finds, if any, and whether \<open>madvise\<close>
  succeeds.
\<close>

section \<open>State and operations\<close>

text \<open>The regions in use, by address, and the addresses whose pages are kept out of a dump.\<close>

record heap =
  hp_regions :: "u64 \<rightharpoonup> u64"
  hp_dontdump :: "u64 set"

text \<open>\<open>ptr\<close> is not initialised: when no memory is found, it is what the stack held.\<close>

definition allocate :: "u64 \<Rightarrow> u64 option \<Rightarrow> u64 \<Rightarrow> bool \<Rightarrow> u64 \<Rightarrow> heap \<Rightarrow> u64 \<times> heap" where
  "allocate elementSize memalign garbage madvised n h =
     (let totalSize = n * elementSize;
          ptr = (case memalign of Some a \<Rightarrow> a | None \<Rightarrow> garbage);
          h1 = (case memalign of Some a \<Rightarrow> h\<lparr>hp_regions := (hp_regions h)(a \<mapsto> totalSize)\<rparr> | None \<Rightarrow> h);
          h2 = (if madvised then h1\<lparr>hp_dontdump := insert ptr (hp_dontdump h1)\<rparr> else h1)
      in (ptr, h2))"

definition deallocate :: "u64 \<Rightarrow> bool \<Rightarrow> u64 \<Rightarrow> heap \<Rightarrow> heap outcome" where
  "deallocate p madvised n h =
     (let h1 = (if madvised then h\<lparr>hp_dontdump := hp_dontdump h - {p}\<rparr> else h)
      in if hp_regions h1 p = None then Inl InvalidFree
         else Inr (h1\<lparr>hp_regions := (hp_regions h1)(p := None)\<rparr>))"

section \<open>Runs\<close>

text \<open>An allocation that finds memory not in use, one that finds none, and a release.\<close>

datatype heap_event = Allocated u64 u64 bool | NoMemory u64 u64 | Released u64 u64 bool

fun heap_do :: "u64 \<Rightarrow> heap_event \<Rightarrow> heap \<Rightarrow> heap outcome" where
  "heap_do e (Allocated a n madvised) h = Inr (snd (allocate e (Some a) 0 madvised n h))"
| "heap_do e (NoMemory garbage n) h = Inr (snd (allocate e None garbage False n h))"
| "heap_do e (Released p n madvised) h = deallocate p madvised n h"

fun heap_run :: "u64 \<Rightarrow> heap_event list \<Rightarrow> heap \<Rightarrow> heap outcome" where
  "heap_run e [] h = Inr h"
| "heap_run e (x # xs) h = andthen (heap_do e x h) (heap_run e xs)"

text \<open>The call that takes pages back into dumps has not failed.\<close>

definition redumps :: "heap_event list \<Rightarrow> bool" where
  "redumps xs \<longleftrightarrow> list_all (\<lambda>x. case x of Released p n madvised \<Rightarrow> madvised | _ \<Rightarrow> True) xs"

section \<open>Lemmas\<close>

text \<open>
  Only memory in use is kept out of dumps, as long as no release failed to take its pages
  back: what \<open>malloc\<close> gives out later is dumped.
\<close>

lemma dontdump_in_use:
  assumes "heap_run e xs h = Inr h'" and "redumps xs" and "hp_dontdump h \<subseteq> dom (hp_regions h)"
  shows "hp_dontdump h' \<subseteq> dom (hp_regions h')"
  using assms
proof (induction xs arbitrary: h)
  case Nil
  then show ?case by simp
next
  case (Cons x xs)
  then obtain h1 where h1: "heap_do e x h = Inr h1" "heap_run e xs h1 = Inr h'"
    by (auto simp: andthen_Inr_iff)
  have "hp_dontdump h1 \<subseteq> dom (hp_regions h1)"
    using h1(1) Cons.prems(2,3)
    by (cases x) (auto simp: allocate_def deallocate_def redumps_def Let_def split: if_splits)
  with Cons h1(2) show ?case by (simp add: redumps_def)
qed

text \<open>An allocation that is advised is in use, of its size, and kept out of dumps.\<close>

lemma allocate_found:
  "allocate e (Some a) garbage True n h = (a, h') \<Longrightarrow>
     hp_regions h' a = Some (n * e) \<and> a \<in> hp_dontdump h'"
  by (auto simp: allocate_def Let_def)

text \<open>
  When no memory is found the allocator returns all the same: the pointer is not initialised,
  nothing is in use behind it, and its release is an error.
\<close>

lemma allocate_fails:
  assumes "hp_regions h garbage = None"
  shows "fst (allocate e None garbage madvised n h) = garbage \<and>
         deallocate (fst (allocate e None garbage madvised n h)) b n (snd (allocate e None garbage madvised n h)) =
           Inl InvalidFree"
  using assms by (simp add: allocate_def deallocate_def Let_def)

text \<open>A release whose advice fails leaves pages that are not in use outside of dumps.\<close>

lemma release_keeps_hidden:
  assumes "a \<in> hp_dontdump h" and "hp_regions h a = Some k"
  shows "\<exists>h'. deallocate a False n h = Inr h' \<and> a \<in> hp_dontdump h' \<and> hp_regions h' a = None"
  using assms by (simp add: deallocate_def Let_def)

end
