(* ===== verification/Throttle_Rates.thy ===== *)
theory Throttle_Rates
  imports Throttle_Progress
begin

text \<open>
  The throttle in time: how long each \<open>wait\<close> of a reader lasts. The theory translates the
  repository's own test of this, \<open>RateTest\<close> of tests/test_main.cpp, and shows on which
  order of the reader and the throttle thread its result depends.

  Time passes in \<open>sleep_for\<close> alone, and a sleep may last longer than was asked for; the
  code between two sleeps takes no time, so that its order has to be said: a \<open>timing\<close>
  gives, for each position, how many steps the thread takes before the reader that it has
  notified runs (\<open>thread_lead\<close>), and how many between two calls of the reader
  (\<open>thread_gap\<close>). A sleeping thread takes no step until its sleep is over.
\<close>

section \<open>Waiting in time\<close>

record timing =
  test_late :: "nat \<Rightarrow> nat"
  thread_late :: "nat \<Rightarrow> nat"
  thread_lead :: "nat \<Rightarrow> nat"
  thread_gap :: "nat \<Rightarrow> nat"

fun sleeping :: "loop_pc \<Rightarrow> bool" where
  "sleeping (LoopSleep d) = True"
| "sleeping _ = False"

text \<open>The length of the sleep the thread is in, in nanoseconds.\<close>

definition sleep_ns :: "(nat \<Rightarrow> nat) \<Rightarrow> 't throttle \<Rightarrow> nat" where
  "sleep_ns late t =
     (case loopPc t of LoopSleep d \<Rightarrow> unat d * 1000 + late (unat (mThrottleIndex t)) | _ \<Rightarrow> 0)"

text \<open>At most \<open>k\<close> steps of the thread in no time: a sleep ends them.\<close>

fun thread_runs :: "('t, u32) circ_ops \<Rightarrow> nat \<Rightarrow> 't throttle \<Rightarrow> 't throttle" where
  "thread_runs T 0 t = t"
| "thread_runs T (Suc k) t =
     (if sleeping (loopPc t) then t else thread_runs T k (loop_step T False t))"

text \<open>
  The while loop of \<open>wait\<close>, with the thread's sleeps added up: each round is a look of the
  reader at its condition and, when it goes on waiting, a step of the thread and up to
  \<open>k\<close> more of them. No result means that the rounds did not suffice.
\<close>

fun wait_loop ::
  "('t, u32) circ_ops \<Rightarrow> (nat \<Rightarrow> nat) \<Rightarrow> nat \<Rightarrow> nat \<Rightarrow> 't throttle \<Rightarrow> (nat \<times> 't throttle) option" where
  "wait_loop T late k 0 t = None"
| "wait_loop T late k (Suc n) t =
     (case wait_poll t of
        (True, t') \<Rightarrow> Some (0, t')
      | (False, t') \<Rightarrow>
          map_option (\<lambda>(d, t''). (sleep_ns late t' + d, t''))
            (wait_loop T late k n (thread_runs T k (loop_step T True t'))))"

definition timed_wait ::
  "('t, u32) circ_ops \<Rightarrow> (nat \<Rightarrow> nat) \<Rightarrow> nat \<Rightarrow> nat \<Rightarrow> 't throttle \<Rightarrow> (nat \<times> 't throttle) option" where
  "timed_wait T late k fuel t =
     (case wait_enter T t of
        (False, t') \<Rightarrow> Some (0, t')
      | (True, t') \<Rightarrow> wait_loop T late k fuel t')"

section \<open>RateTest (tests/test_main.cpp)\<close>

definition kBufferChunkRate :: u32 where
  "kBufferChunkRate = 12500"

definition kAbsErrorThrottle :: u32 where
  "kAbsErrorThrottle = 5000"

definition kAbsErrorNoThrottle :: u32 where
  "kAbsErrorNoThrottle = 5000"

definition kTotalBufferSize :: nat where
  "kTotalBufferSize = unat IDLE_LIMIT_COUNT + unat READ_AHEAD_COUNT + 110"

text \<open>The alternating reference rates; \<open>n\<close> positions from \<open>pos\<close> on.\<close>

fun rates_from :: "nat \<Rightarrow> nat \<Rightarrow> u32 \<Rightarrow> u32 list" where
  "rates_from 0 pos refRate = []"
| "rates_from (Suc n) pos refRate =
     (let refRate' = (if pos mod 5 = 0
                      then (if refRate = kBufferChunkRate then kBufferChunkRate div 2 else kBufferChunkRate)
                      else refRate)
      in refRate' # rates_from n (pos + 1) refRate')"

definition test_rates :: "u32 list" where
  "test_rates = 0 # rates_from (kTotalBufferSize - 1) 1 kBufferChunkRate"

text \<open>The registrations: a sleep of the reference rate before each of them.\<close>

fun register_rates ::
  "('t, u32) circ_ops \<Rightarrow> (nat \<Rightarrow> nat) \<Rightarrow> nat \<Rightarrow> int \<Rightarrow> u32 list \<Rightarrow> 't throttle \<Rightarrow> 't throttle" where
  "register_rates T late pos now [] t = t"
| "register_rates T late pos now (r # rs) t =
     (let now' = now + uint r * 1000 + int (late pos)
      in register_rates T late (pos + 1) now' rs (registerTimePeriod T now' t))"

definition ASSERT_NEAR :: "u32 \<Rightarrow> u32 \<Rightarrow> u32 \<Rightarrow> bool" where
  "ASSERT_NEAR val1 val2 abs_error \<longleftrightarrow> \<bar>uint val1 - uint val2\<bar> \<le> uint abs_error"

definition rate_expected :: "nat \<Rightarrow> u32 \<Rightarrow> bool" where
  "rate_expected pos readTime \<longleftrightarrow>
     (if pos < unat READ_AHEAD_COUNT then ASSERT_NEAR 0 readTime kAbsErrorNoThrottle
      else if pos < kTotalBufferSize - unat LIVE_POSITION_THRESHOLD_INDEX
      then ASSERT_NEAR (test_rates ! pos) readTime kAbsErrorThrottle
      else ASSERT_NEAR 0 readTime kAbsErrorNoThrottle)"

text \<open>The reading loop: the first assertion that fails ends the test.\<close>

fun read_rates ::
  "('t, u32) circ_ops \<Rightarrow> timing \<Rightarrow> nat list \<Rightarrow> 't throttle \<Rightarrow> bool option" where
  "read_rates T w [] t = Some True"
| "read_rates T w (pos # ps) t =
     (case timed_wait T (thread_late w) (thread_lead w pos) 8
             (setReadPosition (of_nat pos) (thread_runs T (thread_gap w pos) t)) of
        None \<Rightarrow> None
      | Some (ns, t') \<Rightarrow>
          if rate_expected pos (of_nat (ns div 1000)) then read_rates T w ps t' else Some False)"

definition RateTest :: "('t, u32) circ_ops \<Rightarrow> timing \<Rightarrow> int \<Rightarrow> bool option" where
  "RateTest T w start =
     read_rates T w [0..<kTotalBufferSize]
       (register_rates T (test_late w) 0 start test_rates (throttle_new T 1000))"

end
