(* ===== verification/Rates_Correct.thy ===== *)
theory Rates_Correct
  imports Throttle_Rates
begin

text \<open>
  How long a reader that takes one position after the other is held back: exactly the
  recorded period of each position, when the thread finishes its round before the reader
  it has let go stores its position; and not always, when the reader is faster.
\<close>

section \<open>The steps of the thread\<close>

lemma step_top:
  assumes "loopPc t = LoopTop" and "mThrottleRunning t" and "\<not> mExitRequested t"
  shows "loop_step T b t = t\<lparr>mIdleCount := 0, loopPc := LoopHead\<rparr>"
  using assms by (simp add: loop_step_def)

lemma step_start:
  assumes "loopPc t = LoopAwaitStart" and "mNotified (mCvStartThrottle t)"
  shows "loop_step T b t = t\<lparr>mCvStartThrottle := (mCvStartThrottle t)\<lparr>mNotified := False\<rparr>, loopPc := LoopHead\<rparr>"
  using assms by (simp add: loop_step_def cv_wait_pred_def)

lemma step_sleep:
  assumes "loopPc t = LoopSleep d"
  shows "loop_step T b t = t\<lparr>mThrottleIndex := mThrottleIndex t + 1,
    mCvThrottleChanged := cv_notifyOne (mCvThrottleChanged t),
    mIdleCount := (if mLastPos t = mLastPosIdle t then mIdleCount t + 1 else 0), loopPc := LoopAccount\<rparr>"
  using assms by (simp add: loop_step_def)

lemma step_account:
  assumes "loopPc t = LoopAccount" and "mIdleCount t \<le> 100"
  shows "loop_step T b t = t\<lparr>mLastPosIdle := mLastPos t, loopPc := LoopHead\<rparr>"
  using assms by (auto simp: loop_step_def IDLE_LIMIT_COUNT_def Let_def dest: leD)

lemma step_account_idle:
  assumes "loopPc t = LoopAccount" and "100 < mIdleCount t"
  shows "loop_step T b t = t\<lparr>mLastPosIdle := mLastPos t, mThrottleRunning := False,
    mCvThrottleChanged := cv_notifyOne (mCvThrottleChanged t), loopPc := LoopHead\<rparr>"
  using assms by (simp add: loop_step_def stop_throttle_def IDLE_LIMIT_COUNT_def)

lemma thread_runs_sleeping: "sleeping (loopPc t) \<Longrightarrow> thread_runs T k t = t"
  by (cases k) simp_all

lemma thread_runs_keeps [simp]:
  "mPos (thread_runs T k t) = mPos t" "mLastPos (thread_runs T k t) = mLastPos t"
  "mReadAheadCount (thread_runs T k t) = mReadAheadCount t"
  "mEnableThrottling (thread_runs T k t) = mEnableThrottling t"
  "mExitRequested (thread_runs T k t) = mExitRequested t"
  "mTimePeriodBuffer (thread_runs T k t) = mTimePeriodBuffer t"
  by (induction k arbitrary: t) simp_all

lemma sleep_ns_notified [simp]: "sleep_ns late (t\<lparr>mCvThrottleChanged := h\<rparr>) = sleep_ns late t"
  by (simp add: sleep_ns_def split: loop_pc.splits)

lemma wait_loop_blocked:
  assumes "wait_blocked t"
  shows "\<exists>h. \<forall>late k n. wait_loop T late k (Suc n) t =
    map_option (\<lambda>(d, t'). (sleep_ns late t + d, t'))
      (wait_loop T late k n (thread_runs T k (loop_step T True (t\<lparr>mCvThrottleChanged := h\<rparr>))))"
proof (cases "cv_wait_pred (mPos t < mThrottleIndex t \<or> \<not> mThrottleRunning t) (mCvThrottleChanged t)")
  case None
  have "t\<lparr>mCvThrottleChanged := mCvThrottleChanged t\<rparr> = t" by simp
  with None assms show ?thesis
    by (intro exI [of _ "mCvThrottleChanged t"]) (simp add: wait_poll_def)
next
  case (Some h)
  with assms show ?thesis
    by (intro exI [of _ h]) (simp add: wait_poll_def)
qed

lemma wait_loop_released:
  "\<not> wait_blocked t \<Longrightarrow> wait_loop T late k (Suc n) t = Some (0, t\<lparr>mLastPos := mPos t\<rparr>)"
  by (simp add: wait_poll_def)

text \<open>What the registration after a sleep of \<open>r\<close> microseconds records.\<close>

definition recorded :: "(nat \<Rightarrow> nat) \<Rightarrow> nat \<times> u32 \<Rightarrow> u32" where
  "recorded late = (\<lambda>(pos, r). truncate_period (word_of_int ((uint r * 1000 + int (late pos)) sdiv 1000)))"

section \<open>One wait\<close>

context time_ring
begin

lemma step_head:
  assumes "loopPc t = LoopHead" and "mThrottleRunning t" and "\<not> mExitRequested t"
    and "unat (mThrottleIndex t) < length (periods t)"
  shows "loop_step T b t = t\<lparr>loopPc := LoopSleep (periods t ! unat (mThrottleIndex t))\<rparr>"
  using assms by (simp add: loop_step_def less_size_iff index_elems)

lemma runs_head:
  assumes "loopPc t = LoopHead" and "mThrottleRunning t" and "\<not> mExitRequested t"
    and "unat (mThrottleIndex t) < length (periods t)"
  shows "thread_runs T k t =
    (if k = 0 then t else t\<lparr>loopPc := LoopSleep (periods t ! unat (mThrottleIndex t))\<rparr>)"
  using step_head [OF assms] assms(1) by (cases k) (simp_all add: thread_runs_sleeping)

text \<open>
  The thread on the way to the sleep of position \<open>n\<close>: at the head of its loop or asleep.
\<close>

definition heading :: "nat \<Rightarrow> 't throttle \<Rightarrow> bool" where
  "heading n t \<longleftrightarrow>
     mThrottleRunning t \<and> \<not> mExitRequested t \<and> mEnableThrottling t \<and> mReadAheadCount t = 31 \<and>
     mThrottleIndex t = of_nat n \<and> unat (of_nat n :: u64) = n \<and> n < length (periods t) \<and>
     (loopPc t = LoopHead \<or> loopPc t = LoopSleep (periods t ! n))"

lemma heading_runs:
  assumes "heading n t"
  shows "heading n (thread_runs T k t) \<and> mLastPosIdle (thread_runs T k t) = mLastPosIdle t"
proof (cases "loopPc t = LoopHead")
  case True
  with assms runs_head [of t k]
  have "thread_runs T k t = (if k = 0 then t else t\<lparr>loopPc := LoopSleep (periods t ! n)\<rparr>)"
    by (simp add: heading_def)
  with assms show ?thesis
    by (cases "k = 0") (simp_all add: heading_def)
next
  case False
  with assms have "thread_runs T k t = t"
    by (intro thread_runs_sleeping) (auto simp: heading_def)
  with assms show ?thesis by simp
qed

lemma sleep_round:
  assumes "heading n t" and "loopPc t = LoopSleep (periods t ! n)" and "mPos t = of_nat n"
    and "mLastPos t \<noteq> mLastPosIdle t" and "Suc n < length (periods t)"
  shows "\<exists>t'. wait_loop T late (Suc k) (Suc (Suc m)) t = Some (unat (periods t ! n) * 1000 + late n, t')
    \<and> heading (Suc n) t' \<and> mLastPos t' = of_nat n \<and> mLastPosIdle t' = mLastPos t
    \<and> mTimePeriodBuffer t' = mTimePeriodBuffer t"
proof -
  have n: "unat (of_nat n :: u64) = n" using assms(1) by (simp add: heading_def)
  have Suc_n: "unat (of_nat n + 1 :: u64) = Suc n"
    using index_inc [of t] assms(1) by (simp add: heading_def)
  have "wait_blocked t" using assms(1,3) by (simp add: heading_def wait_blocked_def)
  then obtain h where loop: "\<And>late k n. wait_loop T late k (Suc n) t =
    map_option (\<lambda>(d, t'). (sleep_ns late t + d, t'))
      (wait_loop T late k n (thread_runs T k (loop_step T True (t\<lparr>mCvThrottleChanged := h\<rparr>))))"
    using wait_loop_blocked [of t T] by blast
  define t1 where "t1 = loop_step T True (t\<lparr>mCvThrottleChanged := h\<rparr>)"
  define t2 where "t2 = loop_step T False t1"
  have t1: "t1 = t\<lparr>mCvThrottleChanged := cv_notifyOne h, mThrottleIndex := of_nat n + 1,
      mIdleCount := 0, loopPc := LoopAccount\<rparr>"
    using assms(1,2,4) step_sleep [of "t\<lparr>mCvThrottleChanged := h\<rparr>"]
    unfolding t1_def by (simp add: heading_def)
  have t2: "t2 = t1\<lparr>mLastPosIdle := mLastPos t, loopPc := LoopHead\<rparr>"
    unfolding t2_def using t1 by (subst step_account) simp_all
  have "heading (Suc n) t2"
    using assms(1,5) t1 t2 Suc_n by (simp add: heading_def ac_simps)
  note runs = heading_runs [OF this, of k, THEN conjunct1]
    heading_runs [OF this, of k, THEN conjunct2]
  have "mPos (thread_runs T k t2) = of_nat n"
    using t1 t2 assms(3) by simp
  with runs(1) have out: "\<not> wait_blocked (thread_runs T k t2)"
    using n Suc_n by (simp add: heading_def wait_blocked_def word_le_nat_alt ac_simps)
  have "wait_loop T late (Suc k) (Suc (Suc m)) t = Some (sleep_ns late t,
      (thread_runs T k t2)\<lparr>mLastPos := mPos (thread_runs T k t2)\<rparr>)"
    using loop [of late "Suc k" "Suc m"] wait_loop_released [OF out] t1
    unfolding t1_def [symmetric] t2_def by (simp del: wait_loop.simps)
  moreover have "sleep_ns late t = unat (periods t ! n) * 1000 + late n"
    using assms(1,2) n by (simp add: sleep_ns_def heading_def)
  ultimately show ?thesis
    using runs \<open>mPos (thread_runs T k t2) = of_nat n\<close> t1 t2
    by (simp add: heading_def del: wait_loop.simps)
qed

text \<open>What a wait at position \<open>n\<close> leaves behind, after which time.\<close>

definition waits_period :: "(nat \<Rightarrow> nat) \<Rightarrow> nat \<Rightarrow> 't throttle \<Rightarrow> (nat \<times> 't throttle) option \<Rightarrow> bool" where
  "waits_period late n t r \<longleftrightarrow>
     (\<exists>t'. r = Some (unat (periods t ! n) * 1000 + late n, t') \<and> heading (Suc n) t' \<and>
        mLastPos t' = of_nat n \<and> mLastPosIdle t' = mLastPos t \<and>
        mTimePeriodBuffer t' = mTimePeriodBuffer t)"

lemma awake_round:
  assumes "wait_blocked t" and "\<not> sleeping (loopPc t)"
    and "\<And>h. waits_period late n t (wait_loop T late k m
      (thread_runs T k (loop_step T True (t\<lparr>mCvThrottleChanged := h\<rparr>))))"
  shows "waits_period late n t (wait_loop T late k (Suc m) t)"
proof -
  obtain h where loop: "wait_loop T late k (Suc m) t =
    map_option (\<lambda>(d, t'). (sleep_ns late t + d, t'))
      (wait_loop T late k m (thread_runs T k (loop_step T True (t\<lparr>mCvThrottleChanged := h\<rparr>))))"
    using wait_loop_blocked [OF assms(1), of T] by blast
  have "sleep_ns late t = 0"
    using assms(2) by (cases "loopPc t") (simp_all add: sleep_ns_def)
  with assms(3) [of h] show ?thesis
    unfolding waits_period_def loop by auto
qed

lemma head_round:
  assumes "heading n t" and "mPos t = of_nat n" and "mLastPos t \<noteq> mLastPosIdle t"
    and "Suc n < length (periods t)"
  shows "waits_period late n t (wait_loop T late (Suc k) (Suc (Suc (Suc m))) t)"
proof (cases "loopPc t = LoopHead")
  case True
  show ?thesis
  proof (rule awake_round)
    show "wait_blocked t" using assms(1,2) by (simp add: heading_def wait_blocked_def)
    show "\<not> sleeping (loopPc t)" using True by simp
    fix h
    let ?t = "t\<lparr>mCvThrottleChanged := h, loopPc := LoopSleep (periods t ! n)\<rparr>"
    have "loop_step T True (t\<lparr>mCvThrottleChanged := h\<rparr>) = ?t"
      using True assms(1) by (subst step_head) (simp_all add: heading_def)
    moreover have "heading n ?t" using assms(1) by (simp add: heading_def)
    ultimately show "waits_period late n t (wait_loop T late (Suc k) (Suc (Suc m))
        (thread_runs T (Suc k) (loop_step T True (t\<lparr>mCvThrottleChanged := h\<rparr>))))"
      using sleep_round [of n ?t late k m] assms(2-4)
      by (simp add: waits_period_def thread_runs_sleeping del: wait_loop.simps)
  qed
next
  case False
  with assms(1) have "loopPc t = LoopSleep (periods t ! n)" by (simp add: heading_def)
  with sleep_round [OF assms(1) _ assms(2-4), of late k "Suc m"] show ?thesis
    by (simp add: waits_period_def del: wait_loop.simps)
qed

text \<open>The thread before it has seen the start request.\<close>

lemma start_round:
  assumes "wait_blocked t" and "loopPc t = LoopTop \<or> loopPc t = LoopAwaitStart \<and> mNotified (mCvStartThrottle t)"
    and "heading n (t\<lparr>loopPc := LoopHead\<rparr>)" and "mPos t = of_nat n" and "mLastPos t \<noteq> mLastPosIdle t"
    and "Suc n < length (periods t)"
  shows "waits_period late n t (wait_loop T late (Suc k) (Suc (Suc (Suc (Suc m)))) t)"
proof (rule awake_round [OF assms(1)])
  show "\<not> sleeping (loopPc t)" using assms(2) by auto
  fix h
  let ?t = "loop_step T True (t\<lparr>mCvThrottleChanged := h\<rparr>)"
  have run: "mThrottleRunning t" "\<not> mExitRequested t" using assms(3) by (simp_all add: heading_def)
  have "?t = t\<lparr>mCvThrottleChanged := h, mIdleCount := 0, loopPc := LoopHead\<rparr> \<or>
    ?t = t\<lparr>mCvThrottleChanged := h, mCvStartThrottle := (mCvStartThrottle t)\<lparr>mNotified := False\<rparr>, loopPc := LoopHead\<rparr>"
    using assms(2) run by (auto simp: step_top step_start)
  with assms(3-5) have t: "heading n ?t" "mPos ?t = of_nat n" "mLastPos ?t \<noteq> mLastPosIdle ?t"
    by (auto simp: heading_def)
  show "waits_period late n t (wait_loop T late (Suc k) (Suc (Suc (Suc m))) (thread_runs T (Suc k) ?t))"
    using head_round [of n "thread_runs T (Suc k) ?t" late k m] heading_runs [OF t(1), of "Suc k"] t(2,3) assms(6)
    by (simp add: waits_period_def del: wait_loop.simps thread_runs.simps)
qed

section \<open>The calls of the reader\<close>

text \<open>After \<open>n\<close> waits, the read-ahead not yet used up or just used up.\<close>

definition reading_ahead :: "nat \<Rightarrow> 't throttle \<Rightarrow> bool" where
  "reading_ahead n t \<longleftrightarrow>
     \<not> mThrottleRunning t \<and> \<not> mExitRequested t \<and> mEnableThrottling t \<and>
     (loopPc t = LoopTop \<or> loopPc t = LoopAwaitStart) \<and> \<not> mNotified (mCvStartThrottle t) \<and>
     mLastPosIdle t = 0 \<and> mReadAheadCount t = (if n < 30 then of_nat n else 31) \<and>
     mLastPos t = of_nat (n - 1)"

lemma reading_ahead_runs: "reading_ahead n t \<Longrightarrow> reading_ahead n (thread_runs T k t)"
proof (induction k arbitrary: t)
  case (Suc k)
  have "reading_ahead n (loop_step T False t)"
    using Suc.prems by (auto simp: reading_ahead_def loop_step_def cv_wait_pred_def)
  with Suc show ?case by simp
qed simp

lemma u64_small: "k < 4294967296 \<Longrightarrow> unat (of_nat k :: u64) = k"
  by (rule unat_of_nat_u64) simp

definition far_from_live :: "nat \<Rightarrow> 't throttle \<Rightarrow> bool" where
  "far_from_live n t \<longleftrightarrow> n + 10 < length (periods t) \<and> length (periods t) < 4294967296"

lemma far_from_liveD:
  assumes "far_from_live n t"
  shows "\<not> cb_size T (mTimePeriodBuffer t) - of_nat n \<le> 10" and "unat (of_nat n :: u64) = n"
    and "Suc n < length (periods t)"
proof -
  show n: "unat (of_nat n :: u64) = n"
    using assms by (intro u64_small) (simp add: far_from_live_def)
  have "unat (cb_size T (mTimePeriodBuffer t) - of_nat n) = length (periods t) - n"
    using assms n by (subst unat_sub) (simp_all add: far_from_live_def le_size_iff word_le_nat_alt)
  then show "\<not> cb_size T (mTimePeriodBuffer t) - of_nat n \<le> 10"
    using assms unfolding word_le_nat_alt far_from_live_def by (simp del: diff_diff_left; linarith)
  show "Suc n < length (periods t)" using assms by (simp add: far_from_live_def)
qed

lemma wait_ahead:
  assumes "reading_ahead n t" and "n < 30" and "far_from_live n t"
  shows "\<exists>t'. timed_wait T late k fuel (setReadPosition (of_nat n) t) = Some (0, t') \<and>
    reading_ahead (Suc n) t' \<and> loopPc t' = loopPc t \<and> mTimePeriodBuffer t' = mTimePeriodBuffer t"
proof -
  have c: "mReadAheadCount t = of_nat n" using assms(1,2) by (simp add: reading_ahead_def)
  have n: "unat (of_nat n :: u64) = n" "unat (of_nat n + 1 :: u64) = Suc n"
    using u64_small [of n] u64_small [of "Suc n"] assms(2) by (simp_all add: ac_simps)
  have lt: "(of_nat n :: u64) < 30" "\<not> 30 < (of_nat n + 1 :: u64)"
    using n assms(2) by (simp_all add: word_less_nat_alt)
  have eq: "(of_nat n + 1 :: u64) = 30 \<longleftrightarrow> n = 29"
    using n(2) by (simp add: word_unat_eq_iff)
  define t' where "t' = t\<lparr>mPos := of_nat n, mLastPos := of_nat n,
    mReadAheadCount := (if n = 29 then 31 else of_nat n + 1),
    mThrottleIndex := (if n = 29 then of_nat n else mThrottleIndex t)\<rparr>"
  have en: "mEnableThrottling t" using assms(1) by (simp add: reading_ahead_def)
  have "wait_enter T (setReadPosition (of_nat n) t) = (False, t')"
    using c lt eq en far_from_liveD(1) [OF assms(3)]
    unfolding wait_enter_def setReadPosition_def throttle_constants t'_def
    by (cases "n = 29") (simp_all add: Let_def)
  then have "timed_wait T late k fuel (setReadPosition (of_nat n) t) = Some (0, t')"
    by (simp add: timed_wait_def)
  moreover have "reading_ahead (Suc n) t'"
    using assms(1,2) by (auto simp: reading_ahead_def t'_def)
  ultimately show ?thesis by (simp add: t'_def)
qed

lemma wait_live:
  assumes "length (periods t) < 4294967296" and "n \<le> length (periods t)" and "length (periods t) \<le> n + 10"
  shows "\<exists>t'. timed_wait T late k fuel (setReadPosition (of_nat n) t) = Some (0, t') \<and>
    mTimePeriodBuffer t' = mTimePeriodBuffer t"
proof -
  have n: "unat (of_nat n :: u64) = n" using assms(1,2) by (intro u64_small) simp
  have "unat (cb_size T (mTimePeriodBuffer t) - of_nat n) = length (periods t) - n"
    using assms n by (subst unat_sub) (simp_all add: le_size_iff word_le_nat_alt)
  then have "cb_size T (mTimePeriodBuffer t) - of_nat n \<le> 10"
    using assms by (simp add: word_le_nat_alt)
  then show ?thesis
    by (simp add: timed_wait_def wait_enter_def setReadPosition_def LIVE_POSITION_THRESHOLD_INDEX_def)
qed

lemma wait_starts:
  assumes "reading_ahead 30 t" and "far_from_live 30 t"
  shows "waits_period late 30 t (timed_wait T late (Suc k) 8 (setReadPosition (of_nat 30) t))"
proof -
  define t' where "t' = t\<lparr>mPos := 30, mThrottleIndex := 30, mThrottleRunning := True,
    mCvStartThrottle := cv_notifyOne (mCvStartThrottle t)\<rparr>"
  have blocked: "wait_blocked t'" by (simp add: wait_blocked_def t'_def)
  have "wait_enter T (setReadPosition (of_nat 30) t) = (True, t')"
    using assms(1) blocked far_from_liveD(1) [OF assms(2)]
    by (simp add: wait_enter_def setReadPosition_def throttle_constants t'_def reading_ahead_def Let_def)
  then have "timed_wait T late (Suc k) 8 (setReadPosition (of_nat 30) t) = wait_loop T late (Suc k) 8 t'"
    by (simp only: timed_wait_def prod.case bool.case)
  moreover have h: "loopPc t' = LoopTop \<or> loopPc t' = LoopAwaitStart \<and> mNotified (mCvStartThrottle t')"
    "heading 30 (t'\<lparr>loopPc := LoopHead\<rparr>)" "mPos t' = of_nat 30" "mLastPos t' \<noteq> mLastPosIdle t'"
    "Suc 30 < length (periods t')" and eq: "mLastPos t' = mLastPos t" "mTimePeriodBuffer t' = mTimePeriodBuffer t"
    using assms far_from_liveD(3) [OF assms(2)]
    by (auto simp: t'_def heading_def reading_ahead_def cv_notifyOne_def)
  moreover have "8 = Suc (Suc (Suc (Suc 4)))" by simp
  ultimately show ?thesis
    using start_round [OF blocked h, of late k 4] by (simp only: waits_period_def eq)
qed

definition paced :: "nat \<Rightarrow> 't throttle \<Rightarrow> bool" where
  "paced n t \<longleftrightarrow>
     heading n t \<and> mLastPos t = of_nat (n - 1) \<and> mLastPos t \<noteq> mLastPosIdle t"

lemma not_jumped:
  assumes "mPos t = of_nat n" and "mLastPos t = of_nat (n - 1)" and "0 < n"
  shows "\<not> position_jumped t"
proof -
  have "mPos t - mLastPos t = 1" using assms by (simp add: of_nat_diff)
  moreover have "\<not> (10 :: c_int) <s 1" "\<not> (10 :: c_int) <s - 1" by code_simp+
  ultimately show ?thesis by (simp add: position_jumped_def abs_int_def)
qed

lemma wait_paced:
  assumes "paced n t" and "0 < n" and "far_from_live n t"
  shows "waits_period late n t (timed_wait T late (Suc k) 8 (setReadPosition (of_nat n) t))"
proof -
  define t' where "t' = setReadPosition (of_nat n) t"
  have h: "heading n t'" "mPos t' = of_nat n" "mLastPos t' = of_nat (n - 1)" "mLastPos t' \<noteq> mLastPosIdle t'"
    "mTimePeriodBuffer t' = mTimePeriodBuffer t" "mLastPos t' = mLastPos t"
    using assms(1) by (auto simp: t'_def setReadPosition_def paced_def heading_def)
  have blocked: "wait_blocked t'" using h(1,2) by (simp add: wait_blocked_def heading_def)
  have "wait_enter T t' = (True, t')"
    using h(1,2) not_jumped [OF h(2,3) assms(2)] blocked far_from_liveD(1) [OF assms(3)] h(5)
    by (simp add: wait_enter_def throttle_constants heading_def Let_def)
  then have "timed_wait T late (Suc k) 8 t' = wait_loop T late (Suc k) 8 t'"
    by (simp only: timed_wait_def prod.case bool.case)
  moreover have "8 = Suc (Suc (Suc 5))" by simp
  ultimately show ?thesis
    using head_round [OF h(1,2,4), of late k 5] far_from_liveD(3) [OF assms(3)] h(5,6)
    by (simp only: waits_period_def t'_def)
qed

text \<open>The state between two calls of the reader.\<close>

definition reader_state :: "nat \<Rightarrow> 't throttle \<Rightarrow> bool" where
  "reader_state n t \<longleftrightarrow> (if n \<le> 30 then reading_ahead n t else paced n t)"

lemma reader_state_runs: "reader_state n t \<Longrightarrow> reader_state n (thread_runs T k t)"
  using heading_runs [of n t k]
  by (auto simp: reader_state_def paced_def reading_ahead_runs split: if_splits)

lemma waits_period_paced:
  assumes "waits_period late n t r" and "mLastPos t = of_nat (n - 1)" and "0 < n"
  shows "\<exists>t'. r = Some (unat (periods t ! n) * 1000 + late n, t') \<and> paced (Suc n) t' \<and>
    mTimePeriodBuffer t' = mTimePeriodBuffer t"
proof -
  have "(of_nat n :: u64) \<noteq> of_nat (n - 1)" using assms(3) by (simp add: of_nat_diff)
  with assms show ?thesis by (auto simp: waits_period_def paced_def)
qed

text \<open>Any wait that is not in the live window.\<close>

lemma timed_wait_paces:
  assumes "reader_state n t" and "far_from_live n t"
  shows "\<exists>t'. timed_wait T late (Suc k) 8 (setReadPosition (of_nat n) t) =
      Some (if n < 30 then 0 else unat (periods t ! n) * 1000 + late n, t') \<and>
    reader_state (Suc n) t' \<and> mTimePeriodBuffer t' = mTimePeriodBuffer t"
proof -
  consider "n < 30" | "n = 30" | "30 < n" by linarith
  then show ?thesis
  proof cases
    case 1
    with wait_ahead [of n t late "Suc k" 8] assms show ?thesis by (auto simp: reader_state_def)
  next
    case 2
    with assms have t: "reading_ahead 30 t" by (simp add: reader_state_def)
    then have "mLastPos t = of_nat (30 - 1)" by (simp add: reading_ahead_def)
    with waits_period_paced [OF wait_starts [OF t, of late k]] 2 assms(2) show ?thesis
      by (auto simp: reader_state_def)
  next
    case 3
    with assms have t: "paced n t" by (simp add: reader_state_def)
    with waits_period_paced [OF wait_paced [OF t _ assms(2), of late k]] 3 show ?thesis
      by (auto simp: reader_state_def paced_def)
  qed
qed

subsection \<open>A reader that is faster than the thread\<close>

text \<open>
  After \<open>n\<close> waits of a reader that has stored its position while the thread still has
  to copy it: the thread is about to finish its round, with the idle count at \<open>j\<close>.
\<close>

definition outrun :: "nat \<Rightarrow> nat \<Rightarrow> 't throttle \<Rightarrow> bool" where
  "outrun j n t \<longleftrightarrow>
     heading n (t\<lparr>loopPc := LoopHead\<rparr>) \<and> loopPc t = LoopAccount \<and> mLastPos t = of_nat (n - 1) \<and>
     mIdleCount t = of_nat j"

lemma awake_step:
  assumes "wait_blocked t" and "\<not> sleeping (loopPc t)"
  shows "\<exists>h. wait_loop T late 0 (Suc m) t = wait_loop T late 0 m (loop_step T True (t\<lparr>mCvThrottleChanged := h\<rparr>))"
proof -
  obtain h where loop: "wait_loop T late 0 (Suc m) t =
    map_option (\<lambda>(d, t'). (sleep_ns late t + d, t'))
      (wait_loop T late 0 m (thread_runs T 0 (loop_step T True (t\<lparr>mCvThrottleChanged := h\<rparr>))))"
    using wait_loop_blocked [OF assms(1), of T] by blast
  moreover have "sleep_ns late t = 0"
    using assms(2) by (cases "loopPc t") (simp_all add: sleep_ns_def)
  ultimately have "wait_loop T late 0 (Suc m) t =
      wait_loop T late 0 m (loop_step T True (t\<lparr>mCvThrottleChanged := h\<rparr>))"
    by (simp add: case_prod_beta' option.map_ident del: wait_loop.simps)
  then show ?thesis by blast
qed

lemma outrun_sleep:
  assumes "heading n (t\<lparr>loopPc := LoopHead\<rparr>)" and "loopPc t = LoopHead" and "mPos t = of_nat n"
    and "Suc n < length (periods t)"
    and "(if mLastPos t = mLastPosIdle t then mIdleCount t + 1 else 0) = of_nat j"
  shows "\<exists>t'. wait_loop T late 0 (Suc (Suc (Suc m))) t = Some (unat (periods t ! n) * 1000 + late n, t')
    \<and> outrun j (Suc n) t' \<and> mTimePeriodBuffer t' = mTimePeriodBuffer t"
proof -
  note H = assms(1) [unfolded heading_def, simplified]
  have Suc_n: "unat (of_nat n + 1 :: u64) = Suc n" using index_inc [of t] H by simp
  have "wait_blocked t" using H assms(3) by (simp add: wait_blocked_def)
  then obtain h where l1: "wait_loop T late 0 (Suc (Suc (Suc m))) t =
      wait_loop T late 0 (Suc (Suc m)) (loop_step T True (t\<lparr>mCvThrottleChanged := h\<rparr>))"
    using awake_step [of t late "Suc (Suc m)"] assms(2) by auto
  define t1 where "t1 = t\<lparr>mCvThrottleChanged := h, loopPc := LoopSleep (periods t ! n)\<rparr>"
  have t1: "loop_step T True (t\<lparr>mCvThrottleChanged := h\<rparr>) = t1"
    using assms(2) H unfolding t1_def by (subst step_head) simp_all
  have "wait_blocked t1" using H assms(3) by (simp add: wait_blocked_def t1_def)
  then obtain h' where l2: "wait_loop T late 0 (Suc (Suc m)) t1 =
    map_option (\<lambda>(d, t'). (sleep_ns late t1 + d, t'))
      (wait_loop T late 0 (Suc m) (thread_runs T 0 (loop_step T True (t1\<lparr>mCvThrottleChanged := h'\<rparr>))))"
    using wait_loop_blocked [of t1 T] by blast
  define t2 where "t2 = t1\<lparr>mCvThrottleChanged := cv_notifyOne h', mThrottleIndex := of_nat n + 1,
    mIdleCount := of_nat j, loopPc := LoopAccount\<rparr>"
  have t2: "loop_step T True (t1\<lparr>mCvThrottleChanged := h'\<rparr>) = t2"
    using H unfolding t2_def assms(5) [symmetric]
    by (subst step_sleep [where d = "periods t ! n"]) (simp_all add: t1_def)
  have out: "\<not> wait_blocked t2"
    using H Suc_n assms(3) by (simp add: wait_blocked_def t1_def t2_def word_le_nat_alt)
  have "wait_loop T late 0 (Suc (Suc (Suc m))) t = Some (sleep_ns late t1, t2\<lparr>mLastPos := mPos t2\<rparr>)"
    using l1 l2 wait_loop_released [OF out, of T late 0 m] by (simp add: t1 t2 del: wait_loop.simps)
  moreover have "sleep_ns late t1 = unat (periods t ! n) * 1000 + late n"
    using H by (simp add: t1_def sleep_ns_def)
  moreover have "outrun j (Suc n) (t2\<lparr>mLastPos := mPos t2\<rparr>)"
    using H Suc_n assms(3,4) by (simp add: outrun_def heading_def t1_def t2_def ac_simps)
  ultimately show ?thesis by (simp add: t1_def t2_def del: wait_loop.simps)
qed

lemma outrun_starts:
  assumes "reading_ahead 30 t" and "loopPc t = LoopTop" and "far_from_live 30 t"
  shows "\<exists>t'. timed_wait T late 0 8 (setReadPosition (of_nat 30) t) = Some (unat (periods t ! 30) * 1000 + late 30, t')
    \<and> outrun 0 31 t' \<and> mTimePeriodBuffer t' = mTimePeriodBuffer t"
proof -
  define t' where "t' = t\<lparr>mPos := 30, mThrottleIndex := 30, mThrottleRunning := True,
    mCvStartThrottle := cv_notifyOne (mCvStartThrottle t)\<rparr>"
  have blocked: "wait_blocked t'" by (simp add: wait_blocked_def t'_def)
  have "wait_enter T (setReadPosition (of_nat 30) t) = (True, t')"
    using assms(1) blocked far_from_liveD(1) [OF assms(3)]
    by (simp add: wait_enter_def setReadPosition_def throttle_constants t'_def reading_ahead_def Let_def)
  then have enter: "timed_wait T late 0 8 (setReadPosition (of_nat 30) t) = wait_loop T late 0 8 t'"
    by (simp only: timed_wait_def prod.case bool.case)
  have "\<not> sleeping (loopPc t')" using assms(2) by (simp add: t'_def)
  then obtain h where loop: "wait_loop T late 0 (Suc 7) t' = wait_loop T late 0 7 (loop_step T True (t'\<lparr>mCvThrottleChanged := h\<rparr>))"
    using awake_step [OF blocked, of late 7] by blast
  let ?t = "loop_step T True (t'\<lparr>mCvThrottleChanged := h\<rparr>)"
  have t: "?t = t'\<lparr>mCvThrottleChanged := h, mIdleCount := 0, loopPc := LoopHead\<rparr>"
    using assms(1,2) by (subst step_top) (simp_all add: t'_def reading_ahead_def)
  have "\<exists>t'. wait_loop T late 0 (Suc (Suc (Suc 4))) ?t = Some (unat (periods ?t ! 30) * 1000 + late 30, t')
    \<and> outrun 0 (Suc 30) t' \<and> mTimePeriodBuffer t' = mTimePeriodBuffer ?t"
    using assms(1) far_from_liveD(3) [OF assms(3)] unfolding t
    by (intro outrun_sleep) (simp_all add: t'_def heading_def reading_ahead_def)
  moreover have "Suc (Suc (Suc 4)) = 7" "8 = Suc 7" "Suc 30 = 31" "mTimePeriodBuffer ?t = mTimePeriodBuffer t"
    by (simp_all add: t'_def)
  ultimately show ?thesis unfolding enter by (simp only: loop)
qed

lemma outrun_enter:
  assumes "outrun j n t" and "0 < n" and "far_from_live n t"
  shows "timed_wait T late 0 8 (setReadPosition (of_nat n) t) = wait_loop T late 0 8 (setReadPosition (of_nat n) t)"
    and "wait_blocked (setReadPosition (of_nat n) t)"
proof -
  define t' where "t' = setReadPosition (of_nat n) t"
  have h: "mPos t' = of_nat n" "mLastPos t' = of_nat (n - 1)" "mTimePeriodBuffer t' = mTimePeriodBuffer t"
    using assms(1) by (auto simp: t'_def setReadPosition_def outrun_def)
  have H: "mThrottleRunning t'" "mThrottleIndex t' = of_nat n" "mReadAheadCount t' = 31" "mEnableThrottling t'"
    using assms(1) by (simp_all add: t'_def setReadPosition_def outrun_def heading_def)
  show blocked: "wait_blocked (setReadPosition (of_nat n) t)"
    using h H by (simp add: wait_blocked_def t'_def)
  have "wait_enter T t' = (True, t')"
    using H h not_jumped [OF h(1,2) assms(2)] blocked far_from_liveD(1) [OF assms(3)]
    by (simp add: wait_enter_def throttle_constants Let_def t'_def [symmetric])
  then show "timed_wait T late 0 8 (setReadPosition (of_nat n) t) = wait_loop T late 0 8 (setReadPosition (of_nat n) t)"
    by (simp only: timed_wait_def t'_def prod.case bool.case)
qed

lemma outrun_step:
  assumes "outrun j n t" and "0 < n" and "far_from_live n t"
  shows "\<exists>h. timed_wait T late 0 8 (setReadPosition (of_nat n) t) =
    wait_loop T late 0 7 (loop_step T True (t\<lparr>mPos := of_nat n, mCvThrottleChanged := h\<rparr>))"
proof -
  have "\<not> sleeping (loopPc (setReadPosition (of_nat n) t))"
    using assms(1) by (simp add: outrun_def setReadPosition_def)
  from awake_step [OF outrun_enter(2) [OF assms] this, of late 7] show ?thesis
    unfolding outrun_enter(1) [OF assms]
    by (simp add: setReadPosition_def eval_nat_numeral del: wait_loop.simps)
qed

lemma outrun_waits:
  assumes "outrun j n t" and "j \<le> 100" and "0 < n" and "far_from_live n t"
  shows "\<exists>t'. timed_wait T late 0 8 (setReadPosition (of_nat n) t) = Some (unat (periods t ! n) * 1000 + late n, t')
    \<and> outrun (Suc j) (Suc n) t' \<and> mTimePeriodBuffer t' = mTimePeriodBuffer t"
proof -
  obtain h where loop: "timed_wait T late 0 8 (setReadPosition (of_nat n) t) =
      wait_loop T late 0 7 (loop_step T True (t\<lparr>mPos := of_nat n, mCvThrottleChanged := h\<rparr>))" (is "_ = wait_loop _ _ _ _ ?t")
    using outrun_step [OF assms(1,3,4)] by blast
  have "(of_nat j :: u16) \<le> 100"
    using assms(2) by (simp add: word_le_nat_alt unat_of_nat take_bit_nat_eq_self)
  then have t: "?t = t\<lparr>mPos := of_nat n, mCvThrottleChanged := h, mLastPosIdle := mLastPos t, loopPc := LoopHead\<rparr>"
    using assms(1) by (subst step_account) (simp_all add: outrun_def)
  have "\<exists>t'. wait_loop T late 0 (Suc (Suc (Suc 4))) ?t = Some (unat (periods ?t ! n) * 1000 + late n, t')
    \<and> outrun (Suc j) (Suc n) t' \<and> mTimePeriodBuffer t' = mTimePeriodBuffer ?t"
    using assms(1) far_from_liveD(3) [OF assms(4)] unfolding t
    by (intro outrun_sleep) (simp_all add: outrun_def heading_def)
  moreover have "Suc (Suc (Suc 4)) = 7" "mTimePeriodBuffer ?t = mTimePeriodBuffer t" by simp_all
  ultimately show ?thesis unfolding loop by (simp only:)
qed

text \<open>The idle limit: the reader waits for no time at all.\<close>

lemma outrun_stops:
  assumes "outrun 101 n t" and "0 < n" and "far_from_live n t"
  shows "\<exists>t'. timed_wait T late 0 8 (setReadPosition (of_nat n) t) = Some (0, t')"
proof -
  obtain h where loop: "timed_wait T late 0 8 (setReadPosition (of_nat n) t) =
      wait_loop T late 0 7 (loop_step T True (t\<lparr>mPos := of_nat n, mCvThrottleChanged := h\<rparr>))" (is "_ = wait_loop _ _ _ _ ?t")
    using outrun_step [OF assms] by blast
  have "\<not> mThrottleRunning ?t"
    using assms(1) by (subst step_account_idle) (simp_all add: outrun_def)
  then have "\<not> wait_blocked ?t" by (simp add: wait_blocked_def)
  from wait_loop_released [OF this, of T late 0 6] show ?thesis
    unfolding loop by (simp del: wait_loop.simps)
qed

section \<open>The registered periods\<close>

lemma register_room:
  assumes "length (periods t) < unat (period_cap t)"
  shows "registerTimePeriod T now t = t\<lparr>mStopWatchTimer := snd (getLapTime now (mStopWatchTimer t)),
    mTimePeriodBuffer := cb_push_back T (truncate_period (fst (getLapTime now (mStopWatchTimer t)))) (mTimePeriodBuffer t),
    mCvTimePeriodRegistered := cv_notifyOne (mCvTimePeriodRegistered t)\<rparr>"
proof -
  have "cb_size T (mTimePeriodBuffer t) \<noteq> period_cap t" using assms by (metis less_irrefl size_elems)
  then show ?thesis by (simp add: registerTimePeriod_def Let_def case_prod_beta)
qed

lemma register_rates_periods:
  assumes "length (periods t) + length rs \<le> unat (period_cap t)"
    and "\<not> mResetTimer (mStopWatchTimer t)" and "mLastTime (mStopWatchTimer t) = now"
  shows "periods (register_rates T late pos now rs t) = periods t @ map (recorded late) (enumerate pos rs)
    \<and> reading_ahead n (register_rates T late pos now rs t) = reading_ahead n t"
  using assms
proof (induction rs arbitrary: pos now t)
  case (Cons r rs)
  let ?now = "now + uint r * 1000 + int (late pos)"
  let ?t = "registerTimePeriod T ?now t"
  have room: "length (periods t) < unat (period_cap t)" using Cons.prems(1) by simp
  have t: "?t = t\<lparr>mStopWatchTimer := \<lparr>mResetTimer = False, mLastTime = ?now\<rparr>,
      mTimePeriodBuffer := cb_push_back T (recorded late (pos, r)) (mTimePeriodBuffer t),
      mCvTimePeriodRegistered := cv_notifyOne (mCvTimePeriodRegistered t)\<rparr>"
    using Cons.prems(2,3) unfolding register_room [OF room]
    by (simp add: getLapTime_def recorded_def)
  have p: "periods ?t = periods t @ [recorded late (pos, r)]"
    using room by (simp add: t)
  have "period_cap ?t = period_cap t" by (simp add: t)
  with Cons.prems(1) p have "length (periods ?t) + length rs \<le> unat (period_cap ?t)" by simp
  from Cons.IH [OF this, of ?now "pos + 1"]
  have "periods (register_rates T late (pos + 1) ?now rs ?t) = periods ?t @ map (recorded late) (enumerate (pos + 1) rs)
    \<and> reading_ahead n (register_rates T late (pos + 1) ?now rs ?t) = reading_ahead n ?t" by (simp add: t)
  moreover have "reading_ahead n ?t = reading_ahead n t" by (simp add: t reading_ahead_def)
  ultimately show ?case using p by (simp add: Let_def)
qed simp

lemma register_all_rates:
  fixes late :: "nat \<Rightarrow> nat" and start :: int
  assumes "Suc (length rs) \<le> unat cap"
  defines "t \<equiv> register_rates T late 0 start (0 # rs) (throttle_new T cap)"
  shows "periods t = 0 # map (recorded late) (enumerate 1 rs)" and "reading_ahead 0 t"
proof -
  let ?now = "start + int (late 0)"
  let ?t = "registerTimePeriod T ?now (throttle_new T cap)"
  have room: "length (periods (throttle_new T cap)) < unat (period_cap (throttle_new T cap))"
    using assms(1) by simp
  have r: "?t = (throttle_new T cap)\<lparr>mStopWatchTimer := \<lparr>mResetTimer = False, mLastTime = ?now\<rparr>,
      mTimePeriodBuffer := cb_push_back T 0 (mTimePeriodBuffer (throttle_new T cap)),
      mCvTimePeriodRegistered := cv_notifyOne (mCvTimePeriodRegistered (throttle_new T cap))\<rparr>"
    unfolding register_room [OF room]
    by (simp add: throttle_new_def stopwatch_new_def getLapTime_def truncate_period_def
        TIME_PERIOD_TRUNCATION_THRESHOLD_US_def)
  have "periods ?t = [0]" "period_cap ?t = cap" using room by (simp_all add: r)
  moreover have "reading_ahead 0 ?t"
    unfolding r by (simp add: reading_ahead_def throttle_new_def cv_helper_new_def)
  moreover have "t = register_rates T late 1 ?now rs ?t" by (simp add: t_def Let_def)
  ultimately show "periods t = 0 # map (recorded late) (enumerate 1 rs)" "reading_ahead 0 t"
    using register_rates_periods [of ?t rs ?now late 1 0] assms(1) by (simp_all add: r)
qed

section \<open>The loop of the test\<close>

lemma read_rates_live:
  assumes "length (periods t) = 240" and "230 \<le> n" and "n \<le> 240"
  shows "read_rates T w [n..<240] t = Some True"
  using assms(3,1,2)
proof (induction n arbitrary: t rule: inc_induct)
  case (step n)
  let ?t = "thread_runs T (thread_gap w n) t"
  obtain t' where "timed_wait T (thread_late w) (thread_lead w n) 8 (setReadPosition (of_nat n) ?t) = Some (0, t')"
    and "mTimePeriodBuffer t' = mTimePeriodBuffer ?t"
    using wait_live [of ?t n "thread_late w" "thread_lead w n" 8] step.prems step.hyps by auto
  moreover have "rate_expected n 0"
    using step.prems(2) by (simp add: rate_expected_def ASSERT_NEAR_def throttle_constants
        kTotalBufferSize_def kAbsErrorNoThrottle_def)
  ultimately show ?case
    using step.IH [of t'] step.prems step.hyps by (simp add: upt_conv_Cons)
qed simp

lemma read_rates_paced:
  assumes "n \<le> 230" and "reader_state n t" and "length (periods t) = 240"
    and "\<And>p. 1 \<le> thread_lead w p"
    and "\<And>p. 30 \<le> p \<Longrightarrow> p < 230 \<Longrightarrow>
      rate_expected p (of_nat ((unat (periods t ! p) * 1000 + thread_late w p) div 1000))"
  shows "read_rates T w [n..<240] t = Some True"
  using assms(1,2,3,5)
proof (induction n arbitrary: t rule: inc_induct)
  case base
  then show ?case by (intro read_rates_live) simp_all
next
  case (step n)
  let ?t = "thread_runs T (thread_gap w n) t"
  obtain k where k: "thread_lead w n = Suc k" using assms(4) [of n] by (cases "thread_lead w n") auto
  have "far_from_live n ?t" using step.prems(2) step.hyps by (simp add: far_from_live_def)
  from timed_wait_paces [OF reader_state_runs [OF step.prems(1)] this, of "thread_late w" k]
  obtain t' where wait: "timed_wait T (thread_late w) (thread_lead w n) 8 (setReadPosition (of_nat n) ?t) =
      Some (if n < 30 then 0 else unat (periods t ! n) * 1000 + thread_late w n, t')"
    and next_state: "reader_state (Suc n) t'" "mTimePeriodBuffer t' = mTimePeriodBuffer t"
    by (auto simp: k)
  have "rate_expected n (of_nat ((if n < 30 then 0 else unat (periods t ! n) * 1000 + thread_late w n) div 1000))"
  proof (cases "n < 30")
    case True
    then show ?thesis
      by (simp add: rate_expected_def ASSERT_NEAR_def throttle_constants kAbsErrorNoThrottle_def)
  next
    case False
    with step.prems(3) [of n] step.hyps show ?thesis by simp
  qed
  moreover have "read_rates T w [Suc n..<240] t' = Some True"
    using step.IH [OF next_state(1)] step.prems(2,3) next_state(2) by simp
  moreover have "[n..<240] = n # [Suc n..<240]" using step.hyps by (simp add: upt_conv_Cons)
  ultimately show ?case by (simp only: wait read_rates.simps option.case prod.case if_True)
qed

text \<open>
  The reader that is always faster: from position 31 on every round adds one to the idle
  count, and position 132 is not waited for.
\<close>

lemma read_rates_outrun:
  assumes "31 \<le> n" and "n \<le> 132" and "outrun (n - 31) n t" and "length (periods t) = 240"
    and "\<And>p. thread_lead w p = 0" and "\<And>p. thread_gap w p = 0"
    and "\<And>p. 30 \<le> p \<Longrightarrow> p < 230 \<Longrightarrow>
      rate_expected p (of_nat ((unat (periods t ! p) * 1000 + thread_late w p) div 1000))"
    and "\<not> rate_expected 132 0"
  shows "read_rates T w [n..<240] t = Some False"
  using assms(2,1,3,4,7)
proof (induction n arbitrary: t rule: inc_induct)
  case base
  then have "far_from_live 132 t" by (simp add: far_from_live_def)
  with outrun_stops [of 132 t "thread_late w"] base
  obtain t' where "timed_wait T (thread_late w) 0 8 (setReadPosition (of_nat 132) t) = Some (0, t')" by auto
  moreover have "[132..<240] = 132 # [133..<240]" by (subst upt_conv_Cons) simp_all
  moreover have "\<not> rate_expected 132 (of_nat (0 div 1000))" using assms(8) by simp
  ultimately show ?case
    by (simp only: read_rates.simps assms(5,6) thread_runs.simps option.case prod.case if_False)
next
  case (step n)
  have far: "far_from_live n t" using step.prems(3) step.hyps by (simp add: far_from_live_def)
  have "n - 31 \<le> 100" "0 < n" using step.hyps step.prems(1) by simp_all
  from outrun_waits [OF step.prems(2) this far, of "thread_late w"]
  obtain t' where wait: "timed_wait T (thread_late w) 0 8 (setReadPosition (of_nat n) t) =
      Some (unat (periods t ! n) * 1000 + thread_late w n, t')"
    and next_state: "outrun (Suc (n - 31)) (Suc n) t'" "mTimePeriodBuffer t' = mTimePeriodBuffer t" by blast
  have "Suc (n - 31) = Suc n - 31" using step.prems(1) by simp
  with step.IH [of t'] next_state step.prems have "read_rates T w [Suc n..<240] t' = Some False" by simp
  moreover have "rate_expected n (of_nat ((unat (periods t ! n) * 1000 + thread_late w n) div 1000))"
    using step.prems(1,4) step.hyps by simp
  moreover have "[n..<240] = n # [Suc n..<240]" using step.hyps by (simp add: upt_conv_Cons)
  ultimately show ?case
    by (simp only: wait read_rates.simps assms(5,6) thread_runs.simps option.case prod.case if_True)
qed

lemma read_rates_ahead:
  assumes "n \<le> 30" and "reading_ahead n t" and "loopPc t = LoopTop" and "length (periods t) = 240"
    and "\<And>p. thread_gap w p = 0"
  shows "\<exists>t'. read_rates T w [n..<240] t = read_rates T w [30..<240] t' \<and> reading_ahead 30 t' \<and>
    loopPc t' = LoopTop \<and> mTimePeriodBuffer t' = mTimePeriodBuffer t"
  using assms(1-4)
proof (induction n arbitrary: t rule: inc_induct)
  case (step n)
  have far: "far_from_live n t" using step.prems(3) step.hyps by (simp add: far_from_live_def)
  from wait_ahead [OF step.prems(1) _ far, of "thread_late w" "thread_lead w n" 8] step.hyps
  obtain t' where wait: "timed_wait T (thread_late w) (thread_lead w n) 8 (setReadPosition (of_nat n) t) = Some (0, t')"
    and next_state: "reading_ahead (Suc n) t'" "loopPc t' = LoopTop" "mTimePeriodBuffer t' = mTimePeriodBuffer t"
    using step.prems(2) by auto
  have "rate_expected n (of_nat (0 div 1000))"
    using step.hyps by (simp add: rate_expected_def ASSERT_NEAR_def throttle_constants)
  moreover have "[n..<240] = n # [Suc n..<240]" using step.hyps by (simp add: upt_conv_Cons)
  ultimately have "read_rates T w [n..<240] t = read_rates T w [Suc n..<240] t'"
    by (simp only: wait read_rates.simps assms(5) thread_runs.simps option.case prod.case if_True)
  with step.IH [of t'] next_state step.prems(3) show ?case by auto
qed auto

lemma read_rates_too_fast:
  assumes "reading_ahead 0 t" and "loopPc t = LoopTop" and "length (periods t) = 240"
    and "\<And>p. thread_lead w p = 0" and "\<And>p. thread_gap w p = 0"
    and "\<And>p. 30 \<le> p \<Longrightarrow> p < 230 \<Longrightarrow>
      rate_expected p (of_nat ((unat (periods t ! p) * 1000 + thread_late w p) div 1000))"
    and "\<not> rate_expected 132 0"
  shows "read_rates T w [0..<240] t = Some False"
proof -
  obtain t' where ahead: "read_rates T w [0..<240] t = read_rates T w [30..<240] t'" "reading_ahead 30 t'"
    "loopPc t' = LoopTop" "mTimePeriodBuffer t' = mTimePeriodBuffer t"
    using read_rates_ahead [of 0 t w] assms(1-3,5) by auto
  have far: "far_from_live 30 t'" using assms(3) ahead(4) by (simp add: far_from_live_def)
  from outrun_starts [OF ahead(2,3) far, of "thread_late w"] obtain t'' where
    wait: "timed_wait T (thread_late w) 0 8 (setReadPosition (of_nat 30) t') =
      Some (unat (periods t' ! 30) * 1000 + thread_late w 30, t'')"
    and next_state: "outrun 0 31 t''" "mTimePeriodBuffer t'' = mTimePeriodBuffer t'" by blast
  have "rate_expected 30 (of_nat ((unat (periods t' ! 30) * 1000 + thread_late w 30) div 1000))"
    using assms(6) [of 30] ahead(4) by simp
  moreover have "[30..<240] = 30 # [31..<240]" by (subst upt_conv_Cons) simp_all
  ultimately have "read_rates T w [30..<240] t' = read_rates T w [31..<240] t''"
    by (simp only: wait read_rates.simps assms(4,5) thread_runs.simps option.case prod.case if_True)
  with read_rates_outrun [of 31 t'' w] next_state ahead assms show ?thesis by simp
qed

end

section \<open>The reference rates\<close>

lemma rates_from_length [simp]: "length (rates_from n pos r) = n"
  by (induction n arbitrary: pos r) (simp_all add: Let_def)

lemma rates_from_set:
  "r \<in> {12500, 6250} \<Longrightarrow> set (rates_from n pos r) \<subseteq> {12500, 6250}"
  by (induction n arbitrary: pos r) (auto simp: Let_def kBufferChunkRate_def)

lemma test_rates_eq: "test_rates = 0 # rates_from 239 1 12500"
  by (simp add: test_rates_def kTotalBufferSize_def throttle_constants kBufferChunkRate_def)

lemma test_rates_nth:
  assumes "0 < p" and "p < 240"
  shows "test_rates ! p \<in> {12500, 6250}"
proof -
  from assms obtain q where q: "p = Suc q" "q < 239" by (cases p) auto
  then have "test_rates ! p \<in> set (rates_from 239 1 12500)"
    using nth_mem [of q "rates_from 239 1 12500"] by (simp add: test_rates_eq)
  then show ?thesis using rates_from_set [of 12500 239 1] by blast
qed

lemma unat_of_nat_u32: "n < 2 ^ 32 \<Longrightarrow> unat (of_nat n :: u32) = n"
  by (simp add: unat_of_nat take_bit_nat_eq_self)

lemma near_rate:
  fixes late :: "nat \<Rightarrow> nat" and l :: nat
  assumes "r \<in> {12500, 6250 :: u32}" and "late pos \<le> 2750000" and "l \<le> 2750000"
  shows "ASSERT_NEAR r (of_nat ((unat (recorded late (pos, r)) * 1000 + l) div 1000)) 5000"
proof -
  define a where "a = late pos div 1000"
  define b where "b = l div 1000"
  have ab: "a \<le> 2750" "b \<le> 2750" using assms(2,3) unfolding a_def b_def by simp_all
  have "x sdiv 1000 = x div 1000" if "0 \<le> x" for x :: int
    using that by (cases "x = 0") (simp_all add: signed_divide_int_def)
  then have "(uint r * 1000 + int (late pos)) sdiv 1000 = uint r + int a"
    by (simp add: a_def zdiv_int)
  then have "recorded late (pos, r) = truncate_period (of_nat (unat r + a))"
    by (simp add: recorded_def)
  moreover have u: "unat (of_nat (unat r + a) :: u32) = unat r + a"
    using assms(1) ab by (intro unat_of_nat_u32) auto
  moreover have "\<not> of_nat (unat r + a) < (500 :: u32)" and "(500 :: u32) \<le> of_nat (unat r + a)"
    unfolding word_less_nat_alt word_le_nat_alt u using assms(1) by auto
  ultimately have rec: "unat (recorded late (pos, r)) = unat r + a - 500"
    by (simp only: truncate_period_def TIME_PERIOD_TRUNCATION_THRESHOLD_US_def if_False unat_sub)
       simp
  have r: "unat r = 12500 \<or> unat r = 6250" using assms(1) by auto
  have "(unat (recorded late (pos, r)) * 1000 + l) div 1000 = unat r + a - 500 + b"
    by (simp add: rec b_def)
  moreover have "unat (of_nat (unat r + a - 500 + b) :: u32) = unat r + a - 500 + b"
    using r ab by (intro unat_of_nat_u32) auto
  moreover have "\<bar>int (unat r) - int (unat r + a - 500 + b)\<bar> \<le> 5000"
  proof -
    have "unat r + a - 500 + b \<le> unat r + 5000" "unat r \<le> unat r + a - 500 + b + 5000"
      using r ab by auto
    then show ?thesis by linarith
  qed
  moreover have "uint (5000 :: u32) = 5000" by simp
  ultimately show ?thesis by (simp only: ASSERT_NEAR_def uint_nat)
qed

section \<open>Properties\<close>

lemma test_registered:
  fixes late :: "nat \<Rightarrow> nat" and start :: int
  assumes "time_ring T"
  defines "t \<equiv> register_rates T late 0 start test_rates (throttle_new T 1000)"
  shows "length (cb_elems T (mTimePeriodBuffer t)) = 240" and "time_ring.reading_ahead 0 t" and "loopPc t = LoopTop"
    and "\<lbrakk>0 < p; p < 240\<rbrakk> \<Longrightarrow> cb_elems T (mTimePeriodBuffer t) ! p = recorded late (p, test_rates ! p)"
proof -
  have t: "t = register_rates T late 0 start (0 # rates_from 239 1 12500) (throttle_new T 1000)"
    by (simp add: t_def test_rates_eq)
  have "Suc (length (rates_from 239 1 12500)) \<le> unat (1000 :: u64)" by simp
  note all = time_ring.register_all_rates [OF assms(1) this, of late start, folded t]
  show "length (cb_elems T (mTimePeriodBuffer t)) = 240" by (simp add: all(1))
  show "time_ring.reading_ahead 0 t" by (rule all(2))
  show "\<lbrakk>0 < p; p < 240\<rbrakk> \<Longrightarrow> cb_elems T (mTimePeriodBuffer t) ! p = recorded late (p, test_rates ! p)"
    unfolding all(1) by (simp add: test_rates_eq nth_Cons' nth_enumerate_eq)
  have "loopPc (register_rates T late pos now rs u) = loopPc u" for pos now rs u
    by (induction rs arbitrary: pos now u) (simp_all add: Let_def registerTimePeriod_def case_prod_beta)
  then show "loopPc t = LoopTop" by (simp add: t_def throttle_new_def)
qed

lemma test_total: "kTotalBufferSize = 240"
  by (simp add: kTotalBufferSize_def throttle_constants)

lemma test_rate_expected:
  fixes late :: "nat \<Rightarrow> nat" and start :: int
  assumes "time_ring T" and "late p \<le> 2750000" and "l \<le> 2750000" and "30 \<le> p" and "p < 230"
  defines "t \<equiv> register_rates T late 0 start test_rates (throttle_new T 1000)"
  shows "rate_expected p (of_nat ((unat (cb_elems T (mTimePeriodBuffer t) ! p) * 1000 + l) div 1000))"
proof -
  have "test_rates ! p \<in> {12500, 6250}" using assms(4,5) by (intro test_rates_nth) simp_all
  from near_rate [OF this, of late p l] assms(2,3) show ?thesis
    using test_registered(4) [OF assms(1), of p late start, folded t_def] assms(4,5)
    by (simp add: rate_expected_def test_total throttle_constants kAbsErrorThrottle_def)
qed





end
