(* ===== verification/Throttle_Readers.thy ===== *)
theory Throttle_Readers
  imports Rates_Correct
begin

text \<open>
  One throttle serves all readers of a pool, and it knows one position only. Two clients that
  read a stream at places far apart look to it like one reader that searches all the time.
\<close>

section \<open>The reads of several clients\<close>

text \<open>How long each of the waits at these positions lasts, in nanoseconds.\<close>

fun timed_reads ::
  "('t, u32) circ_ops \<Rightarrow> timing \<Rightarrow> u64 list \<Rightarrow> 't throttle \<Rightarrow> nat list option" where
  "timed_reads T w [] t = Some []"
| "timed_reads T w (p # ps) t =
     (case timed_wait T (thread_late w) (thread_lead w (unat p)) 8
             (setReadPosition p (thread_runs T (thread_gap w (unat p)) t)) of
        None \<Rightarrow> None
      | Some (ns, t') \<Rightarrow> map_option ((#) ns) (timed_reads T w ps t'))"

lemma loop_step_index:
  "\<not> sleeping (loopPc t) \<Longrightarrow> mThrottleIndex (loop_step T b t) = mThrottleIndex t"
  by (cases "loopPc t") (auto simp: loop_step_def stop_throttle_def Let_def split: option.splits)

lemma thread_runs_index: "mThrottleIndex (thread_runs T k t) = mThrottleIndex t"
  by (induction k arbitrary: t) (simp_all add: loop_step_index)

text \<open>Waits of the read-ahead last no time, wherever they are.\<close>

lemma timed_reads_ahead:
  assumes "unat (mReadAheadCount t) + length ps \<le> 30"
  shows "timed_reads T w ps t = Some (replicate (length ps) 0)"
  using assms
proof (induction ps arbitrary: t)
  case (Cons p ps)
  let ?t = "setReadPosition p (thread_runs T (thread_gap w (unat p)) t)"
  have count: "mReadAheadCount ?t = mReadAheadCount t" by (simp add: setReadPosition_def)
  then have ahead: "mReadAheadCount ?t < READ_AHEAD_COUNT"
    using Cons.prems by (simp add: READ_AHEAD_COUNT_def word_less_nat_alt)
  have "\<not> fst (wait_enter T ?t)" by (rule wait_read_ahead [OF ahead])
  then obtain t' where t': "wait_enter T ?t = (False, t')" by (cases "wait_enter T ?t") auto
  then have "timed_wait T late k 8 ?t = Some (0, t')" for late k by (simp add: timed_wait_def)
  moreover have "timed_reads T w ps t' = Some (replicate (length ps) 0)"
  proof (cases ps)
    case (Cons p' ps')
    then have "unat (mReadAheadCount ?t) + 1 < 30" using Cons.prems count by simp
    from wait_read_ahead_count [OF this, of T] t' count Cons.prems show ?thesis
      by (intro Cons.IH) simp
  qed simp
  ultimately show ?case by simp
qed simp

lemma jumped_wait:
  assumes "mThrottleRunning t" and "\<not> mExitRequested t" and "mEnableThrottling t" and "mReadAheadCount t = 31"
    and "loopPc t = LoopSleep d" and "\<not> cb_size T (mTimePeriodBuffer t) - p \<le> 10"
    and "10 <s abs_int (ucast (p - mLastPos t))" and "p + 1 \<noteq> 0"
  shows "\<exists>t'. timed_wait T late k 8 (setReadPosition p t) = Some (unat d * 1000 + late (unat p), t') \<and>
           mReadAheadCount t' = 0"
proof -
  define t1 where "t1 = t\<lparr>mPos := p, mReadAheadCount := 0, mThrottleIndex := p\<rparr>"
  have blocked: "wait_blocked t1" using assms(1) by (simp add: wait_blocked_def t1_def)
  have "wait_enter T (setReadPosition p t) = (True, t1)"
    using assms(1,3,4,6,7) blocked
    by (simp add: wait_enter_def setReadPosition_def throttle_constants position_jumped_def t1_def Let_def)
  then have enter: "timed_wait T late k 8 (setReadPosition p t) = wait_loop T late k (Suc (Suc 6)) t1"
    by (simp add: timed_wait_def del: wait_loop.simps)
  obtain h where loop: "wait_loop T late k (Suc (Suc 6)) t1 =
    map_option (\<lambda>(d, t'). (sleep_ns late t1 + d, t'))
      (wait_loop T late k (Suc 6) (thread_runs T k (loop_step T True (t1\<lparr>mCvThrottleChanged := h\<rparr>))))"
    using wait_loop_blocked [OF blocked, of T] by blast
  let ?t = "thread_runs T k (loop_step T True (t1\<lparr>mCvThrottleChanged := h\<rparr>))"
  have "loop_step T True (t1\<lparr>mCvThrottleChanged := h\<rparr>) =
      t1\<lparr>mThrottleIndex := p + 1, mCvThrottleChanged := cv_notifyOne h,
        mIdleCount := (if mLastPos t = mLastPosIdle t then mIdleCount t + 1 else 0), loopPc := LoopAccount\<rparr>"
    using assms(5) by (subst step_sleep) (simp_all add: t1_def)
  then have t: "mThrottleIndex ?t = p + 1" "mPos ?t = p" "mReadAheadCount ?t = 0"
    by (simp_all add: thread_runs_index t1_def)
  have "unat (p + 1) = unat p + 1" using unatSuc [of p] assms(8) by (simp add: add.commute)
  then have "p < p + 1" by (simp add: word_less_nat_alt)
  then have "\<not> wait_blocked ?t" using t by (simp add: wait_blocked_def linorder_not_le [symmetric])
  moreover have "sleep_ns late t1 = unat d * 1000 + late (unat p)"
    using assms(5) by (simp add: sleep_ns_def t1_def)
  ultimately show ?thesis
    using enter loop wait_loop_released [of ?t T late k 6] t(3) by (simp del: wait_loop.simps)
qed

text \<open>
  C32: a read farther than ten places from the one before it, which is what a second client
  elsewhere in the stream makes of every read, waits for one period only, the one the throttle's
  thread is sleeping for, and the thirty reads after it do not wait at all, wherever they are.
  Two clients that take turns are therefore throttled in one of thirty-one reads.
\<close>

theorem searching_readers_unthrottled:
  assumes "mThrottleRunning t" and "\<not> mExitRequested t" and "mEnableThrottling t"
    and "mReadAheadCount t = READ_AHEAD_COUNT + 1"
    and "loopPc t = LoopSleep d" and "\<not> cb_size T (mTimePeriodBuffer t) - p \<le> LIVE_POSITION_THRESHOLD_INDEX"
    and "position_jumped (t\<lparr>mPos := p\<rparr>)" and "p + 1 \<noteq> 0" and "length ps \<le> 30"
  shows "timed_reads T w (p # ps) t =
    Some ((unat d * 1000 + thread_late w (unat p)) # replicate (length ps) 0)"
proof -
  have "thread_runs T (thread_gap w (unat p)) t = t" using assms(5) by (simp add: thread_runs_sleeping)
  moreover obtain t' where "timed_wait T (thread_late w) (thread_lead w (unat p)) 8 (setReadPosition p t) =
      Some (unat d * 1000 + thread_late w (unat p), t')" and "mReadAheadCount t' = 0"
    using jumped_wait assms by (force simp: throttle_constants position_jumped_def)
  moreover from this assms(9) have "timed_reads T w ps t' = Some (replicate (length ps) 0)"
    by (intro timed_reads_ahead) simp
  ultimately show ?thesis by simp
qed

text \<open>For the witness: sixty periods, and a throttle asleep at the start of them.\<close>

definition demo_sixty :: "u32 bounded_list" where
  "demo_sixty = (bl_push 5000 ^^ 60) (bl_new 100)"

lemma sixty_pushed: "n \<le> 100 \<Longrightarrow> bl_elems ((bl_push x ^^ n) (bl_new 100)) = replicate n x
    \<and> bl_capacity ((bl_push x ^^ n) (bl_new 100)) = 100"
  by (induction n) (simp_all add: replicate_append_same)

definition demo_asleep :: "u32 bounded_list throttle" where
  "demo_asleep = (throttle_new list_ring 100)\<lparr>mTimePeriodBuffer := demo_sixty, mThrottleRunning := True,
     mReadAheadCount := 31, mPos := 5, mLastPos := 5, mThrottleIndex := 6, loopPc := LoopSleep 5000\<rparr>"

theorem searching_readers_unthrottled_witness:
  "timed_reads list_ring
     \<lparr>test_late = (\<lambda>_. 0), thread_late = (\<lambda>_. 2000), thread_lead = Suc, thread_gap = id\<rparr>
     [40, 6, 41, 7] demo_asleep = Some [5002000, 0, 0, 0]"
proof -
  have size: "cb_size list_ring demo_sixty = 60"
    using sixty_pushed [of 60 "5000 :: u32"] by (simp add: demo_sixty_def list_ring_def)
  have jump: "position_jumped (demo_asleep\<lparr>mPos := 40\<rparr>)"
    by (simp add: position_jumped_def abs_int_def demo_asleep_def word_sless_alt)
  show ?thesis
    using searching_readers_unthrottled [OF _ _ _ _ _ _ jump, of 5000 list_ring "[6, 41, 7]"
        "\<lparr>test_late = (\<lambda>_. 0), thread_late = (\<lambda>_. 2000), thread_lead = Suc, thread_gap = id\<rparr>"] size
    by (simp add: demo_asleep_def throttle_new_def throttle_constants numeral_3_eq_3 del: timed_reads.simps)
qed

end
