(* ===== verification/Logging_Levels.thy ===== *)
theory Logging_Levels
  imports Fuse_FS
begin

text \<open>
  Log levels (export/streamfs/LogLevels.h) and the condition under which a message is logged
  (include/streamfs/Logging.h): a bit of the debug level, which clients write through the
  control file.
\<close>

unbundle bit_operations_syntax

definition LOG_BUFFER_POOL :: u32 where "LOG_BUFFER_POOL = push_bit 0 1"
definition LOG_BUFFER_THROTTLE :: u32 where "LOG_BUFFER_THROTTLE = push_bit 1 1"
definition LOG_CONFIGS :: u32 where "LOG_CONFIGS = push_bit 2 1"
definition LOG_DATA_SRC :: u32 where "LOG_DATA_SRC = push_bit 3 1"
definition LOG_DATA_PARSER :: u32 where "LOG_DATA_PARSER = push_bit 4 1"
definition LOG_PLUGIN_MGR :: u32 where "LOG_PLUGIN_MGR = push_bit 5 1"
definition LOG_PROTECTION :: u32 where "LOG_PROTECTION = push_bit 6 1"

text \<open>The condition of \<open>SLOG\<close>.\<close>

definition SLOG :: "u32 \<Rightarrow> debug_options \<Rightarrow> bool" where
  "SLOG level opts \<longleftrightarrow> debugLevel opts AND level \<noteq> 0"

definition log_levels :: "u32 list" where
  "log_levels = [LOG_BUFFER_POOL, LOG_BUFFER_THROTTLE, LOG_CONFIGS, LOG_DATA_SRC, LOG_DATA_PARSER, LOG_PLUGIN_MGR,
     LOG_PROTECTION]"

lemmas log_level_defs =
  LOG_BUFFER_POOL_def LOG_BUFFER_THROTTLE_def LOG_CONFIGS_def LOG_DATA_SRC_def LOG_DATA_PARSER_def LOG_PLUGIN_MGR_def
  LOG_PROTECTION_def

lemma log_level_power: "i < 7 \<Longrightarrow> log_levels ! i = 2 ^ i"
  by (auto simp: log_levels_def log_level_defs less_Suc_eq numeral_eq_Suc)

text \<open>Each level is a bit of its own: a debug level selects the messages of exactly the levels in it.\<close>

lemma SLOG_selects: "i < 7 \<Longrightarrow> SLOG (log_levels ! i) opts \<longleftrightarrow> bit (debugLevel opts) i"
  by (simp add: log_level_power SLOG_def and_exp_eq_0_iff_not_bit)

lemma log_levels_distinct: "distinct log_levels"
  by (simp add: log_levels_def log_level_defs)

end
