(* ===== verification/Poll_Client.thy ===== *)
theory Poll_Client
  imports Fuse_Properties
begin

text \<open>
  The example client (tests/poll_example.cpp): it waits with \<open>select\<close> until its file has
  input, seeks to the start, reads and prints, sixteen times. The system calls are a
  parameter: functions on the state \<open>'w\<close> of everything else. Buffers are bytes; what is
  printed is the list of the values, as bytes.
\<close>

section \<open>The program\<close>

record 'w syscalls =
  sys_open :: "string \<Rightarrow> 'w \<Rightarrow> c_int \<times> 'w"
  sys_select :: "c_int \<Rightarrow> c_int list \<Rightarrow> 'w \<Rightarrow> c_int \<times> c_int list \<times> 'w"
  sys_lseek :: "c_int \<Rightarrow> u64 \<Rightarrow> 'w \<Rightarrow> 'w"
  sys_read :: "c_int \<Rightarrow> u8 list \<Rightarrow> u64 \<Rightarrow> 'w \<Rightarrow> c_int \<times> u8 list \<times> 'w"

text \<open>\<open>FD_SET\<close> writes into an array of \<open>FD_SETSIZE\<close> bits.\<close>

definition FD_SETSIZE :: c_int where
  "FD_SETSIZE = 1024"

definition FD_SET :: "c_int \<Rightarrow> c_int list \<Rightarrow> c_int list outcome" where
  "FD_SET fd rfds =
     (if 0 \<le>s fd \<and> fd <s FD_SETSIZE then Inr (fd # rfds) else Inl DescriptorOutsideSet)"

fun FD_SET_all :: "c_int list \<Rightarrow> c_int list \<Rightarrow> c_int list outcome" where
  "FD_SET_all [] rfds = Inr rfds"
| "FD_SET_all (fd # fds) rfds = andthen (FD_SET fd rfds) (FD_SET_all fds)"

text \<open>The static buffer, what has been printed, and the rest of the world.\<close>

record 'w poll_client =
  pc_buf :: "u8 list"
  pc_printed :: "u8 list list"
  pc_world :: 'w

text \<open>\<open>printf\<close> with \<open>%s\<close>: the bytes up to the first zero byte, which must be there.\<close>

definition c_text :: "u8 list \<Rightarrow> u8 list outcome" where
  "c_text buf = (if 0 \<in> set buf then Inr (takeWhile (\<lambda>b. b \<noteq> 0) buf) else Inl SourceOverrun)"

text \<open>
  The loop over the descriptors after \<open>select\<close>. \<open>Some r\<close> is a return from \<open>main\<close> with \<open>r\<close>.
\<close>

fun client_files ::
  "'w syscalls \<Rightarrow> c_int list \<Rightarrow> c_int list \<Rightarrow> 'w poll_client \<Rightarrow> (c_int option \<times> 'w poll_client) outcome" where
  "client_files S rfds [] s = Inr (None, s)"
| "client_files S rfds (fd # fds) s =
     (if fd \<notin> set rfds then client_files S rfds fds s
      else
        let (res, buf, w) = sys_read S fd (pc_buf s) (of_nat (length (pc_buf s))) (sys_lseek S fd 0 (pc_world s));
            s1 = s\<lparr>pc_buf := buf, pc_world := w\<rparr>
        in if res <s 0 then Inr (Some 1, s1)
           else andthen (c_text buf) (\<lambda>text.
             client_files S rfds fds (s1\<lparr>pc_printed := pc_printed s1 @ [text]\<rparr>)))"

fun client_tries ::
  "'w syscalls \<Rightarrow> c_int \<Rightarrow> c_int list \<Rightarrow> nat \<Rightarrow> 'w poll_client \<Rightarrow> (c_int \<times> 'w poll_client) outcome" where
  "client_tries S nfds fds 0 s = Inr (0, s)"
| "client_tries S nfds fds (Suc n) s =
     andthen (FD_SET_all fds []) (\<lambda>rfds.
       let (res, rfds', w) = sys_select S nfds rfds (pc_world s);
           s1 = s\<lparr>pc_world := w\<rparr>
       in if res <s 0 then Inr (1, s1)
          else andthen (client_files S rfds' fds s1) (\<lambda>(ret, s2).
            case ret of Some r \<Rightarrow> Inr (r, s2) | None \<Rightarrow> client_tries S nfds fds n s2))"

text \<open>
  \<open>main\<close>. The test \<open>fds < 0\<close> compares the array, not the descriptor, with zero, and is never
  true.
\<close>

definition client_main :: "'w syscalls \<Rightarrow> string list \<Rightarrow> 'w \<Rightarrow> (c_int \<times> 'w poll_client) outcome" where
  "client_main S argv w =
     (let s = \<lparr>pc_buf = replicate 256 0, pc_printed = [], pc_world = w\<rparr>
      in if length argv \<noteq> 2 then Inr (- 1, s)
         else let (fd, w') = sys_open S (argv ! 1) w;
                  fds = [fd]
              in client_tries S (fd + 1) fds 16 (s\<lparr>pc_world := w'\<rparr>))"

section \<open>What is printed\<close>

text \<open>The system serves the values in turn: each \<open>select\<close> ends with input, each read gets one value.\<close>

fun serves :: "'w syscalls \<Rightarrow> c_int \<Rightarrow> 'w \<Rightarrow> u8 list list \<Rightarrow> bool" where
  "serves S fd w [] \<longleftrightarrow> True"
| "serves S fd w (v # vs) \<longleftrightarrow>
     (\<exists>r w1 w2. sys_select S (fd + 1) [fd] w = (r, [fd], w1) \<and> \<not> r <s 0 \<and>
        (\<forall>buf. length buf = 256 \<longrightarrow>
           sys_read S fd buf 256 (sys_lseek S fd 0 w1) = (of_nat (length v), v @ drop (length v) buf, w2)) \<and>
        serves S fd w2 vs)"

text \<open>The buffer is static: behind a value there is what the values before it have left.\<close>

fun overlays :: "u8 list \<Rightarrow> u8 list list \<Rightarrow> u8 list list" where
  "overlays buf [] = []"
| "overlays buf (v # vs) = (let buf' = v @ drop (length v) buf in buf' # overlays buf' vs)"

definition value_ok :: "u8 list \<Rightarrow> bool" where
  "value_ok v \<longleftrightarrow> length v < 256 \<and> 0 \<notin> set v"

lemma client_tries_serves:
  assumes "serves S fd (pc_world s) vs" and "0 \<le>s fd" and "fd <s FD_SETSIZE" and "list_all value_ok vs"
    and "length (pc_buf s) = 256" and "last (pc_buf s) = 0"
  shows "\<exists>s'. client_tries S (fd + 1) [fd] (length vs) s = Inr (0, s') \<and>
           pc_printed s' = pc_printed s @ map (takeWhile (\<lambda>b. b \<noteq> 0)) (overlays (pc_buf s) vs)"
  using assms
proof (induction vs arbitrary: s)
  case Nil
  then show ?case by simp
next
  case (Cons v vs)
  let ?buf = "v @ drop (length v) (pc_buf s)"
  from Cons.prems(1,5) obtain r w1 w2 where w: "sys_select S (fd + 1) [fd] (pc_world s) = (r, [fd], w1)" "\<not> r <s 0"
    "sys_read S fd (pc_buf s) 256 (sys_lseek S fd 0 w1) = (of_nat (length v), ?buf, w2)" "serves S fd w2 vs"
    by auto
  have v: "length v < 256" using Cons.prems(4) by (simp add: value_ok_def)
  then have "drop (length v) (pc_buf s) \<noteq> []" using Cons.prems(5) by simp
  then have buf: "length ?buf = 256" "last ?buf = 0" using v Cons.prems(5,6) by simp_all
  then have "?buf \<noteq> []" by auto
  with buf(2) have zero: "0 \<in> set ?buf" by (metis last_in_set)
  have "\<not> (of_nat (length v) :: c_int) <s 0" using v by (simp add: word_sless_alt sint_small)
  then have files: "client_files S [fd] [fd] (s\<lparr>pc_world := w1\<rparr>) =
      Inr (None, s\<lparr>pc_buf := ?buf, pc_world := w2, pc_printed := pc_printed s @ [takeWhile (\<lambda>b. b \<noteq> 0) ?buf]\<rparr>)"
    using w(3) Cons.prems(5) zero by (simp add: c_text_def)
  let ?s = "s\<lparr>pc_buf := ?buf, pc_world := w2, pc_printed := pc_printed s @ [takeWhile (\<lambda>b. b \<noteq> 0) ?buf]\<rparr>"
  have "\<exists>s'. client_tries S (fd + 1) [fd] (length vs) ?s = Inr (0, s') \<and>
      pc_printed s' = pc_printed ?s @ map (takeWhile (\<lambda>b. b \<noteq> 0)) (overlays (pc_buf ?s) vs)"
    by (rule Cons.IH) (use w(4) Cons.prems buf in simp_all)
  then show ?case
    using w(1,2) files Cons.prems(2,3) by (auto simp: FD_SET_def Let_def)
qed

text \<open>When no value is shorter than the one before, nothing of the older values shows.\<close>

lemma overlays_growing:
  assumes "sorted (map length vs)" and "list_all value_ok vs" and "length buf = 256"
    and "\<forall>i < 256. (case vs of [] \<Rightarrow> 256 | v # _ \<Rightarrow> length v) \<le> i \<longrightarrow> buf ! i = 0"
  shows "map (takeWhile (\<lambda>b. b \<noteq> 0)) (overlays buf vs) = vs"
  using assms
proof (induction vs arbitrary: buf)
  case Nil
  then show ?case by simp
next
  case (Cons v vs)
  let ?buf = "v @ drop (length v) buf"
  have v: "length v < 256" "0 \<notin> set v" using Cons.prems(2) by (simp_all add: value_ok_def)
  have "drop (length v) buf = replicate (256 - length v) 0"
    using Cons.prems(3,4) by (intro nth_equalityI) simp_all
  moreover have "256 - length v = Suc (255 - length v)" using v(1) by simp
  ultimately have eq: "?buf = v @ 0 # replicate (255 - length v) 0" by simp
  then have "takeWhile (\<lambda>b. b \<noteq> 0) ?buf = v" using v(2) by (auto simp: takeWhile_append takeWhile_eq_all_conv)
  moreover have "map (takeWhile (\<lambda>b. b \<noteq> 0)) (overlays ?buf vs) = vs"
  proof (rule Cons.IH)
    show "sorted (map length vs)" "list_all value_ok vs" using Cons.prems(1,2) by simp_all
    show "length ?buf = 256" using v(1) Cons.prems(3) by simp
    show "\<forall>i < 256. (case vs of [] \<Rightarrow> 256 | v # _ \<Rightarrow> length v) \<le> i \<longrightarrow> ?buf ! i = 0"
      unfolding eq using Cons.prems(1) by (cases vs) (auto simp: nth_append nth_Cons' not_less)
  qed
  ultimately show ?case by (simp add: Let_def)
qed

section \<open>The client on the file system\<close>

text \<open>
  What the system calls do on a file of the file system, as README.md describes them: an open
  and a read are the callbacks; \<open>select\<close> returns when a poll of the file reports input, and
  otherwise sleeps until the plugin has announced its next update, and polls again. The
  updates to come are part of the state; when there are none left, \<open>select\<close> would not return,
  and the call is given an error.
\<close>

record 'p mounted =
  mnt_fuse :: "'p fuse_state"
  mnt_offset :: u64
  mnt_handle :: poll_handle
  mnt_updates :: "('p fuse_state \<Rightarrow> 'p fuse_state) list"

definition mounted_poll ::
  "path_ops \<Rightarrow> fuse_context \<Rightarrow> string \<Rightarrow> 'p mounted \<Rightarrow> bool \<times> 'p mounted" where
  "mounted_poll P ctx path m =
     (case fuse_poll P (Some ctx) path (Some (mnt_handle m)) 0 (mnt_fuse m) of
        Inl e \<Rightarrow> (False, m)
      | Inr (r, revents, f) \<Rightarrow>
          (and revents POLLIN \<noteq> 0, m\<lparr>mnt_fuse := f, mnt_handle := mnt_handle m + 1\<rparr>))"

definition mounted_select ::
  "path_ops \<Rightarrow> fuse_context \<Rightarrow> string \<Rightarrow> c_int \<Rightarrow> c_int list \<Rightarrow> 'p mounted \<Rightarrow> c_int \<times> c_int list \<times> 'p mounted" where
  "mounted_select P ctx path nfds rfds m =
     (let (ready, m1) = mounted_poll P ctx path m
      in if ready then (1, rfds, m1)
         else case mnt_updates m1 of
           [] \<Rightarrow> (- 1, [], m1)
         | u # us \<Rightarrow>
             (let (ready, m2) = mounted_poll P ctx path (m1\<lparr>mnt_fuse := u (mnt_fuse m1), mnt_updates := us\<rparr>)
              in if ready then (1, rfds, m2) else (- 1, [], m2)))"

definition mounted_syscalls :: "path_ops \<Rightarrow> 'p plugin_ops \<Rightarrow> fuse_context \<Rightarrow> string \<Rightarrow> 'p mounted syscalls" where
  "mounted_syscalls P I ctx path =
     \<lparr>sys_open = (\<lambda>p m.
        case openCallback P I p (mnt_fuse m) of
          Inr (r, fh, f) \<Rightarrow> (if r <s 0 then - 1 else 3, m\<lparr>mnt_fuse := f, mnt_offset := 0\<rparr>)
        | Inl e \<Rightarrow> (- 1, m)),
      sys_select = mounted_select P ctx path,
      sys_lseek = (\<lambda>fd offset m. m\<lparr>mnt_offset := offset\<rparr>),
      sys_read = (\<lambda>fd buf n m.
        case readCallback P I (Some ctx) path buf n (mnt_offset m) 0 (mnt_fuse m) of
          Inr (r, buf', f) \<Rightarrow> (r, buf', m\<lparr>mnt_fuse := f, mnt_offset := mnt_offset m + scast r\<rparr>)
        | Inl e \<Rightarrow> (- 1, buf, m))\<rparr>"

text \<open>A plugin whose file has a value, and its announcement of another one.\<close>

definition reads_value :: "'p plugin_ops \<Rightarrow> string \<Rightarrow> 'p provider \<Rightarrow> u8 list \<Rightarrow> bool" where
  "reads_value I b v c \<longleftrightarrow>
     (\<forall>fh buf. length buf = 256 \<longrightarrow> vfs_read I fh b buf 256 0 v = (of_nat (length c), c @ drop (length c) buf, v))"

definition plugin_update :: "string \<Rightarrow> string \<Rightarrow> 'p provider \<Rightarrow> 'p fuse_state \<Rightarrow> 'p fuse_state" where
  "plugin_update a b v f = notifyUpdate (plugin_cb_new a) b (set_provider a v f)"

definition value_provider :: "'p plugin_ops \<Rightarrow> string \<Rightarrow> string \<Rightarrow> 'p provider \<times> u8 list \<Rightarrow> bool" where
  "value_provider I a b e \<longleftrightarrow>
     getName (fst e) = a \<and> b \<in> set (vfs_files (fst e)) \<and> distinct (vfs_files (fst e)) \<and>
     reads_value I b (fst e) (snd e) \<and> length (snd e) < 256"

lemma mounted_poll_file:
  assumes "boost_path P" and "name_ok a" and "name_ok b" and "sm_find a (fsProviders (mnt_fuse m)) = Some v"
    and "getName v = a" and "b \<in> set (vfs_files v)"
  shows "mounted_poll P c (file_path a b) m =
           (sm_find (fuseContextToId c) (mEofReached (mnt_fuse m)) \<noteq> Some True,
            m\<lparr>mnt_fuse := snd (registerPoll (Some c) b a (Some (mnt_handle m)) 0 (mnt_fuse m)),
              mnt_handle := mnt_handle m + 1\<rparr>)"
proof -
  obtain x f where x: "registerPoll (Some c) b a (Some (mnt_handle m)) 0 (mnt_fuse m) = (x, f)" by fastforce
  have "x = (if sm_find (fuseContextToId c) (mEofReached (mnt_fuse m)) = Some True then 0 else POLLIN)"
    using registerPoll_reports [of c b a "mnt_handle m" 0 "mnt_fuse m"] x by simp
  then show ?thesis
    using boost_path.fuse_poll_file [OF assms(1-4)] assms(5,6) x
    by (simp add: mounted_poll_def POLLIN_def)
qed

text \<open>The state after the client has read the value to its end.\<close>

definition read_to_end :: "string \<Rightarrow> 'p provider \<Rightarrow> fuse_context \<Rightarrow> 'p fuse_state \<Rightarrow> 'p fuse_state" where
  "read_to_end a v c f =
     (let f1 = set_provider a v f
      in f1\<lparr>mEofReached := sm_assign (fuseContextToId c) True (mEofReached f1)\<rparr>)"

lemma mounted_read:
  assumes "boost_path P" and "name_ok a" and "name_ok b" and "sm_find a (fsProviders (mnt_fuse m)) = Some (fst e)"
    and "value_provider I a b e" and "length buf = 256" and "mnt_offset m = 0"
  shows "sys_read (mounted_syscalls P I c (file_path a b)) fd buf 256 m =
           (of_nat (length (snd e)), snd e @ drop (length (snd e)) buf,
            m\<lparr>mnt_fuse := read_to_end a (fst e) c (mnt_fuse m), mnt_offset := of_nat (length (snd e))\<rparr>)"
proof -
  have e: "b \<in> set (vfs_files (fst e))" "distinct (vfs_files (fst e))" "length (snd e) < 256"
    "vfs_read I 0 b buf 256 0 (fst e) = (of_nat (length (snd e)), snd e @ drop (length (snd e)) buf, fst e)"
    using assms(5,6) by (auto simp: value_provider_def reads_value_def)
  have one: "matching b (fst e) = [b]" using assms(3) e(1,2) by (intro matching_distinct) (auto simp: name_ok_def)
  have small: "(scast (of_nat (length (snd e)) :: c_int) :: u64) = of_nat (length (snd e))"
    using e(3) by (intro scast_small) simp
  have "(of_nat (length (snd e)) :: u64) < 256"
    using e(3) by (simp add: word_less_nat_alt unat_of_nat_u64 del: unsigned_of_nat)
  then show ?thesis
    using boost_path.readCallback_file [OF assms(1-4), of I "Some c" buf 256 0 0] assms(7) e(4) small
    by (simp add: mounted_syscalls_def one read_to_end_def Let_def)
qed

lemma read_to_end_simps:
  "sm_find a (fsProviders (read_to_end a v c f)) = Some v"
  "sm_find (fuseContextToId c) (mEofReached (read_to_end a v c f)) = Some True"
  by (simp_all add: read_to_end_def Let_def set_provider_def sm_find_assign)

text \<open>One round: the first poll reports input, or the next update does.\<close>

lemma round_ready:
  assumes "boost_path P" and "name_ok a" and "name_ok b" and "sm_find a (fsProviders (mnt_fuse m)) = Some (fst e)"
    and "value_provider I a b e" and "sm_find (fuseContextToId c) (mEofReached (mnt_fuse m)) \<noteq> Some True"
  shows "\<exists>m1. mounted_select P c (file_path a b) nfds rfds m = (1, rfds, m1) \<and>
           sm_find a (fsProviders (mnt_fuse m1)) = Some (fst e) \<and> mnt_updates m1 = mnt_updates m"
proof -
  obtain x f where x: "registerPoll (Some c) b a (Some (mnt_handle m)) 0 (mnt_fuse m) = (x, f)" by fastforce
  then have "fsProviders f = fsProviders (mnt_fuse m)" using register_rest by blast
  with x show ?thesis
    using mounted_poll_file [OF assms(1-4)] assms(4-6)
    by (simp add: mounted_select_def value_provider_def)
qed

lemma update_wakes:
  assumes "boost_path P" and "name_ok a" and "name_ok b" and "sm_find a (fsProviders (mnt_fuse m)) = Some v"
    and "getName v = a" and "b \<in> set (vfs_files v)" and "value_provider I a b e"
    and "sm_find (fuseContextToId c) (mEofReached (mnt_fuse m)) = Some True"
    and "mnt_updates m = plugin_update a b (fst e) # us"
  shows "\<exists>m1. mounted_select P c (file_path a b) nfds rfds m = (1, rfds, m1) \<and>
           sm_find a (fsProviders (mnt_fuse m1)) = Some (fst e) \<and> mnt_updates m1 = us"
proof -
  obtain x f where x: "registerPoll (Some c) b a (Some (mnt_handle m)) 0 (mnt_fuse m) = (x, f)" by fastforce
  let ?f = "set_provider a (fst e) f"
  obtain ctxMap where h: "sm_find (a, b) (mPollHandles ?f) = Some ctxMap"
    "sm_find (fuseContextToId c) ctxMap = Some (mnt_handle m)"
    using x by (auto simp: registerPoll_def Let_def getCbId_def sm_find_assign set_provider_def)
  from h(2) have mem: "(fuseContextToId c, mnt_handle m) \<in> set ctxMap" by (simp add: sm_find_def map_of_SomeD)
  have eof: "sm_find (fuseContextToId c) (fold (\<lambda>e. sm_assign (fst e) False) es es') = Some False"
    if "(fuseContextToId c, mnt_handle m) \<in> set es" for es :: "(string, poll_handle) std_map" and es'
    using that by (induction es rule: rev_induct) (auto simp: sm_find_assign)
  let ?m1 = "m\<lparr>mnt_fuse := f, mnt_handle := mnt_handle m + 1\<rparr>"
  have updated: "sm_find (fuseContextToId c) (mEofReached (plugin_update a b (fst e) f)) = Some False"
    "sm_find a (fsProviders (plugin_update a b (fst e) f)) = Some (fst e)"
    using h(1) eof [OF mem]
    by (simp_all add: plugin_update_def notifyUpdate_def notifyPoll_def plugin_cb_new_def fold_notify_client
        set_provider_def sm_find_assign)
  let ?m2 = "?m1\<lparr>mnt_fuse := plugin_update a b (fst e) f, mnt_updates := us\<rparr>"
  have "mounted_poll P c (file_path a b) m = (False, ?m1)"
    using mounted_poll_file [OF assms(1-4)] assms(5,6,8) x by simp
  moreover have "\<exists>m3. mounted_poll P c (file_path a b) ?m2 = (True, m3) \<and>
      sm_find a (fsProviders (mnt_fuse m3)) = Some (fst e) \<and> mnt_updates m3 = us"
  proof -
    obtain y g where y: "registerPoll (Some c) b a (Some (mnt_handle ?m2)) 0 (mnt_fuse ?m2) = (y, g)" by fastforce
    then have "fsProviders g = fsProviders (mnt_fuse ?m2)" using register_rest by blast
    with y show ?thesis
      using mounted_poll_file [OF assms(1-3), of ?m2 "fst e"] assms(7) updated by (simp add: value_provider_def)
  qed
  ultimately show ?thesis using assms(9) by (auto simp: mounted_select_def)
qed

lemma updates_served:
  fixes es :: "('p provider \<times> u8 list) list"
  assumes "boost_path P" and "name_ok a" and "name_ok b" and "list_all (value_provider I a b) es"
  shows "sm_find a (fsProviders (mnt_fuse m)) = Some v \<Longrightarrow> getName v = a \<Longrightarrow> b \<in> set (vfs_files v) \<Longrightarrow>
    sm_find (fuseContextToId c) (mEofReached (mnt_fuse m)) = Some True \<Longrightarrow>
    mnt_updates m = map (\<lambda>e. plugin_update a b (fst e)) es \<Longrightarrow>
    serves (mounted_syscalls P I c (file_path a b)) fd m (map snd es)"
  using assms(4)
proof (induction es arbitrary: m v)
  case Nil
  then show ?case by simp
next
  case (Cons e es)
  let ?S = "mounted_syscalls P I c (file_path a b)"
  have e: "value_provider I a b e" using Cons.prems(6) by simp
  from update_wakes [OF assms(1-3) Cons.prems(1-3) e Cons.prems(4), of "map (\<lambda>e. plugin_update a b (fst e)) es" "fd + 1" "[fd]"]
    Cons.prems(5) obtain m1 where m1: "mounted_select P c (file_path a b) (fd + 1) [fd] m = (1, [fd], m1)"
    "sm_find a (fsProviders (mnt_fuse m1)) = Some (fst e)" "mnt_updates m1 = map (\<lambda>e. plugin_update a b (fst e)) es" by auto
  let ?m1 = "m1\<lparr>mnt_offset := 0\<rparr>"
  let ?m2 = "?m1\<lparr>mnt_fuse := read_to_end a (fst e) c (mnt_fuse ?m1), mnt_offset := of_nat (length (snd e))\<rparr>"
  have read: "sys_read ?S fd buf 256 ?m1 = (of_nat (length (snd e)), snd e @ drop (length (snd e)) buf, ?m2)"
    if "length buf = 256" for buf
    using mounted_read [OF assms(1-3), of ?m1 e I buf c fd] m1(2) e that by simp
  have "serves ?S fd ?m2 (map snd es)"
    by (rule Cons.IH [of _ "fst e"]) (use e m1(3) Cons.prems(6) in \<open>simp_all add: read_to_end_simps value_provider_def\<close>)
  then show ?case
    using m1(1) read by (auto simp: mounted_syscalls_def word_sless_alt intro!: exI [of _ m1] exI [of _ ?m2])
qed

lemma values_served:
  fixes es :: "('p provider \<times> u8 list) list"
  assumes "boost_path P" and "name_ok a" and "name_ok b" and "list_all (value_provider I a b) (e # es)"
    and "sm_find a (fsProviders (mnt_fuse m)) = Some (fst e)"
    and "sm_find (fuseContextToId c) (mEofReached (mnt_fuse m)) \<noteq> Some True"
    and "mnt_updates m = map (\<lambda>e. plugin_update a b (fst e)) es"
  shows "serves (mounted_syscalls P I c (file_path a b)) fd m (map snd (e # es))"
proof -
  let ?S = "mounted_syscalls P I c (file_path a b)"
  have e: "value_provider I a b e" using assms(4) by simp
  from round_ready [OF assms(1-3,5) e assms(6), of "fd + 1" "[fd]"] obtain m1 where
    m1: "mounted_select P c (file_path a b) (fd + 1) [fd] m = (1, [fd], m1)"
    "sm_find a (fsProviders (mnt_fuse m1)) = Some (fst e)" "mnt_updates m1 = mnt_updates m" by blast
  let ?m1 = "m1\<lparr>mnt_offset := 0\<rparr>"
  let ?m2 = "?m1\<lparr>mnt_fuse := read_to_end a (fst e) c (mnt_fuse ?m1), mnt_offset := of_nat (length (snd e))\<rparr>"
  have read: "sys_read ?S fd buf 256 ?m1 = (of_nat (length (snd e)), snd e @ drop (length (snd e)) buf, ?m2)"
    if "length buf = 256" for buf
    using mounted_read [OF assms(1-3), of ?m1 e I buf c fd] m1(2) e that by simp
  have "serves ?S fd ?m2 (map snd es)"
    by (rule updates_served [OF assms(1-3), where v = "fst e"])
      (use e m1(3) assms(4,7) in \<open>simp_all add: read_to_end_simps value_provider_def\<close>)
  then show ?thesis
    using m1(1) read by (auto simp: mounted_syscalls_def word_sless_alt intro!: exI [of _ m1] exI [of _ ?m2])
qed

section \<open>Properties\<close>


definition demo_value :: "u8 list \<Rightarrow> u8 list provider" where
  "demo_value c = memory_provider\<lparr>mCb := Some \<lparr>pl_state = c, pl_cb = cb_setAvailableStreams [''f''] (plugin_cb_new ''p'')\<rparr>\<rparr>"

lemma demo_value: "length c < 256 \<Longrightarrow> value_provider memory_ops ''p'' ''f'' (demo_value c, c)"
  by (simp add: value_provider_def demo_value_def memory_provider_def getName_def vfs_files_def
      getAvailableStreams_def cb_getAvailableStreams_def cb_setAvailableStreams_def reads_value_def vfs_read_def memory_ops_def)


text \<open>
  The buffer of the client is static and a read does not end the text: a value that is
  shorter than the one before is printed with the tail of the older one.
\<close>

theorem client_prints_stale_tail:
  assumes "sys_open S file w = (fd, w')" and "0 \<le>s fd" and "fd <s FD_SETSIZE"
    and "serves S fd w' (v1 # v2 # vs)" and "length vs = 14" and "list_all value_ok (v1 # v2 # vs)"
    and "length v2 \<le> length v1"
  shows "\<exists>s rest. client_main S [prog, file] w = Inr (0, s) \<and>
           pc_printed s = v1 # (v2 @ drop (length v2) v1) # rest"
proof -
  let ?s = "\<lparr>pc_buf = replicate 256 0, pc_printed = [], pc_world = w'\<rparr>"
  have served: "serves S fd (pc_world ?s) (v1 # v2 # vs)" using assms(4) by simp
  have zero: "last (pc_buf ?s) = 0" by (simp only: poll_client.simps last_replicate)
  from client_tries_serves [OF served assms(2,3,6) _ zero] assms(5) obtain s where
    s: "client_tries S (fd + 1) [fd] 16 ?s = Inr (0, s)"
    "pc_printed s = map (takeWhile (\<lambda>b. b \<noteq> 0)) (overlays (replicate 256 0) (v1 # v2 # vs))"
    by (auto simp del: serves.simps overlays.simps)
  have v1: "length v1 < 256" "0 \<notin> set v1" and v2: "0 \<notin> set v2"
    using assms(6) by (simp_all add: value_ok_def)
  then have "256 - length v1 = Suc (255 - length v1)" by simp
  then have pad: "replicate (256 - length v1) (0 :: u8) = 0 # replicate (255 - length v1) 0" by simp
  have 1: "takeWhile (\<lambda>b. b \<noteq> 0) (v1 @ 0 # r) = v1" for r using v1(2) by (auto simp: takeWhile_append takeWhile_eq_all_conv)
  have 2: "takeWhile (\<lambda>b. b \<noteq> 0) (v2 @ drop (length v2) (v1 @ 0 # r)) = v2 @ drop (length v2) v1" for r
  proof -
    have "0 \<notin> set (v2 @ drop (length v2) v1)" using v1(2) v2 by (auto dest: in_set_dropD)
    then have "takeWhile (\<lambda>b. b \<noteq> 0) ((v2 @ drop (length v2) v1) @ 0 # r) = v2 @ drop (length v2) v1"
      by (auto simp: takeWhile_append takeWhile_eq_all_conv)
    with assms(7) show ?thesis by simp
  qed
  show ?thesis
    using s assms(1) 1 2
    by (simp add: client_main_def Let_def pad drop_replicate)
qed

text \<open>A system that serves the values of a list.\<close>

definition scripted :: "u8 list list syscalls" where
  "scripted =
     \<lparr>sys_open = (\<lambda>p w. (3, w)), sys_select = (\<lambda>nfds rfds w. (1, rfds, w)), sys_lseek = (\<lambda>fd offset w. w),
      sys_read = (\<lambda>fd buf n w. (of_nat (length (hd w)), hd w @ drop (length (hd w)) buf, tl w))\<rparr>"

lemma scripted_serves: "serves scripted fd vs vs"
  by (induction vs) (auto simp: scripted_def word_sless_alt)

theorem client_prints_stale_tail_witness:
  "\<exists>s rest. client_main scripted [''poll'', ''/p/f''] ([1, 2, 3] # [7] # replicate 14 []) = Inr (0, s) \<and>
     pc_printed s = [1, 2, 3] # [7, 2, 3] # rest"
  using client_prints_stale_tail [OF _ _ _ scripted_serves [of 3 "[1, 2, 3] # [7] # replicate 14 []"], of "''/p/f''"
      "[1, 2, 3] # [7] # replicate 14 []" "''poll''"]
  by (simp add: scripted_def value_ok_def list_all_iff FD_SETSIZE_def word_sless_alt word_sle_eq)

text \<open>
  A file that cannot be opened is not reported: the descriptor is handed to \<open>FD_SET\<close>, which
  writes outside its set.
\<close>

theorem client_ignores_open_error:
  assumes "sys_open S file w = (fd, w')" and "fd <s 0"
  shows "client_main S [prog, file] w = Inl DescriptorOutsideSet"
proof -
  have fault: "FD_SET_all [fd] [] = Inl DescriptorOutsideSet"
    using assms(2) by (simp add: FD_SET_def word_sle_eq word_sless_alt)
  have "client_tries S (fd + 1) [fd] (Suc 15) s = Inl DescriptorOutsideSet" for s
    by (simp only: client_tries.simps fault andthen.simps)
  then have "client_tries S (fd + 1) [fd] 16 s = Inl DescriptorOutsideSet" for s by simp
  with assms(1) show ?thesis by (simp add: client_main_def Let_def)
qed

theorem client_ignores_open_error_witness:
  "client_main (mounted_syscalls slashes memory_ops demo_client ''/p/g'') [''poll'', ''/p/g'']
     \<lparr>mnt_fuse = memory_fuse, mnt_offset = 0, mnt_handle = 0, mnt_updates = []\<rparr> = Inl DescriptorOutsideSet"
proof -
  have "openCallback slashes memory_ops (file_path ''p'' ''g'') memory_fuse = Inr (- ENOENT, None, memory_fuse)"
    using sp.openCallback_file [OF names_ok(1) _ memory_simps(1), of "''g''" "Inl PathPastEnd" memory_ops]
    by (simp add: name_ok_def memory_simps)
  then show ?thesis
    by (intro client_ignores_open_error [where fd = "- 1"])
      (simp_all add: mounted_syscalls_def ENOENT_def word_sless_alt)
qed

end
