(* ===== verification/Program_Main.thy ===== *)
theory Program_Main
  imports Manager_Properties
begin

text \<open>
  The whole of \<open>main\<close> (main.cpp): the command line, the debug options, the termination
  signal, the plugins, and the hand-over to the FUSE library. The parsers and the main loop
  of that library are parameters.
\<close>

section \<open>The command line\<close>

text \<open>
  What \<open>fuse_opt_parse\<close> scans: its return value, the numbers after \<open>--debug_level=\<close> and
  \<open>--ts_dump=\<close>, and the arguments that are left for FUSE.
\<close>

record parsed =
  po_result :: c_int
  po_debug_level :: "c_int option"
  po_ts_dump :: "c_int option"
  po_rest :: "string list"

text \<open>
  \<open>fuse_parse_cmdline\<close> (the result and the mount point, if one is found) and \<open>fuse_main\<close>,
  which runs the callbacks on the state of the file system.
\<close>

record 'p fuse_operations =
  fop_getattr :: "string \<Rightarrow> 'p fuse_state \<Rightarrow> (c_int \<times> stat) outcome"
  fop_open :: "string \<Rightarrow> 'p fuse_state \<Rightarrow> (c_int \<times> u64 option \<times> 'p fuse_state) outcome"
  fop_read :: "fuse_context option \<Rightarrow> string \<Rightarrow> u8 list \<Rightarrow> u64 \<Rightarrow> u64 \<Rightarrow> u64 \<Rightarrow> 'p fuse_state \<Rightarrow>
    (c_int \<times> u8 list \<times> 'p fuse_state) outcome"
  fop_readdir :: "string \<Rightarrow> 'p fuse_state \<Rightarrow> (c_int \<times> string list) outcome"
  fop_write :: "string \<Rightarrow> u8 list \<Rightarrow> u64 \<Rightarrow> 'p fuse_state \<Rightarrow> (c_int \<times> 'p fuse_state) outcome"
  fop_truncate :: "string \<Rightarrow> u64 \<Rightarrow> 'p fuse_state \<Rightarrow> c_int \<times> 'p fuse_state"
  fop_poll :: "fuse_context option \<Rightarrow> string \<Rightarrow> poll_handle option \<Rightarrow> u32 \<Rightarrow> 'p fuse_state \<Rightarrow>
    (c_int \<times> u32 \<times> 'p fuse_state) outcome"
  fop_release :: "string \<Rightarrow> u64 \<Rightarrow> 'p fuse_state \<Rightarrow> (c_int \<times> 'p fuse_state) outcome"

definition getFuseOperations :: "path_ops \<Rightarrow> 'p plugin_ops \<Rightarrow> 'p fuse_operations" where
  "getFuseOperations P I =
     \<lparr>fop_getattr = getAttrCallback P I, fop_open = openCallback P I, fop_read = readCallback P I,
      fop_readdir = readDirCallback P, fop_write = writeFileCallback P I, fop_truncate = fuse_truncate,
      fop_poll = fuse_poll P, fop_release = fuse_release P I\<rparr>"

record 'p fuse_library =
  fuse_opt_parse :: "string list \<Rightarrow> parsed"
  fuse_parse_cmdline :: "string list \<Rightarrow> c_int \<times> string option"
  fuse_main :: "string list \<Rightarrow> 'p fuse_operations \<Rightarrow> 'p fuse_state \<Rightarrow> c_int \<times> 'p fuse_state"

text \<open>
  Both options are scanned with \<open>%d\<close>, as an \<open>int\<close> of four bytes, although \<open>ts_dump\<close> is a
  \<open>bool\<close> of one byte: its byte gets the lowest one, the others land in the padding behind it.
  A byte other than 0 and 1 is not a value of the type.
\<close>

definition scanned_bool :: "c_int \<Rightarrow> bool outcome" where
  "scanned_bool i =
     (let byte = ucast i :: u8
      in if byte = 0 then Inr False else if byte = 1 then Inr True else Inl BoolOutOfRange)"

definition parsed_options :: "parsed \<Rightarrow> options outcome" where
  "parsed_options r =
     andthen (case po_ts_dump r of None \<Rightarrow> Inr False | Some i \<Rightarrow> scanned_bool i) (\<lambda>b.
       Inr \<lparr>opt_debug_level = (case po_debug_level r of None \<Rightarrow> 0 | Some i \<Rightarrow> i), opt_ts_dump = b\<rparr>)"

section \<open>main\<close>

text \<open>\<open>sigaction\<close> installs \<open>sigterm_handler\<close>, which finds the mount point in its state.\<close>

definition install_handler :: "string option \<Rightarrow> sig_state" where
  "install_handler mountPoint =
     \<lparr>sighandler_locked = False, isSigtermTriggered = False, fuseMountPoint = mountPoint, main_effects = []\<rparr>"

text \<open>
  \<open>loadPlugins\<close> is called inside an \<open>assert\<close>: with \<open>NDEBUG\<close> it is not called at all, and
  otherwise a result other than zero ends the program (\<open>None\<close>).
\<close>

definition asserted_loadPlugins ::
  "bool \<Rightarrow> 'p plugin_ops \<Rightarrow> 'p libs \<Rightarrow> directories \<Rightarrow> 'p manager \<times> 'p fuse_state \<Rightarrow>
     ('p manager \<times> 'p fuse_state) option" where
  "asserted_loadPlugins ndebug I libs dirs s =
     (if ndebug then Some s
      else case loadPlugins I libs dirs config s of
             None \<Rightarrow> None
           | Some (res, s') \<Rightarrow> if res = 0 then Some s' else None)"

text \<open>The exit code, the state of the signal handler, the plugins and the file system at the end.\<close>

record 'p main_end =
  me_code :: c_int
  me_signals :: "sig_state option"
  me_manager :: "'p manager"
  me_fuse :: "'p fuse_state option"

definition program_main ::
  "bool \<Rightarrow> 'p fuse_library \<Rightarrow> path_ops \<Rightarrow> 'p plugin_ops \<Rightarrow> 'p libs \<Rightarrow> directories \<Rightarrow> string list \<Rightarrow>
     'p main_end option outcome" where
  "program_main ndebug L P I libs dirs argv =
     (let parse = fuse_opt_parse L argv
      in if po_result parse = - 1
         then Inr (Some \<lparr>me_code = 1, me_signals = None, me_manager = manager_new, me_fuse = None\<rparr>)
         else andthen (parsed_options parse) (\<lambda>opts.
           let f = fuse_new (main_options opts);
               (res, mountPoint) = fuse_parse_cmdline L argv;
               sig = install_handler mountPoint
           in Inr (case asserted_loadPlugins ndebug I libs dirs (manager_new, f) of
                     None \<Rightarrow> None
                   | Some (m, f1) \<Rightarrow>
                       (let (ret, f2) = fuse_main L (po_rest parse) (getFuseOperations P I) f1
                        in Some \<lparr>me_code = ret, me_signals = Some sig, me_manager = initPlugins m,
                                 me_fuse = Some f2\<rparr>))))"

section \<open>Properties\<close>

lemma loadPlugins_zero: "loadPlugins I libs dirs c s = Some (r, s') \<Longrightarrow> r = 0"
  by (auto simp: loadPlugins_def Let_def case_prod_beta)

lemma asserted_start:
  "map_option (\<lambda>(m, f). (initPlugins m, f)) (asserted_loadPlugins False I libs dirs (manager_new, fuse_new (main_options opts))) =
     main_start I libs dirs opts"
  by (auto simp: asserted_loadPlugins_def main_start_def Let_def dest: loadPlugins_zero split: option.splits)


text \<open>
  With \<open>NDEBUG\<close> the plugins are not loaded, as the call is inside an assertion: what FUSE
  is given has no directory but the control files.
\<close>

theorem main_ndebug_loads_nothing:
  assumes "boost_path P" and "po_result (fuse_opt_parse L argv) \<noteq> - 1"
    and "parsed_options (fuse_opt_parse L argv) = Inr opts"
  shows "\<exists>f. program_main True L P I libs dirs argv =
      Inr (Some \<lparr>me_code = fst (fuse_main L (po_rest (fuse_opt_parse L argv)) (getFuseOperations P I) f),
                 me_signals = Some (install_handler (snd (fuse_parse_cmdline L argv))), me_manager = manager_new,
                 me_fuse = Some (snd (fuse_main L (po_rest (fuse_opt_parse L argv)) (getFuseOperations P I) f))\<rparr>) \<and>
    readDirCallback P ROOT_PATH f = Inr (0, [''.'', ''..'', TS_DUMP_FILE_NAME, DEBUG_FILE_NAME])"
proof (intro exI conjI)
  let ?f = "fuse_new (main_options opts)"
  show "program_main True L P I libs dirs argv =
      Inr (Some \<lparr>me_code = fst (fuse_main L (po_rest (fuse_opt_parse L argv)) (getFuseOperations P I) ?f),
                 me_signals = Some (install_handler (snd (fuse_parse_cmdline L argv))), me_manager = manager_new,
                 me_fuse = Some (snd (fuse_main L (po_rest (fuse_opt_parse L argv)) (getFuseOperations P I) ?f))\<rparr>)"
    using assms(2,3)
    by (simp add: program_main_def asserted_loadPlugins_def initPlugins_def Let_def case_prod_beta)
  show "readDirCallback P ROOT_PATH ?f = Inr (0, [''.'', ''..'', TS_DUMP_FILE_NAME, DEBUG_FILE_NAME])"
    using boost_path.readDir_root [OF assms(1), of ?f] by (simp add: fuse_new_def sm_keys_def)
qed

text \<open>
  The value of \<open>--ts_dump\<close> is taken from the low byte of the number: a multiple of 256
  turns the dump off, a byte of one turns it on, and any other number leaves the option
  without a value of its type.
\<close>

theorem ts_dump_low_byte:
  "parsed_options \<lparr>po_result = r, po_debug_level = d, po_ts_dump = Some i, po_rest = rest\<rparr> =
     (if uint i mod 256 = 0 \<or> uint i mod 256 = 1
      then Inr \<lparr>opt_debug_level = (case d of None \<Rightarrow> 0 | Some l \<Rightarrow> l), opt_ts_dump = (uint i mod 256 = 1)\<rparr>
      else Inl BoolOutOfRange)"
proof -
  have "uint (ucast i :: u8) = uint i mod 256" by (simp add: uint_up_ucast unsigned_ucast_eq take_bit_eq_mod)
  then have "(ucast i :: u8) = 0 \<longleftrightarrow> uint i mod 256 = 0" "(ucast i :: u8) = 1 \<longleftrightarrow> uint i mod 256 = 1"
    by (simp_all add: word_uint_eq_iff)
  then show ?thesis by (simp add: parsed_options_def scanned_bool_def Let_def)
qed

section \<open>A library for the witnesses\<close>

definition demo_library :: "u8 list fuse_library" where
  "demo_library =
     \<lparr>fuse_opt_parse = (\<lambda>argv. \<lparr>po_result = 0, po_debug_level = Some 3, po_ts_dump = Some 1, po_rest = argv\<rparr>),
      fuse_parse_cmdline = (\<lambda>argv. (0, Some (argv ! 1))), fuse_main = (\<lambda>args ops f. (0, f))\<rparr>"

lemma demo_parsed:
  "parsed_options (fuse_opt_parse demo_library argv) = Inr \<lparr>opt_debug_level = 3, opt_ts_dump = True\<rparr>"
  by (simp add: demo_library_def parsed_options_def scanned_bool_def)


theorem main_ndebug_loads_nothing_witness:
  "\<exists>f. program_main True demo_library slashes memory_ops (\<lambda>p. memory_lib) memory_dirs [''streamfs'', ''/mnt''] =
       Inr (Some \<lparr>me_code = 0, me_signals = Some (install_handler (Some ''/mnt'')), me_manager = manager_new,
                  me_fuse = Some f\<rparr>) \<and>
     readDirCallback slashes ROOT_PATH f = Inr (0, [''.'', ''..'', TS_DUMP_FILE_NAME, DEBUG_FILE_NAME])"
  using main_ndebug_loads_nothing [OF sp.boost_path_axioms [of "Inl PathPastEnd"] _ demo_parsed,
      of "[''streamfs'', ''/mnt'']" memory_ops "\<lambda>p. memory_lib" memory_dirs]
  by (auto simp: demo_library_def)

end
