(* ===== verification/Spec2Isabelle.thy ===== *)
theory Spec2Isabelle
  imports Queues Pool_Properties Pool_Races Plugin_Service Stream_Files Wakeups Lock_Properties Pool_Tests_Correct
    Pool_Allocator Throttle_Readers Logging_Levels Poll_Client Program_Main
begin

text \<open>
  A verification development for rdk-streamfs, a FUSE file system whose files are live
  transport streams. The core program (src/main.cpp) loads plugins from shared libraries;
  each plugin is a directory of the file system and each of its streams a file. A plugin's
  producer fills a ring of chunks, and the reads of the file are served from that ring,
  paced by a throttle that replays the times between the arrivals.

  \<^bold>\<open>Parts, from the bottom up.\<close>

  \<^item> \<open>Streamfs_Prelude\<close>: machine integers at their width, faults as the left side of a sum
    (\<open>'a outcome\<close>), \<open>memcpy\<close>, lists of blocks. \<open>Stream_Config\<close>: chunks
    (export/streamfs/config.h).
  \<^item> \<open>Ring_Interface\<close>: the contract of Boost's circular buffer, which is not part of the
    repository, as a locale, and an instance on lists.
  \<^item> \<open>Sync_Primitives\<close>: ConditionVariableHelper.h, StopWatchTimer.h. \<open>Queues\<close>:
    MessageQueue.h and BufferQueue.h, with the interleavings of their operations.
  \<^item> \<open>Throttle\<close>, \<open>Throttle_Progress\<close>: BufferPoolThrottle.h and .cpp. The thread is a state
    machine, one step per section between two blocking points. The second theory proves
    that the thread reaches a waiting reader. \<open>Throttle_Rates\<close>, \<open>Rates_Correct\<close>: the length of
    each wait, with RateTest of tests/test_main.cpp. \<open>Throttle_Readers\<close>: the waits of several
    clients that share one throttle.
  \<^item> \<open>Buffer_Pool\<close>: BufferPool.h and .cpp, every operation. \<open>Pool_Reading\<close>,
    \<open>Pool_Correct\<close>, \<open>Pool_Waiting\<close>, \<open>Pool_Session\<close>: the copy loop against the stream the
    pool stands for, waits and schedules, runs. \<open>Pool_Properties\<close>: what follows for
    clients. \<open>Pool_Races\<close>: a read that is overtaken between its check and its copy.
  \<^item> \<open>Wakeups\<close>: the waits of ConditionVariableHelper.h and of \<open>BufferPool::read\<close>, one atomic
    action at a time, and their relation to the coarse steps.
  \<^item> \<open>Pool_Allocator\<close>: \<open>streamfs_allocator\<close> of BufferPool.h.
  \<^item> \<open>Sample_Producer\<close>, \<open>Sample_Delivery\<close>, \<open>Producer_Thread\<close>, \<open>Sample_Plugin\<close>:
    sample/SamplePlugin.cpp and BufferProducer.cpp, from the bytes of a transfer to the reads
    of a client; the thread of a producer, from its start to its join.
  \<^item> \<open>Plugin_Service\<close>: PluginService.h and .cpp, ServiceRequest.h.
  \<^item> \<open>Std_Map\<close>, \<open>Path_Interface\<close>, \<open>Debug_Options\<close>: the library parts the file system
    rests on: ordered maps, Boost's paths as a locale, numbers as text.
  \<^item> \<open>Virtual_FS\<close>: PluginInterface.h, PluginCbImpl.cpp, VirtualFSProvider.cpp.
  \<^item> \<open>Fuse_FS\<close>: IFuse.h and IFuse.cpp, every callback. \<open>Fuse_Lookup\<close>: where they lead for
    each kind of path. \<open>Fuse_Session\<close>, \<open>Fuse_Polls\<close>: runs of callbacks, registrations and
    notifications, with the accounting of handles. \<open>Fuse_Properties\<close>: what clients see.
  \<^item> \<open>Plugin_Manager\<close>: StreamPluginManager.cpp and the part of main.cpp that starts and
    stops it. \<open>Manager_Properties\<close>: which plugins are loaded, registered and unloaded.
    \<open>Program_Main\<close>: the whole of \<open>main\<close>. \<open>Logging_Levels\<close>: LogLevels.h, Logging.h.
  \<^item> \<open>Sample_Mounted\<close>: the whole program with the sample plugin installed. \<open>Pool_Streaming\<close>,
    \<open>Sample_Streaming\<close>: sessions of reads that are throttled while chunks go on arriving, on the
    pool and through the file system. \<open>File_Spec\<close>: an abstract file system of streams that
    grow. \<open>Stream_Files\<close>: the whole program is a refinement of it.
  \<^item> \<open>Lock_Discipline\<close>: threads that take mutexes and wait for each other, and a discipline
    that rules out deadlock. \<open>Program_Locks\<close>: the mutexes of every operation of the program;
    \<open>Lock_Properties\<close>: they follow the discipline, the abort of a joining producer excepted.
  \<^item> \<open>Poll_Client\<close>: tests/poll_example.cpp, alone and on the file system. \<open>Pool_Tests\<close>: the
    tests of tests/test_main.cpp for the pool; \<open>Pool_Tests_Correct\<close>: the model passes them.

  \<^bold>\<open>Correspondence.\<close> A class is a record with the code's member names; a method is a
  function from the state to the new state and the result. A C++ \<open>int\<close> is the 32-bit word
  that represents it, \<open>size_t\<close> a 64-bit word. Undefined behaviour and broken preconditions
  of a library are faults: an index outside the ring, the front of an empty ring, a copy
  outside its objects, the element behind the end of a path. A section under a lock is one
  step. A call that blocks takes a schedule: the batches of steps of other threads while it
  waits; \<open>readRandomAccess\<close> has one for the wait, one before the copy and one for the
  throttle. \<open>clearToLastRead\<close> takes the reader's mutex, so that it can occur during the
  wait only. Clock readings are arguments, in nanoseconds. A weak pointer is an option. The effects on
  objects outside (poll handles, shared libraries, the mount point) are lists of effects in
  the state, in the order they happen.

  \<^bold>\<open>Parameters.\<close> \<open>C\<close> and \<open>T\<close> are the operations of the circular buffer on chunks and on
  periods, under the laws of \<open>Ring_Interface\<close>; \<open>P\<close> is the path library, under the laws of
  \<open>Path_Interface\<close>; \<open>I\<close> are the operations of the plugins; \<open>libs\<close> and \<open>dirs\<close> what the dynamic
  linker and the directories hold. Each set of laws is interpreted on concrete functions
  (\<open>lbr\<close>, \<open>sp\<close>), with which the witnesses compute. \<open>true_names\<close>, a hypothesis on plugins,
  says that a plugin object names itself as its library does.

  \<^bold>\<open>What is shown.\<close>

  \<^item> Pool: a random access returns exactly the bytes of the pushed stream, with and without
    the throttle; pushes append; a read waits for its producer; refusals, time-outs and
    aborts return zero; consecutive blocks give the stream back; the two rings stay in step.
  \<^item> Throttle: pacing, read-ahead, and release of a reader within \<open>3 * capacity + 7\<close> steps of
    the thread: three steps per recorded period and at most seven to start and to notice
    that there is no more data. A reader that takes
    one position after the other waits for the recorded period of each, when the thread ends
    its round before the reader goes on. File offsets are kept below \<open>2 ^ 31\<close> where the code narrows
    positions to \<open>int\<close>.
  \<^item> Concurrency: no interleaving of the operations of the program gets stuck; notifications
    of the condition variable helper are not lost; the coarse wait of a reader has exactly
    the outcomes of its atomic actions.
  \<^item> Queues: bounds and first-in first-out delivery in any interleaving.
  \<^item> Sample plugin: what a transfer hands over comes out of the reads; the destructor of a pool
    waits for the whole transfer.
  \<^item> File system: directories agree with attributes, file handles are fresh, poll handles
    are neither lost nor used after they have been destroyed, polling follows end of file and
    notification, the debug level round-trips, calls reach their plugin.
  \<^item> Manager: the first library for an identifier wins, the root directory lists exactly the
    loaded plugins, a signal unloads once; \<open>main\<close> hands what has been loaded to FUSE.
  \<^item> The program as a whole refines an abstract file system (\<open>spec_step\<close>): any sequence of
    listings, opens, reads of any length at any offset, writes, closes and polls by any number
    of clients, chunks that arrive and turns of the throttle threads gives the results of files
    that grow at their end and whose last 102400 chunks can be read. The abstract state forgets rings, periods, locks, paths and plugins.
  \<^item> All parts together: from the start of the program, through an open and the work of the
    producer, to the bytes that a read of \<open>/sample_plugin/test1.tst\<close> returns; a whole session of
    such reads with the throttle on, where each read grants the thread the \<open>307207\<close> turns
    (\<open>3 * 102400 + 7\<close>) that are always enough; and the example client, which prints each value that a plugin announces.

  The theorems whose text says so document where the code departs from its intent: reads of
  a closed stream past its end, reads that are overtaken by the producer, several clients that
  the throttle takes for one that searches, the last buffer read from a later offset, attributes of the
  root directory, short reads of the debug level, the repeated stop request, aborts of a
  running producer, wake-ups that come at the timeout, the idle limit that hits a reader that
  is faster than the thread, the plugins that are not loaded under
  \<open>NDEBUG\<close>, and the lemmas \<open>false_name_unregisters\<close>, \<open>abort_then_destroy_fails\<close>,
  \<open>unaligned_test_overruns\<close>, \<open>client_prints_stale_tail\<close>, \<open>client_ignores_open_error\<close>,
  \<open>ts_dump_low_byte\<close> and \<open>allocate_fails\<close>.

  \<^bold>\<open>Not modelled.\<close> The output of the log; the empty classes Buffer, ActiveBuffer,
  MemAllocator and PluginImpl; thread priorities; the parsers and the main loop of FUSE, the
  system calls and the transfer library, which are parameters; PlayerReadThrottleTest, which
  measures a reader and a producer that run at once: its outcome depends on how long the code
  itself takes, while time passes in sleeps only here. Data races are steps that see a state
  of one moment: the window check of \<open>read\<close> and its test of \<open>mGotLastBuffer\<close> are made without the lock
  of the writer and are taken to be atomic; what happens between the check and the copy is modelled.
  \<open>ByteBufferPool\<close>, whose operations are those of its base class, has no definitions of its own.

  \<^bold>\<open>Limits of the refinement.\<close> In \<open>Stream_Files\<close> transfers do not end, since the code does not treat the
  end of a closed stream as a file would (\<open>pool_read_past_end\<close>, \<open>pool_read_tail_untruncated\<close>);
  the reads are of at least one byte and buffers are shorter than \<open>2 ^ 31\<close> bytes, which is
  what fits into the result of a callback; chunks arrive between calls, and the turns of the throttle
  thread between and during them (\<open>patient\<close>). Arrivals during a call are in the schedules of the pool's own
  theorems. What is left of the program, as far as it can be observed, is calls of libraries.
\<close>

end
